(* ===== verification/Prelude.thy ===== *)
theory Prelude
  imports Main "HOL-Library.Sublist" "HOL-Library.Word"
begin

text \<open>
  Shared vocabulary of the development.  Go strings are byte sequences and are modelled by
  \<open>string\<close> (a list of 8-bit characters).  The functions of this theory are the ones of
  Go's packages \<open>strings\<close> and \<open>strconv\<close> that azkaban's sources call, restricted to the
  shapes they are called in (a one-byte separator for \<open>Cut\<close>, \<open>Split\<close>).  Case mapping and
  white space are the ASCII ones: a letter outside ASCII is left alone, where Go would also
  fold the non-ASCII letters.

  A call that may fail returns a sum, \<open>Inl\<close> the error; \<open>bindR\<close> sequences such calls.
\<close>

named_theorems go_string \<open>equations of the string operations\<close>
named_theorems plan_simps \<open>equations of the bind plan\<close>

section \<open>Fallible results\<close>

fun bindR :: "'e + 'a \<Rightarrow> ('a \<Rightarrow> 'e + 'b) \<Rightarrow> 'e + 'b" where
  "bindR (Inl e) f = Inl e"
| "bindR (Inr a) f = f a"

lemma bindR_Inr_iff [simp]: "bindR m f = Inr b \<longleftrightarrow> (\<exists>a. m = Inr a \<and> f a = Inr b)"
  by (cases m) auto

lemma bindR_Inl_iff:
  "bindR m f = Inl e \<longleftrightarrow> m = Inl e \<or> (\<exists>a. m = Inr a \<and> f a = Inl e)"
  by (cases m) auto

text \<open>A loop body over a list, the state threaded, stopping at the first error.\<close>

fun foldR :: "('x \<Rightarrow> 's \<Rightarrow> 'e + 's) \<Rightarrow> 'x list \<Rightarrow> 's \<Rightarrow> 'e + 's" where
  "foldR f [] s = Inr s"
| "foldR f (x # xs) s = bindR (f x s) (foldR f xs)"

lemma foldR_append:
  "foldR f (xs @ ys) s = bindR (foldR f xs s) (foldR f ys)"
proof (induction xs arbitrary: s)
  case (Cons x xs)
  then show ?case by (cases "f x s") auto
qed simp

lemma foldR_invariant:
  assumes "foldR f xs s = Inr t" and "P s"
    and "\<And>x s t. x \<in> set xs \<Longrightarrow> P s \<Longrightarrow> f x s = Inr t \<Longrightarrow> P t"
  shows "P t"
  using assms
proof (induction xs arbitrary: s)
  case (Cons x xs)
  from Cons.prems(1) obtain u where u: "f x s = Inr u" "foldR f xs u = Inr t" by auto
  then have "P u" using Cons.prems(2,3) by auto
  then show ?case using Cons.IH [OF u(2)] Cons.prems(3) by auto
qed simp

section \<open>Strings\<close>

abbreviation has_prefix :: "string \<Rightarrow> string \<Rightarrow> bool" where
  "has_prefix s p \<equiv> prefix p s"

abbreviation has_suffix :: "string \<Rightarrow> string \<Rightarrow> bool" where
  "has_suffix s p \<equiv> suffix p s"

abbreviation contains_sub :: "string \<Rightarrow> string \<Rightarrow> bool" where
  "contains_sub s p \<equiv> sublist p s"

definition contains_any :: "string \<Rightarrow> string \<Rightarrow> bool" where
  "contains_any s cs = list_ex (\<lambda>c. c \<in> set cs) s"

definition trim_prefix :: "string \<Rightarrow> string \<Rightarrow> string" where
  "trim_prefix s p = (if has_prefix s p then drop (length p) s else s)"

definition trim_suffix :: "string \<Rightarrow> string \<Rightarrow> string" where
  "trim_suffix s p = (if has_suffix s p then take (length s - length p) s else s)"

definition cut_prefix :: "string \<Rightarrow> string \<Rightarrow> string option" where
  "cut_prefix s p = (if has_prefix s p then Some (drop (length p) s) else None)"

text \<open>\<open>strings.Cut\<close> at a one-byte separator: before, after, found.\<close>

definition cut_at :: "string \<Rightarrow> char \<Rightarrow> string \<times> string \<times> bool" where
  "cut_at s c = (case dropWhile (\<lambda>x. x \<noteq> c) s of
       [] \<Rightarrow> (s, [], False)
     | _ # r \<Rightarrow> (takeWhile (\<lambda>x. x \<noteq> c) s, r, True))"

text \<open>\<open>strings.Split\<close> at the bytes that satisfy a predicate; never empty.\<close>

fun split_by :: "(char \<Rightarrow> bool) \<Rightarrow> string \<Rightarrow> string list" where
  "split_by P [] = [[]]"
| "split_by P (x # xs) =
     (if P x then [] # split_by P xs
      else (case split_by P xs of [] \<Rightarrow> [[x]] | y # ys \<Rightarrow> (x # y) # ys))"

abbreviation split_on :: "char \<Rightarrow> string \<Rightarrow> string list" where
  "split_on c \<equiv> split_by (\<lambda>x. x = c)"

text \<open>\<open>strings.FieldsFunc\<close>: the same, with the empty fields dropped.\<close>

definition fields_func :: "(char \<Rightarrow> bool) \<Rightarrow> string \<Rightarrow> string list" where
  "fields_func P s = filter (\<lambda>f. f \<noteq> []) (split_by P s)"

fun join_with :: "string \<Rightarrow> string list \<Rightarrow> string" where
  "join_with sep [] = []"
| "join_with sep [x] = x"
| "join_with sep (x # y # ys) = x @ sep @ join_with sep (y # ys)"

abbreviation newline :: char where
  "newline \<equiv> CHR 0x0A"

definition is_space :: "char \<Rightarrow> bool" where
  "is_space c = (let n = (of_char c :: nat) in n = 32 \<or> (9 \<le> n \<and> n \<le> 13))"

definition trim_space :: "string \<Rightarrow> string" where
  "trim_space s = rev (dropWhile is_space (rev (dropWhile is_space s)))"

definition lower_char :: "char \<Rightarrow> char" where
  "lower_char c = (let n = (of_char c :: nat) in if 65 \<le> n \<and> n \<le> 90 then char_of (n + 32) else c)"

definition upper_char :: "char \<Rightarrow> char" where
  "upper_char c = (let n = (of_char c :: nat) in if 97 \<le> n \<and> n \<le> 122 then char_of (n - 32) else c)"

text \<open>
  Case is a matter of Unicode in Go.  Four letters outside ASCII have an ASCII counterpart: the Kelvin
  sign and the dotted capital I become k and i in lower case, the long s and the dotless i become S and I
  in upper case, and the comparison up to case takes the Kelvin sign for a k and the long s for an s.
  Any other letter outside ASCII is left alone here; it is never equal to an ASCII one.
\<close>

fun map_letters :: "(string \<times> char) list \<Rightarrow> (char \<Rightarrow> char) \<Rightarrow> string \<Rightarrow> string" where
  "map_letters tbl f [] = []"
| "map_letters tbl f (c # cs) =
     (case find (\<lambda>(u, v). prefix u (c # cs)) tbl of
        Some (u, v) \<Rightarrow> v # map_letters tbl f (drop (length u - 1) cs)
      | None \<Rightarrow> f c # map_letters tbl f cs)"

definition kelvin :: string where "kelvin = [CHR 0xE2, CHR 0x84, CHR 0xAA]"
definition long_s :: string where "long_s = [CHR 0xC5, CHR 0xBF]"
definition dotted_I :: string where "dotted_I = [CHR 0xC4, CHR 0xB0]"
definition dotless_i :: string where "dotless_i = [CHR 0xC4, CHR 0xB1]"

definition to_lower :: "string \<Rightarrow> string" where
  "to_lower s = map_letters [(kelvin, CHR ''k''), (dotted_I, CHR ''i'')] lower_char s"

definition to_upper :: "string \<Rightarrow> string" where
  "to_upper s = map_letters [(long_s, CHR ''S''), (dotless_i, CHR ''I'')] upper_char s"

definition fold_case :: "string \<Rightarrow> string" where
  "fold_case s = map_letters [(kelvin, CHR ''K''), (long_s, CHR ''S'')] upper_char s"

definition equal_fold :: "string \<Rightarrow> string \<Rightarrow> bool" where
  "equal_fold s t = (fold_case s = fold_case t)"

definition hex_digit :: "nat \<Rightarrow> char" where
  "hex_digit n = ''0123456789abcdef'' ! n"

definition is_digit :: "char \<Rightarrow> bool" where
  "is_digit c = (let n = (of_char c :: nat) in 48 \<le> n \<and> n \<le> 57)"

definition digit_val :: "char \<Rightarrow> nat" where
  "digit_val c = of_char c - 48"

text \<open>The value of decimal digits.\<close>

fun digits_value :: "nat \<Rightarrow> string \<Rightarrow> nat option" where
  "digits_value n [] = Some n"
| "digits_value n (c # cs) = (if is_digit c then digits_value (10 * n + digit_val c) cs else None)"

text \<open>\<open>strconv.Itoa\<close> of a number that is not negative.\<close>

fun itoa :: "nat \<Rightarrow> string" where
  "itoa n = (if n < 10 then [char_of (n + 48)] else itoa (n div 10) @ [char_of (n mod 10 + 48)])"

declare itoa.simps [simp del]

subsection \<open>Laws\<close>

lemma digit_char [simp]: "d < 10 \<Longrightarrow> is_digit (char_of (d + 48 :: nat)) \<and> digit_val (char_of (d + 48 :: nat)) = d"
  by (simp add: is_digit_def digit_val_def Let_def of_char_of)

lemma itoa_not_Nil [simp]: "itoa n \<noteq> []"
  by (subst itoa.simps) simp

lemma itoa_digits: "c \<in> set (itoa n) \<Longrightarrow> is_digit c"
proof (induction n rule: itoa.induct)
  case (1 n)
  then show ?case by (subst (asm) (2) itoa.simps) (auto split: if_splits)
qed

lemma digits_value_append:
  "digits_value n (xs @ ys) = (case digits_value n xs of None \<Rightarrow> None | Some m \<Rightarrow> digits_value m ys)"
  by (induction n xs rule: digits_value.induct) auto

lemma digits_value_itoa: "digits_value 0 (itoa n) = Some n"
proof (induction n rule: itoa.induct)
  case (1 n)
  then show ?case
    by (subst itoa.simps) (simp add: digits_value_append)
qed

lemma split_by_not_Nil [simp]: "split_by P s \<noteq> []"
  by (cases s) (auto split: list.splits)

lemma split_by_Cons_other:
  "\<not> P x \<Longrightarrow> split_by P (x # xs) = (x # hd (split_by P xs)) # tl (split_by P xs)"
  by (cases "split_by P xs") auto

lemma split_by_clean_fields: "f \<in> set (split_by P s) \<Longrightarrow> x \<in> set f \<Longrightarrow> \<not> P x"
proof (induction s arbitrary: f)
  case (Cons y s)
  show ?case
  proof (cases "P y")
    case True
    with Cons show ?thesis by auto
  next
    case False
    obtain a l where al: "split_by P s = a # l" by (cases "split_by P s") auto
    with Cons.prems False have "f = y # a \<or> f \<in> set l" by auto
    with Cons.prems(2) False al show ?thesis
      using Cons.IH [of a] Cons.IH [of f] by auto
  qed
qed simp

lemma split_by_no_sep: "\<forall>x \<in> set s. \<not> P x \<Longrightarrow> split_by P s = [s]"
  by (induction s) auto

lemma split_by_append_sep:
  assumes "\<forall>x \<in> set s. \<not> P x" and "P c"
  shows "split_by P (s @ c # t) = s # split_by P t"
  using assms by (induction s) auto

lemma split_join:
  assumes "xs \<noteq> []" and "\<forall>x \<in> set xs. c \<notin> set x"
  shows "split_on c (join_with [c] xs) = xs"
  using assms
proof (induction xs rule: induct_list012)
  case (2 x)
  then show ?case by (auto intro: split_by_no_sep)
next
  case (3 x y zs)
  then have IH: "split_on c (join_with [c] (y # zs)) = y # zs" by simp
  have "split_on c (x @ c # join_with [c] (y # zs)) = x # split_on c (join_with [c] (y # zs))"
    using "3.prems" by (intro split_by_append_sep) auto
  with IH show ?case by simp
qed simp

lemma join_with_Cons: "ys \<noteq> [] \<Longrightarrow> join_with sep (x # ys) = x @ sep @ join_with sep ys"
  by (cases ys) auto

lemma join_split: "join_with [c] (split_on c s) = s"
proof (induction s)
  case (Cons x s)
  then show ?case
    by (cases "split_on c s" rule: list.exhaust; cases "tl (split_on c s)")
      (auto simp: join_with_Cons)
qed simp

lemma cut_at_found:
  "cut_at s c = (a, b, True) \<longleftrightarrow> s = a @ c # b \<and> c \<notin> set a"
proof
  assume h: "cut_at s c = (a, b, True)"
  then obtain y where y: "dropWhile (\<lambda>x. x \<noteq> c) s = y # b" and a: "a = takeWhile (\<lambda>x. x \<noteq> c) s"
    by (auto simp: cut_at_def split: list.splits)
  then have "y = c" using hd_dropWhile [of "\<lambda>x. x \<noteq> c" s] by force
  with y a show "s = a @ c # b \<and> c \<notin> set a"
    using takeWhile_dropWhile_id [of "\<lambda>x. x \<noteq> c" s] by (auto dest: set_takeWhileD)
next
  assume "s = a @ c # b \<and> c \<notin> set a"
  then have "takeWhile (\<lambda>x. x \<noteq> c) s = a" and "dropWhile (\<lambda>x. x \<noteq> c) s = c # b"
    by (auto simp: takeWhile_tail dropWhile_append)
  then show "cut_at s c = (a, b, True)" by (simp add: cut_at_def)
qed

lemma cut_at_not_found: "c \<notin> set s \<Longrightarrow> cut_at s c = (s, [], False)"
proof -
  assume "c \<notin> set s"
  then have "dropWhile (\<lambda>x. x \<noteq> c) s = []" by auto
  then show ?thesis by (simp only: cut_at_def list.case)
qed

lemma cut_at_found_iff: "snd (snd (cut_at s c)) \<longleftrightarrow> c \<in> set s"
proof (cases "c \<in> set s")
  case True
  then have "dropWhile (\<lambda>x. x \<noteq> c) s \<noteq> []" by auto
  with True show ?thesis by (auto simp: cut_at_def split: list.splits)
qed (simp add: cut_at_not_found)

lemma prefix_drop: "prefix p s \<Longrightarrow> p @ drop (length p) s = s"
  by (auto simp: prefix_def)

lemma trim_prefix_prefix [simp]: "trim_prefix (p @ s) p = s"
  by (simp add: trim_prefix_def)

lemma trim_suffix_suffix [simp]: "trim_suffix (s @ p) p = s"
  by (simp add: trim_suffix_def suffix_def)

lemma cut_prefix_Some: "cut_prefix s p = Some r \<longleftrightarrow> s = p @ r"
  by (auto simp: cut_prefix_def prefix_def)

text \<open>On ASCII the letters are mapped one by one.\<close>

definition ascii :: "string \<Rightarrow> bool" where
  "ascii s \<longleftrightarrow> list_all (\<lambda>c. c \<notin> set [CHR 0xE2, CHR 0xC4, CHR 0xC5]) s"

lemma ascii_simps [simp]:
  "ascii []" "ascii (c # s) \<longleftrightarrow> c \<notin> set [CHR 0xE2, CHR 0xC4, CHR 0xC5] \<and> ascii s"
  "ascii (s @ t) \<longleftrightarrow> ascii s \<and> ascii t"
  by (simp_all add: ascii_def)

lemmas letters = kelvin_def long_s_def dotted_I_def dotless_i_def

lemma case_ascii:
  assumes "ascii s"
  shows "to_lower s = map lower_char s" and "to_upper s = map upper_char s" and "fold_case s = map upper_char s"
  using assms by (induction s) (auto simp: to_lower_def to_upper_def fold_case_def letters)

lemma ascii_below_128: "(of_char c :: nat) < 128 \<Longrightarrow> ascii [c, lower_char c, upper_char c]"
proof -
  assume c: "(of_char c :: nat) < 128"
  have low: "ascii [d]" if "(of_char d :: nat) < 128" for d using that by auto
  have "(of_char (lower_char c) :: nat) < 128" "(of_char (upper_char c) :: nat) < 128"
    using c by (auto simp: lower_char_def upper_char_def Let_def)
  with c low show ?thesis by simp
qed

lemma length_map_letters: "length (map_letters tbl f s) \<le> length s"
proof (induction tbl f s rule: map_letters.induct)
  case (2 tbl f c cs)
  show ?case
  proof (cases "find (\<lambda>(u, v). prefix u (c # cs)) tbl")
    case (Some uv)
    obtain u v where uv: "uv = (u, v)" by (cases uv)
    from "2.IH"(2) [OF Some uv [symmetric]] have "length (map_letters tbl f (drop (length u - 1) cs)) \<le> length cs" by simp
    then show ?thesis using Some uv by simp
  qed (use "2.IH"(1) in simp)
qed simp

lemma to_lower_Cons: "c \<notin> set [CHR 0xE2, CHR 0xC4] \<Longrightarrow> to_lower (c # s) = lower_char c # to_lower s"
  by (auto simp: to_lower_def letters)

lemma case_folding_samples:
  "equal_fold (''Lin'' @ kelvin @ long_s) ''links''" "to_upper (''m'' @ kelvin) \<noteq> ''MK''"
  "to_upper (long_s @ ''ys_adm'' @ dotless_i @ ''n'') = ''SYS_ADMIN''" "to_lower (''CONTA'' @ dotted_I @ ''NER:'') = ''container:''"
  by code_simp+

lemmas string_defs = contains_any_def trim_prefix_def trim_suffix_def cut_prefix_def
  lower_char_def upper_char_def is_space_def trim_space_def
  suffix_to_prefix

end
