(* ===== verification/Paths.thy ===== *)
theory Paths
  imports Prelude
begin

text \<open>
  Lexical paths.  The first part models the functions of Go's \<open>path/filepath\<close> (on Unix)
  that azkaban calls: \<open>Clean\<close>, \<open>Join\<close>, \<open>Dir\<close>, \<open>IsAbs\<close>, \<open>Abs\<close>, \<open>Rel\<close>.  The second part models
  the program's own path predicates: \<open>resolve\<close> and \<open>bindSafe\<close> (\<open>cgroups.go\<close>), \<open>covers\<close>, \<open>under\<close>
  and \<open>abs\<close> (\<open>why.go\<close>), \<open>underAllowlist\<close> (\<open>elevate.go\<close>), \<open>pathWithin\<close> and \<open>realPath\<close>
  (\<open>dockerproxy.go\<close>).  The third part gives their abstraction: a cleaned path is a list of
  elements, and each of the program's containment tests is the prefix order on those lists.
\<close>

abbreviation slash :: char where
  "slash \<equiv> CHR ''/''"

section \<open>The library functions\<close>

text \<open>
  One element of \<open>filepath.Clean\<close>'s loop.  \<open>out\<close> holds the elements written so far, last
  first; an element \<open>..\<close> removes the last one unless that is itself a kept \<open>..\<close>.
\<close>

fun clean_step :: "bool \<Rightarrow> string list \<Rightarrow> string \<Rightarrow> string list" where
  "clean_step rooted out e =
     (if e = [] \<or> e = ''.'' then out
      else if e = ''..'' then
        (case out of
           [] \<Rightarrow> if rooted then [] else [''..'']
         | y # ys \<Rightarrow> if y = ''..'' then ''..'' # out else ys)
      else e # out)"

definition clean_out :: "string \<Rightarrow> string list" where
  "clean_out p = rev (foldl (clean_step (prefix ''/'' p)) [] (split_on slash p))"

definition clean :: "string \<Rightarrow> string" where
  "clean p = (if prefix ''/'' p then ''/'' @ join_with ''/'' (clean_out p)
     else if clean_out p = [] then ''.'' else join_with ''/'' (clean_out p))"

definition join_path :: "string list \<Rightarrow> string" where
  "join_path es = (case dropWhile (\<lambda>e. e = []) es of [] \<Rightarrow> [] | fs \<Rightarrow> clean (join_with ''/'' fs))"

definition dir_of :: "string \<Rightarrow> string" where
  "dir_of p = clean (rev (dropWhile (\<lambda>c. c \<noteq> slash) (rev p)))"

definition is_abs :: "string \<Rightarrow> bool" where
  "is_abs p = has_prefix p ''/''"

definition abs_path :: "string \<Rightarrow> string \<Rightarrow> string" where
  "abs_path wd p = (if is_abs p then clean p else join_path [wd, p])"

fun drop_common :: "string list \<Rightarrow> string list \<Rightarrow> string list \<times> string list" where
  "drop_common (x # xs) (y # ys) = (if x = y then drop_common xs ys else (x # xs, y # ys))"
| "drop_common xs ys = (xs, ys)"

text \<open>\<open>filepath.Rel\<close>; \<open>None\<close> is its error result.\<close>

definition rel_path :: "string \<Rightarrow> string \<Rightarrow> string option" where
  "rel_path base targ =
     (if clean base = clean targ then Some ''.''
      else if is_abs base \<noteq> is_abs targ then None
      else (case drop_common (clean_out base) (clean_out targ) of (bs, ts) \<Rightarrow>
        if bs \<noteq> [] \<and> hd bs = ''..'' then None
        else Some (join_with ''/'' (replicate (length bs) ''..'' @ ts))))"

section \<open>The program's path predicates\<close>

text \<open>\<open>resolve\<close>: a config entry as an absolute path.\<close>

definition resolve :: "string \<Rightarrow> string \<Rightarrow> string" where
  "resolve home p = (if is_abs p then p else join_path [home, p])"

text \<open>\<open>bindSafe\<close>: rejects a writable bind of \<open>/\<close>, \<open>$HOME\<close> or an ancestor of \<open>$HOME\<close>.\<close>

definition bindSafe :: "string \<Rightarrow> string \<Rightarrow> bool" where
  "bindSafe home p = (let p = clean p in p \<noteq> ''/'' \<and> p \<noteq> home \<and> \<not> has_prefix home (p @ ''/''))"

definition covers :: "string \<Rightarrow> string \<Rightarrow> bool" where
  "covers entry rel = (let entry = clean entry; rel = clean rel
     in rel = entry \<or> has_prefix rel (entry @ ''/''))"

definition under :: "string \<Rightarrow> string \<Rightarrow> bool" where
  "under p root = (p = root \<or> has_prefix p (trim_suffix root ''/'' @ ''/''))"

text \<open>
  \<open>abs\<close> of \<open>why.go\<close>: a query, with a literal leading \<open>~\<close> expanded.  \<open>filepath.Abs\<close> fails only
  when the working directory cannot be read (\<open>wd = None\<close>).
\<close>

definition abs_query :: "string option \<Rightarrow> string \<Rightarrow> string \<Rightarrow> string" where
  "abs_query wd p home =
     (if p = ''~'' then home
      else let p = (case cut_prefix p ''~/'' of Some after \<Rightarrow> join_path [home, after] | None \<Rightarrow> p)
        in (case wd of Some d \<Rightarrow> abs_path d p
            | None \<Rightarrow> clean p))"

definition underAllowlist :: "string list \<Rightarrow> string \<Rightarrow> bool" where
  "underAllowlist allow p =
     list_ex (\<lambda>a. a \<noteq> [] \<and> (p = a \<or> has_prefix p (trim_suffix a ''/'' @ ''/''))) allow"

subsection \<open>A cleaned path is not empty\<close>

lemma clean_step_nonempty: "[] \<notin> set out \<Longrightarrow> [] \<notin> set (clean_step r out e)"
  by (auto split: list.splits)

lemma clean_fold_nonempty: "[] \<notin> set out \<Longrightarrow> [] \<notin> set (foldl (clean_step r) out es)"
  by (induction es arbitrary: out) (simp_all add: clean_step_nonempty del: clean_step.simps)

lemma clean_not_Nil [simp]: "clean p \<noteq> []"
proof (cases "clean_out p")
  case (Cons x xs)
  then have "x \<noteq> []"
    using clean_fold_nonempty [of "[]" "prefix ''/'' p" "split_on slash p"]
    by (auto simp: clean_out_def simp flip: set_rev [of "foldl _ _ _"])
  then show ?thesis using Cons by (cases xs) (auto simp: clean_def)
qed (simp add: clean_def)

subsection \<open>Termination of the walk to the root\<close>

definition weight :: "string list \<Rightarrow> nat" where
  "weight es = sum_list (map (\<lambda>e. Suc (length e)) es)"

lemma weight_simps [simp]:
  "weight [] = 0" "weight (e # es) = Suc (length e) + weight es"
  "weight (es @ fs) = weight es + weight fs" "weight (rev es) = weight es"
  by (simp_all add: weight_def rev_map [symmetric])

lemma weight_split: "weight (split_on slash p) = Suc (length p)"
proof (induction p)
  case (Cons x p)
  then show ?case by (cases "split_on slash p") auto
qed simp

lemma length_join: "es \<noteq> [] \<Longrightarrow> Suc (length (join_with ''/'' es)) = weight es"
  by (induction es rule: induct_list012) auto

lemma weight_clean_step: "weight (clean_step r out e) \<le> weight out + (if e = [] then 0 else Suc (length e))"
  by (auto split: list.splits)

lemma weight_clean_fold:
  "weight (foldl (clean_step r) out es) \<le> weight out + weight (filter (\<lambda>e. e \<noteq> []) es)"
proof (induction es arbitrary: out)
  case (Cons e es)
  have "weight (foldl (clean_step r) out (e # es))
      \<le> weight (clean_step r out e) + weight (filter (\<lambda>e. e \<noteq> []) es)"
    using Cons.IH [of "clean_step r out e"] by (simp del: clean_step.simps)
  with weight_clean_step [of r out e] show ?case by (cases "e = []") (auto simp del: clean_step.simps)
qed simp

lemma weight_filter: "weight (filter (\<lambda>e. e \<noteq> []) es) + length (filter (\<lambda>e. e = []) es) = weight es"
  by (induction es) auto

lemma weight_clean_out:
  "weight (clean_out p) + length (filter (\<lambda>e. e = []) (split_on slash p)) \<le> Suc (length p)"
  using weight_clean_fold [of "prefix ''/'' p" "[]" "split_on slash p"]
    weight_filter [of "split_on slash p"] weight_split [of p]
  by (simp add: clean_out_def)

lemma split_on_snoc: "split_on slash (q @ ''/'') = split_on slash q @ [[]]"
  by (induction q) (auto split: list.splits)

lemma length_clean_slash:
  assumes "q \<noteq> ''/''" and "q = r @ ''/''"
  shows "clean q = ''.'' \<or> length (clean q) < length q"
proof -
  have e: "split_on slash q = split_on slash r @ [[]]" using assms(2) split_on_snoc by simp
  show ?thesis
  proof (cases "prefix ''/'' q")
    case True
    with assms obtain r' where r: "r = slash # r'" by (cases r) auto
    then have "length (filter (\<lambda>e. e = []) (split_on slash q)) \<ge> 2" using e by simp
    then have "weight (clean_out q) < length q" using weight_clean_out [of q] by simp
    moreover have "2 \<le> length q" using r assms(2) by simp
    ultimately show ?thesis using True length_join [of "clean_out q"]
      by (cases "clean_out q = []") (auto simp: clean_def)
  next
    case False
    have "length (filter (\<lambda>e. e = []) (split_on slash q)) \<ge> 1" using e by simp
    then have "weight (clean_out q) \<le> length q" using weight_clean_out [of q] by simp
    then show ?thesis using False length_join [of "clean_out q"]
      by (cases "clean_out q = []") (auto simp: clean_def)
  qed
qed

definition dir_measure :: "string \<Rightarrow> nat" where
  "dir_measure d = (if d = ''.'' then 0 else if d = [] then 1 else Suc (length d))"

lemma clean_Nil [simp]: "clean [] = ''.''"
  by (simp add: clean_def clean_out_def)

lemma clean_slash [simp]: "clean ''/'' = ''/''"
  by (simp add: clean_def clean_out_def)

lemma dir_of_decreases:
  assumes "dir_of d \<noteq> d"
  shows "dir_measure (dir_of d) < dir_measure d"
proof -
  define q where "q = rev (dropWhile (\<lambda>c. c \<noteq> slash) (rev d))"
  have dir: "dir_of d = clean q" by (simp add: dir_of_def q_def)
  have len: "length q \<le> length d"
    unfolding q_def by (simp add: length_dropWhile_le [of _ "rev d", simplified])
  show ?thesis
  proof (cases "q = []")
    case True
    then show ?thesis using assms dir by (auto simp: dir_measure_def)
  next
    case False
    then obtain x xs where x: "dropWhile (\<lambda>c. c \<noteq> slash) (rev d) = x # xs"
      unfolding q_def by (cases "dropWhile (\<lambda>c. c \<noteq> slash) (rev d)") (simp_all only: rev.simps simp_thms)
    then have "x = slash" using hd_dropWhile [of "\<lambda>c. c \<noteq> slash" "rev d"] by force
    then have q: "q = rev xs @ ''/''" using x by (simp add: q_def)
    have "clean q = ''.'' \<or> length (clean q) < length q \<or> q = ''/''"
      using length_clean_slash [OF _ q] by auto
    moreover have "d \<noteq> []" using x by auto
    moreover have "q = ''/'' \<longrightarrow> 1 < length d"
    proof
      assume h: "q = ''/''"
      then have "d \<noteq> ''/''" and "d \<noteq> []" using assms dir x by auto
      moreover have "length d = 1 \<Longrightarrow> d = ''/''"
        using x by (cases d) (auto split: if_splits)
      ultimately show "1 < length d" by (cases "length d") auto
    qed
    moreover have "d = ''.'' \<Longrightarrow> q = []" by (auto simp: q_def)
    ultimately show ?thesis using assms dir len False
      by (auto simp: dir_measure_def)
  qed
qed

text \<open>
  \<open>realPath\<close>: symlinks resolved even when the leaf does not exist, by resolving the longest
  existing ancestor.  \<open>ev\<close> stands for \<open>filepath.EvalSymlinks\<close>, which asks the file system
  (\<open>None\<close>: it failed).
\<close>

function real_up :: "(string \<Rightarrow> string option) \<Rightarrow> string \<Rightarrow> string \<Rightarrow> string" where
  "real_up ev p dir =
     (let parent = dir_of dir in
      if parent = dir then p
      else (case ev parent of
              Some rp \<Rightarrow> join_path [rp, drop (length parent) p]
            | None \<Rightarrow> real_up ev p parent))"
  by pat_completeness auto
termination
  by (relation "measure (\<lambda>(ev, p, dir). dir_measure dir)") (auto simp: dir_of_decreases)

declare real_up.simps [simp del]

definition realPath :: "(string \<Rightarrow> string option) \<Rightarrow> string \<Rightarrow> string" where
  "realPath ev p = (let p = clean p in case ev p of Some rp \<Rightarrow> rp | None \<Rightarrow> real_up ev p p)"

definition pathWithin :: "(string \<Rightarrow> string option) \<Rightarrow> string \<Rightarrow> string \<Rightarrow> bool" where
  "pathWithin ev p rootReal =
     (let rp = realPath ev p in rp = rootReal \<or> has_prefix rp (rootReal @ ''/''))"

subsection \<open>The walk up ends\<close>

text \<open>The loop as the source writes it, with a bound on its rounds: \<open>None\<close> when they run out.\<close>

fun walk_up :: "nat \<Rightarrow> (string \<Rightarrow> string option) \<Rightarrow> string \<Rightarrow> string \<Rightarrow> string option" where
  "walk_up 0 ev p dir = None"
| "walk_up (Suc n) ev p dir =
     (let parent = dir_of dir in
      if parent = dir then Some p
      else (case ev parent of
              Some rp \<Rightarrow> Some (join_path [rp, drop (length parent) p])
            | None \<Rightarrow> walk_up n ev p parent))"

lemma walk_up_returns: "dir_measure dir < n \<Longrightarrow> walk_up n ev p dir = Some (real_up ev p dir)"
proof (induction n arbitrary: dir)
  case (Suc n)
  have "dir_measure (dir_of dir) < n" if "dir_of dir \<noteq> dir"
    using dir_of_decreases [OF that] Suc.prems by simp
  then show ?case using Suc.IH by (subst real_up.simps) (auto simp: Let_def split: option.split)
qed simp

text \<open>
  C23. Resolving a path that does not exist always ends: whatever the file system answers, the loop of
  \<open>realPath\<close> over the ancestors returns within as many rounds as the cleaned path has bytes, plus two,
  and its result is the one the filter uses.
\<close>

theorem real_path_returns:
  "\<exists>r. (case ev (clean p) of Some rp \<Rightarrow> Some rp | None \<Rightarrow> walk_up (length (clean p) + 2) ev (clean p) (clean p)) = Some r \<and>
     realPath ev p = r"
proof -
  have "dir_measure (clean p) < length (clean p) + 2" by (simp add: dir_measure_def)
  from walk_up_returns [OF this] show ?thesis by (auto simp: realPath_def Let_def split: option.split)
qed

end
