(* ===== verification/Path_Elements.thy ===== *)
theory Path_Elements
  imports Paths
begin

text \<open>
  The abstraction of lexical paths.  A cleaned absolute path is \<open>mk_abs es\<close> for a list \<open>es\<close> of
  proper elements, and \<open>clean_out\<close> recovers the list.  Under this abstraction \<open>under\<close>, \<open>covers\<close>
  and \<open>bindSafe\<close>, which the source writes with string prefixes and appended separators, are the
  prefix order on element lists (the locale \<open>containment\<close>), so that their order theory
  (transitivity, comparable ancestors) is proved once.
\<close>

definition proper :: "string \<Rightarrow> bool" where
  "proper e \<longleftrightarrow> e \<noteq> [] \<and> slash \<notin> set e \<and> e \<noteq> ''.'' \<and> e \<noteq> ''..''"

definition mk_abs :: "string list \<Rightarrow> string" where
  "mk_abs es = ''/'' @ join_with ''/'' es"

definition canonical :: "string \<Rightarrow> bool" where
  "canonical p \<longleftrightarrow> is_abs p \<and> clean p = p"

text \<open>A relative config entry that stays below the directory it is resolved against.\<close>

definition plain_rel :: "string \<Rightarrow> bool" where
  "plain_rel e \<longleftrightarrow> \<not> is_abs e \<and> clean_out e \<noteq> [] \<and> list_all proper (clean_out e)"

section \<open>Cleaning\<close>

lemma split_no_slash: "e \<in> set (split_on slash p) \<Longrightarrow> slash \<notin> set e"
  using split_by_clean_fields by blast

lemma clean_step_rooted_proper:
  "list_all proper out \<Longrightarrow> slash \<notin> set e \<Longrightarrow> list_all proper (clean_step True out e)"
  by (auto simp: proper_def split: list.splits)

lemma foldl_rooted_proper:
  "list_all proper out \<Longrightarrow> \<forall>e \<in> set es. slash \<notin> set e \<Longrightarrow>
     list_all proper (foldl (clean_step True) out es)"
proof (induction es arbitrary: out)
  case (Cons e es)
  then have "list_all proper (clean_step True out e)" by (intro clean_step_rooted_proper) auto
  with Cons show ?case by (simp del: clean_step.simps)
qed simp

lemma clean_out_abs_proper: "is_abs p \<Longrightarrow> list_all proper (clean_out p)"
  by (simp add: clean_out_def is_abs_def foldl_rooted_proper split_no_slash)

lemma foldl_proper_append:
  "list_all proper es \<Longrightarrow> foldl (clean_step r) out es = rev es @ out"
  by (induction es arbitrary: out) (auto simp: proper_def)

lemma split_mk_abs:
  assumes "list_all proper es"
  shows "split_on slash (mk_abs es) = [] # (if es = [] then [[]] else es)"
proof (cases "es = []")
  case False
  then show ?thesis using assms split_join [of es slash]
    by (auto simp: mk_abs_def proper_def list_all_iff)
qed (simp add: mk_abs_def)

lemma clean_out_mk_abs [simp]:
  assumes "list_all proper es"
  shows "clean_out (mk_abs es) = es"
proof -
  have "prefix ''/'' (mk_abs es)" by (simp add: mk_abs_def)
  then show ?thesis using assms
    by (cases "es = []") (simp_all add: clean_out_def split_mk_abs foldl_proper_append)
qed

lemma is_abs_mk_abs [simp]: "is_abs (mk_abs es)"
  by (simp add: is_abs_def mk_abs_def)

lemma clean_abs: "is_abs p \<Longrightarrow> clean p = mk_abs (clean_out p)"
  by (simp add: clean_def is_abs_def mk_abs_def)

lemma clean_mk_abs [simp]: "list_all proper es \<Longrightarrow> clean (mk_abs es) = mk_abs es"
  by (simp add: clean_abs)

lemma canonical_mk_abs [simp]: "list_all proper es \<Longrightarrow> canonical (mk_abs es)"
  by (simp add: canonical_def)

lemma canonicalD:
  assumes "canonical p"
  shows "p = mk_abs (clean_out p)" and "list_all proper (clean_out p)"
  using assms clean_abs [of p] by (auto simp: canonical_def clean_out_abs_proper)

lemma canonical_clean [simp]: "is_abs p \<Longrightarrow> canonical (clean p)"
  by (simp add: clean_abs clean_out_abs_proper)

lemma clean_idem_abs: "is_abs p \<Longrightarrow> clean (clean p) = clean p"
  by (simp add: clean_abs clean_out_abs_proper)

lemma mk_abs_inject:
  assumes "list_all proper es" and "list_all proper fs"
  shows "mk_abs es = mk_abs fs \<longleftrightarrow> es = fs"
  using clean_out_mk_abs [OF assms(1)] clean_out_mk_abs [OF assms(2)] by metis

lemma mk_abs_Nil_iff: "list_all proper es \<Longrightarrow> mk_abs es = ''/'' \<longleftrightarrow> es = []"
  using mk_abs_inject [of es "[]"] by (simp add: mk_abs_def)

text \<open>Relative paths: an entry without a leftover \<open>..\<close> cleans the same below any base.\<close>

lemma foldl_rel_base:
  assumes "list_all proper (foldl (clean_step False) out es)"
    and "\<forall>e \<in> set out. e \<noteq> [] \<and> slash \<notin> set e \<and> e \<noteq> ''.''"
    and "\<forall>e \<in> set es. slash \<notin> set e"
  shows "foldl (clean_step True) (out @ base) es = foldl (clean_step False) out es @ base \<and>
    list_all proper out"
  using assms
proof (induction es arbitrary: out)
  case (Cons e es)
  have el: "\<forall>x \<in> set (clean_step False out e). x \<noteq> [] \<and> slash \<notin> set x \<and> x \<noteq> ''.''"
    using Cons.prems(2,3) by (auto split: list.splits)
  have IH: "foldl (clean_step True) (clean_step False out e @ base) es =
      foldl (clean_step False) (clean_step False out e) es @ base \<and>
      list_all proper (clean_step False out e)"
    using Cons.IH [OF _ el] Cons.prems(1,3) by (simp del: clean_step.simps)
  then have "clean_step True (out @ base) e = clean_step False out e @ base" and "list_all proper out"
    using Cons.prems(2,3) by (auto simp: proper_def split: list.splits if_splits)
  with IH show ?case by (simp del: clean_step.simps)
qed (auto simp: proper_def list_all_iff)

lemma clean_out_join:
  assumes "list_all proper hs" and "e \<noteq> []"
  shows "clean_out (mk_abs hs @ ''/'' @ e) =
    rev (foldl (clean_step True) (rev hs) (split_on slash e))"
proof -
  have split: "split_on slash (s @ slash # e) = split_on slash s @ split_on slash e" for s
    by (induction s) (auto split: list.splits simp: append_eq_Cons_conv)
  have "foldl (clean_step True) [] (split_on slash (mk_abs hs)) = rev hs"
    using assms(1) by (simp add: split_mk_abs foldl_proper_append)
  moreover have "prefix ''/'' (mk_abs hs @ ''/'' @ e)" by (simp add: mk_abs_def)
  ultimately show ?thesis by (simp add: clean_out_def split)
qed

lemma resolve_rel:
  assumes "list_all proper hs" and "plain_rel e"
  shows "resolve (mk_abs hs) e = mk_abs (hs @ clean_out e)"
proof -
  have e: "e \<noteq> []" "\<not> prefix ''/'' e" using assms(2) by (auto simp: plain_rel_def is_abs_def clean_out_def)
  have "foldl (clean_step True) ([] @ rev hs) (split_on slash e)
      = foldl (clean_step False) [] (split_on slash e) @ rev hs"
    using assms(2) e(2) split_no_slash
    by (intro foldl_rel_base [THEN conjunct1]) (auto simp: plain_rel_def clean_out_def)
  moreover have "clean_out e = rev (foldl (clean_step False) [] (split_on slash e))"
    using e(2) by (simp add: clean_out_def)
  ultimately have "clean_out (mk_abs hs @ ''/'' @ e) = hs @ clean_out e"
    using clean_out_join [OF assms(1) e(1)] by simp
  moreover have "is_abs (mk_abs hs @ ''/'' @ e)" by (simp add: is_abs_def mk_abs_def)
  ultimately have "clean (mk_abs hs @ ''/'' @ e) = mk_abs (hs @ clean_out e)"
    by (simp only: clean_abs)
  then show ?thesis using assms(2) e
    by (simp add: resolve_def join_path_def plain_rel_def mk_abs_def)
qed

section \<open>Containment as the prefix order\<close>

text \<open>
  The interface: a containment test on a set of well-formed paths, with an abstraction to
  element lists.
\<close>

locale containment =
  fixes wf :: "'p \<Rightarrow> bool"
    and els :: "'p \<Rightarrow> string list"
    and inside :: "'p \<Rightarrow> 'p \<Rightarrow> bool"
  assumes inside_iff: "wf p \<Longrightarrow> wf r \<Longrightarrow> inside p r \<longleftrightarrow> prefix (els r) (els p)"
    and els_inject: "wf p \<Longrightarrow> wf r \<Longrightarrow> els p = els r \<Longrightarrow> p = r"
begin

lemma inside_refl: "wf p \<Longrightarrow> inside p p"
  by (simp add: inside_iff)

lemma inside_trans: "wf p \<Longrightarrow> wf q \<Longrightarrow> wf r \<Longrightarrow> inside p q \<Longrightarrow> inside q r \<Longrightarrow> inside p r"
  using prefix_order.trans by (auto simp: inside_iff)

lemma inside_antisym: "wf p \<Longrightarrow> wf q \<Longrightarrow> inside p q \<Longrightarrow> inside q p \<Longrightarrow> p = q"
  using prefix_order.antisym els_inject by (auto simp: inside_iff)

text \<open>Two directories that hold the same path are nested.\<close>

lemma inside_chain:
  "wf p \<Longrightarrow> wf q \<Longrightarrow> wf r \<Longrightarrow> inside p q \<Longrightarrow> inside p r \<Longrightarrow> inside q r \<or> inside r q"
  using prefix_same_cases by (auto simp: inside_iff)

end

text \<open>The string tests.  \<open>terminated es\<close> writes a separator after every element.\<close>

definition terminated :: "string list \<Rightarrow> string" where
  "terminated es = concat (map (\<lambda>e. e @ ''/'') es)"

lemma terminated_join: "es \<noteq> [] \<Longrightarrow> terminated es = join_with ''/'' es @ ''/''"
  by (induction es rule: induct_list012) (auto simp: terminated_def)

lemma slash_free_cancel:
  assumes "slash \<notin> set r" and "slash \<notin> set p"
  shows "prefix (r @ slash # x) (p @ slash # y) \<longleftrightarrow> r = p \<and> prefix x y"
  using assms
proof (induction r arbitrary: p)
  case Nil
  then show ?case by (cases p) auto
next
  case (Cons c r)
  then show ?case by (cases p) auto
qed

lemma prefix_terminated:
  assumes "\<forall>e \<in> set rs. slash \<notin> set e" and "\<forall>e \<in> set ps. slash \<notin> set e"
  shows "prefix (terminated rs) (terminated ps) \<longleftrightarrow> prefix rs ps"
  using assms
proof (induction rs arbitrary: ps)
  case (Cons r rs)
  show ?case
  proof (cases ps)
    case Nil
    then show ?thesis by (simp add: terminated_def)
  next
    case (Cons p ps')
    with Cons.prems Cons.IH [of ps'] show ?thesis
      by (simp add: terminated_def slash_free_cancel)
  qed
qed (simp add: terminated_def)

lemma proper_slash_free: "list_all proper es \<Longrightarrow> \<forall>e \<in> set es. slash \<notin> set e"
  by (auto simp: list_all_iff proper_def)

lemma join_no_trailing:
  assumes "list_all proper rs" and "rs \<noteq> []"
  shows "\<exists>x. x \<noteq> slash \<and> (\<exists>s. join_with ''/'' rs = s @ [x])"
  using assms
proof (induction rs rule: induct_list012)
  case (2 e)
  then obtain s x where "e = s @ [x]" by (cases e rule: rev_exhaust) (auto simp: proper_def)
  with 2 show ?case by (auto simp: proper_def)
next
  case (3 e f fs)
  then obtain x s where "x \<noteq> slash" and "join_with ''/'' (f # fs) = s @ [x]" by auto
  then have "join_with ''/'' (e # f # fs) = (e @ ''/'' @ s) @ [x]" by simp
  with \<open>x \<noteq> slash\<close> show ?case by blast
qed simp

lemma prefix_join:
  assumes "list_all proper rs" and "list_all proper ps" and "rs \<noteq> []"
  shows "join_with ''/'' ps = join_with ''/'' rs \<or> prefix (join_with ''/'' rs @ ''/'') (join_with ''/'' ps)
    \<longleftrightarrow> prefix rs ps"
proof (cases "ps = []")
  case True
  have "join_with ''/'' rs \<noteq> []"
    using join_no_trailing [OF assms(1,3)] by auto
  with True assms(3) show ?thesis by simp
next
  case False
  have "prefix rs ps \<longleftrightarrow> prefix (terminated rs) (terminated ps)"
    using assms by (simp add: prefix_terminated proper_slash_free)
  also have "\<dots> \<longleftrightarrow> prefix (join_with ''/'' rs @ ''/'') (join_with ''/'' ps @ ''/'')"
    using assms(3) False by (simp add: terminated_join)
  also have "\<dots> \<longleftrightarrow> join_with ''/'' rs = join_with ''/'' ps \<or>
      prefix (join_with ''/'' rs @ ''/'') (join_with ''/'' ps)"
    by (simp only: prefix_snoc append_same_eq)
  finally show ?thesis by auto
qed

lemma under_mk_abs:
  assumes "list_all proper rs" and "list_all proper ps"
  shows "under (mk_abs ps) (mk_abs rs) \<longleftrightarrow> prefix rs ps"
proof (cases "rs = []")
  case True
  then show ?thesis by (simp add: under_def mk_abs_def trim_suffix_def)
next
  case False
  obtain x s where "x \<noteq> slash" and x: "join_with ''/'' rs = s @ [x]"
    using join_no_trailing [OF assms(1) False] by auto
  then have "trim_suffix (mk_abs rs) ''/'' = mk_abs rs"
    by (auto simp: mk_abs_def trim_suffix_def suffix_def)
  then show ?thesis
    using prefix_join [OF assms False] by (simp add: under_def mk_abs_def)
qed

interpretation abs_paths: containment canonical clean_out under
proof unfold_locales
  fix p r :: string
  assume "canonical p" and "canonical r"
  then show "under p r \<longleftrightarrow> prefix (clean_out r) (clean_out p)"
    using canonicalD under_mk_abs by metis
  show "clean_out p = clean_out r \<Longrightarrow> p = r"
    using canonicalD \<open>canonical p\<close> \<open>canonical r\<close> by metis
qed

lemma clean_plain: "plain_rel e \<Longrightarrow> clean e = join_with ''/'' (clean_out e)"
  by (simp add: plain_rel_def clean_def is_abs_def)

lemma clean_out_join_rel:
  assumes "list_all proper es" and "es \<noteq> []"
  shows "clean_out (join_with ''/'' es) = es"
proof -
  have "split_on slash (join_with ''/'' es) = es"
    using assms by (intro split_join) (auto simp: proper_slash_free)
  then show ?thesis using assms by (simp add: clean_out_def foldl_proper_append)
qed

lemma not_abs_join:
  assumes "list_all proper es" and "es \<noteq> []"
  shows "\<not> is_abs (join_with ''/'' es)"
proof -
  obtain c cs es' where "es = (c # cs) # es'" and "c \<noteq> slash"
    using assms by (cases es; cases "hd es") (auto simp: proper_def)
  then show ?thesis by (cases es') (auto simp: is_abs_def)
qed

lemma plain_rel_join [simp]: "list_all proper es \<Longrightarrow> es \<noteq> [] \<Longrightarrow> plain_rel (join_with ''/'' es)"
  by (simp add: plain_rel_def clean_out_join_rel not_abs_join)

lemma covers_iff:
  assumes "plain_rel e" and "plain_rel rel"
  shows "covers e rel \<longleftrightarrow> prefix (clean_out e) (clean_out rel)"
  using assms prefix_join [of "clean_out e" "clean_out rel"]
  by (simp add: covers_def clean_plain) (simp add: plain_rel_def)

lemma covers_dot: "plain_rel e \<Longrightarrow> \<not> covers e ''.''"
proof -
  assume e: "plain_rel e"
  have "clean ''.'' = ''.''" by (simp add: clean_def clean_out_def)
  moreover have "clean e \<noteq> ''.''"
    using e clean_out_join_rel [of "clean_out e"] by (auto simp: clean_plain plain_rel_def clean_out_def)
  moreover have "\<not> prefix (clean e @ ''/'') ''.''"
    by (cases "clean e") auto
  ultimately show ?thesis by (simp add: covers_def)
qed

interpretation rel_paths: containment "\<lambda>e. plain_rel e \<and> clean e = e" clean_out "\<lambda>p r. covers r p"
  by unfold_locales (auto simp: covers_iff, metis clean_plain)

section \<open>The program's tests\<close>

lemma bindSafe_iff:
  assumes "canonical home" and "is_abs p"
  shows "bindSafe home p \<longleftrightarrow> \<not> prefix (clean_out p) (clean_out home)"
proof -
  obtain hs where h: "home = mk_abs hs" "list_all proper hs" using canonicalD assms(1) by metis
  obtain ps where p: "clean p = mk_abs ps" "list_all proper ps" "clean_out p = ps"
    using clean_abs clean_out_abs_proper assms(2) by metis
  show ?thesis
  proof (cases "ps = []")
    case True
    then show ?thesis using p by (simp add: bindSafe_def mk_abs_def)
  next
    case False
    have "\<not> bindSafe home p \<longleftrightarrow> mk_abs ps = mk_abs hs \<or> prefix (mk_abs ps @ ''/'') (mk_abs hs)"
      using p h False by (auto simp: bindSafe_def mk_abs_Nil_iff)
    also have "\<dots> \<longleftrightarrow> prefix ps hs"
      using prefix_join [OF p(2) h(2) False] by (auto simp: mk_abs_def)
    finally show ?thesis using p h by auto
  qed
qed

lemma drop_common_prefix: "drop_common hs (hs @ ls) = ([], ls)"
  by (induction hs) auto

lemma rel_path_under:
  assumes "list_all proper hs" and "list_all proper ls"
  shows "rel_path (mk_abs hs) (mk_abs (hs @ ls)) = Some (if ls = [] then ''.'' else join_with ''/'' ls)"
  using assms by (simp add: rel_path_def mk_abs_inject drop_common_prefix)

end
