(* ===== verification/Config.thy ===== *)
theory Config
  imports Path_Elements
begin

text \<open>
  The security lists of \<open>config.go\<close>, the per-user configuration and its parser
  (\<open>parseUserBinds\<close>, \<open>cgroups.go\<close>), and the helpers the bind loops share: \<open>exists\<close>,
  \<open>isDir\<close>, \<open>presentUnder\<close>, \<open>mentionedInConfig\<close> and the newline-separated channel that carries
  the Landlock allowlists (\<open>llJoin\<close>, \<open>splitEnv\<close>).

  What the process learns from the operating system is the record \<open>host\<close>: the result of
  \<open>os.Stat\<close> for each path (\<open>None\<close>: an error, \<open>Some d\<close>: it exists, \<open>d\<close> says whether it is a
  directory), environment variables, file contents, symlink resolution and glob matches.
\<close>

abbreviation nul :: char where
  "nul \<equiv> CHR 0x00"

section \<open>What the operating system answers\<close>

record host =
  stat :: "string \<Rightarrow> bool option"
  lookup_env :: "string \<Rightarrow> string option"
  read_file :: "string \<Rightarrow> string option"
  eval_symlinks :: "string \<Rightarrow> string option"
  glob :: "string \<Rightarrow> string list"

definition exists :: "host \<Rightarrow> string \<Rightarrow> bool" where
  "exists h p = (stat h p \<noteq> None)"

definition isDir :: "host \<Rightarrow> string \<Rightarrow> bool" where
  "isDir h p = (stat h p = Some True)"

lemma isDir_exists: "isDir h p \<Longrightarrow> exists h p"
  by (simp add: isDir_def exists_def)

text \<open>\<open>os.Getenv\<close>: an unset variable reads as the empty string.\<close>

definition getenv :: "host \<Rightarrow> string \<Rightarrow> string" where
  "getenv h k = (case lookup_env h k of Some v \<Rightarrow> v | None \<Rightarrow> [])"

section \<open>The lists of config.go\<close>

definition azkabanCfgDir :: string where "azkabanCfgDir = ''.config/azkaban''"

definition rwPaths :: "string list" where
  "rwPaths = [
     ''.cache'', ''.claude'', ''.claude.json'', ''.config'',
     ''.docker'', ''.dotnet'', ''.gradle'',
     ''.local/share'', ''.local/state'', ''.npm'', ''.yarn'',
     ''.asdf'', ''.bun'', ''.cargo'', ''.deno'', ''.gem'', ''.local/lib'', ''.m2'',
     ''.nuget'', ''.nvm'', ''.pyenv'', ''.rbenv'', ''.rustup'', ''.sdkman'', ''.volta'', ''go'']"

definition roPaths :: "string list" where
  "roPaths = [''.gitconfig'', ''.local/bin'']"

definition roFreeze :: "string list" where
  "roFreeze = [azkabanCfgDir, ''.config/containers'']"

definition maskPaths :: "string list" where
  "maskPaths = [''.config/containers/auth.json'', ''.config/doctl'', ''.config/gcloud'', ''.config/gh'',
     ''.config/git/credentials'', ''.config/hub'', ''.docker/config.json'', ''.local/share/keyrings'']"

definition displaySockets :: "string list" where
  "displaySockets = [''at-spi'', ''dconf'', ''pipewire-*'', ''pulse'', ''wayland-*'']"

definition containerSockets :: "string \<Rightarrow> string list" where
  "containerSockets kind =
     (if kind = ''docker'' then [''$XDG/docker.sock'', ''/var/run/docker.sock'']
      else if kind = ''podman'' then [''$XDG/podman/podman.sock'', ''/run/podman/podman.sock'']
      else [])"

definition envKeep :: "string list" where
  "envKeep = [''COLORTERM'', ''HOME'', ''LANG'', ''LC_ALL'', ''LC_CTYPE'', ''LOGNAME'',
     ''NO_COLOR'', ''PATH'', ''SHELL'', ''TERM'', ''TZ'', ''USER'']"

definition procMask :: "string list" where "procMask = [''kallsyms'', ''modules'']"

definition sysMask :: "string list" where
  "sysMask = [''firmware'', ''fs/fuse'', ''kernel/debug'', ''kernel/security'']"

definition selfInJail :: string where "selfInJail = ''/tmp/.azkaban-self''"

definition landlockExecFlag :: string where "landlockExecFlag = ''--landlock-exec''"

definition llEnvPrefix :: string where "llEnvPrefix = ''AZKABAN_LL_''"
definition llEnvRO :: string where "llEnvRO = llEnvPrefix @ ''RO''"
definition llEnvROFiles :: string where "llEnvROFiles = llEnvPrefix @ ''ROFILES''"
definition llEnvRW :: string where "llEnvRW = llEnvPrefix @ ''RW''"
definition llEnvRWFiles :: string where "llEnvRWFiles = llEnvPrefix @ ''RWFILES''"
definition llEnvPorts :: string where "llEnvPorts = llEnvPrefix @ ''PORTS''"

text \<open>\<open>main\<close>: which of the four roles this invocation is, and its arguments.\<close>

datatype role =
    LandlockStage "string list"
  | WhyCommand "string list"
  | RollbackCommand "string list"
  | Outer "string list"

definition main_role :: "string list \<Rightarrow> role" where
  "main_role args =
     (if length args > 1 \<and> args ! 1 = landlockExecFlag then LandlockStage (drop 2 args)
      else if length args > 1 \<and> args ! 1 = ''why'' then WhyCommand (drop 2 args)
      else if length args > 1 \<and> args ! 1 = ''rollback'' then RollbackCommand (drop 2 args)
      else Outer (drop 1 args))"

section \<open>The per-user configuration\<close>

record userConf =
  uc_ro :: "string list"
  uc_rw :: "string list"
  uc_env :: "string list"
  uc_mask :: "string list"
  uc_persist :: "string list"
  uc_net :: "string list"
  uc_credential :: "string list"
  uc_unixSocket :: "string list"
  uc_unixSocketDir :: "string list"
  uc_auditOff :: bool

definition empty_conf :: userConf where
  "empty_conf = \<lparr>uc_ro = [], uc_rw = [], uc_env = [], uc_mask = [], uc_persist = [], uc_net = [],
     uc_credential = [], uc_unixSocket = [], uc_unixSocketDir = [], uc_auditOff = False\<rparr>"

text \<open>The keyword and value of one line, or \<open>None\<close> for a line that is skipped.\<close>

definition parse_line :: "string \<Rightarrow> (string \<times> string) option" where
  "parse_line line =
     (let line = trim_space line in
      if line = [] \<or> has_prefix line ''#'' then None
      else (case cut_at line (CHR '' '') of
              (kind, val, ok) \<Rightarrow> if ok then Some (kind, trim_space val) else None))"

definition add_directive :: "userConf \<Rightarrow> string \<times> string \<Rightarrow> userConf" where
  "add_directive c kv = (case kv of (kind, val) \<Rightarrow>
     if kind = ''ro'' then c\<lparr>uc_ro := uc_ro c @ [val]\<rparr>
     else if kind = ''rw'' then c\<lparr>uc_rw := uc_rw c @ [val]\<rparr>
     else if kind = ''env'' then c\<lparr>uc_env := uc_env c @ [val]\<rparr>
     else if kind = ''mask'' then c\<lparr>uc_mask := uc_mask c @ [val]\<rparr>
     else if kind = ''persist'' then c\<lparr>uc_persist := uc_persist c @ [val]\<rparr>
     else if kind = ''net'' then c\<lparr>uc_net := uc_net c @ [val]\<rparr>
     else if kind = ''credential'' then c\<lparr>uc_credential := uc_credential c @ [val]\<rparr>
     else if kind = ''unix-socket'' then c\<lparr>uc_unixSocket := uc_unixSocket c @ [val]\<rparr>
     else if kind = ''unix-socket-dir'' then c\<lparr>uc_unixSocketDir := uc_unixSocketDir c @ [val]\<rparr>
     else if kind = ''audit'' then c\<lparr>uc_auditOff := (val = ''off'')\<rparr>
     else c)"

definition parse_step :: "userConf \<Rightarrow> string \<Rightarrow> userConf" where
  "parse_step c line = (case parse_line line of None \<Rightarrow> c | Some kv \<Rightarrow> add_directive c kv)"

definition parseUserBinds :: "string \<Rightarrow> userConf" where
  "parseUserBinds data = foldl parse_step empty_conf (split_on newline data)"

definition loadUserBinds :: "host \<Rightarrow> string \<Rightarrow> userConf" where
  "loadUserBinds h home =
     (case read_file h (join_path [home, azkabanCfgDir, ''config'']) of
        None \<Rightarrow> empty_conf | Some data \<Rightarrow> parseUserBinds data)"

text \<open>What the parser computes: the values of each keyword, in file order.\<close>

definition directives :: "string \<Rightarrow> (string \<times> string) list" where
  "directives data = List.map_filter parse_line (split_on newline data)"

definition values_of :: "string \<Rightarrow> (string \<times> string) list \<Rightarrow> string list" where
  "values_of kind kvs = map snd (filter (\<lambda>kv. fst kv = kind) kvs)"

lemma values_of_simps [simp]:
  "values_of k [] = []"
  "values_of k (kv # kvs) = (if fst kv = k then snd kv # values_of k kvs else values_of k kvs)"
  by (simp_all add: values_of_def)

lemma foldl_parse_step:
  "foldl parse_step c ls = foldl add_directive c (List.map_filter parse_line ls)"
  by (induction ls arbitrary: c) (auto simp: parse_step_def map_filter_simps split: option.splits)

lemma parseUserBinds_directives: "parseUserBinds data = foldl add_directive empty_conf (directives data)"
  by (simp add: parseUserBinds_def directives_def foldl_parse_step)

lemma add_directive_fields [simp]:
  "uc_ro (add_directive c (k, v)) = uc_ro c @ (if k = ''ro'' then [v] else [])"
  "uc_rw (add_directive c (k, v)) = uc_rw c @ (if k = ''rw'' then [v] else [])"
  "uc_env (add_directive c (k, v)) = uc_env c @ (if k = ''env'' then [v] else [])"
  "uc_mask (add_directive c (k, v)) = uc_mask c @ (if k = ''mask'' then [v] else [])"
  "uc_persist (add_directive c (k, v)) = uc_persist c @ (if k = ''persist'' then [v] else [])"
  "uc_net (add_directive c (k, v)) = uc_net c @ (if k = ''net'' then [v] else [])"
  "uc_credential (add_directive c (k, v)) = uc_credential c @ (if k = ''credential'' then [v] else [])"
  "uc_unixSocket (add_directive c (k, v)) = uc_unixSocket c @ (if k = ''unix-socket'' then [v] else [])"
  "uc_unixSocketDir (add_directive c (k, v)) =
     uc_unixSocketDir c @ (if k = ''unix-socket-dir'' then [v] else [])"
  "uc_auditOff (add_directive c (k, v)) = (if k = ''audit'' then v = ''off'' else uc_auditOff c)"
  by (auto simp: add_directive_def)

lemma foldl_directive_lists:
  assumes "\<And>c k v. f (add_directive c (k, v)) = f c @ (if k = kind then [v] else [])"
  shows "f (foldl add_directive c kvs) = f c @ values_of kind kvs"
  by (induction kvs arbitrary: c) (auto simp: assms)

lemma foldl_directive_audit:
  "uc_auditOff (foldl add_directive c kvs) =
     (case values_of ''audit'' kvs of [] \<Rightarrow> uc_auditOff c | vs \<Rightarrow> last vs = ''off'')"
proof (induction kvs arbitrary: c)
  case (Cons kv kvs)
  then show ?case by (cases kv) (auto split: list.splits)
qed simp

section \<open>Lists of paths\<close>

definition mentionedInConfig ::
  "string \<Rightarrow> string \<Rightarrow> string \<Rightarrow> string list \<Rightarrow> string list \<Rightarrow> string list \<Rightarrow> bool" where
  "mentionedInConfig rel p home userRO userRW userPersist =
     list_ex (\<lambda>e. e = rel \<or> resolve home e = p) (userRO @ userRW @ userPersist)"

text \<open>\<open>presentUnder\<close>: the entries that exist on the host, each once, in order.\<close>

fun present_from :: "host \<Rightarrow> string \<Rightarrow> string list \<Rightarrow> string list \<Rightarrow> string list" where
  "present_from h home seen [] = []"
| "present_from h home seen (rel # entries) =
     (let p = resolve home rel in
      if \<not> exists h p \<or> p \<in> set seen then present_from h home seen entries
      else p # present_from h home (p # seen) entries)"

definition presentUnder :: "host \<Rightarrow> string \<Rightarrow> string list \<Rightarrow> string list" where
  "presentUnder h home entries = present_from h home [] entries"

lemma set_present_from:
  "set (present_from h home seen es) = {p \<in> resolve home ` set es. exists h p \<and> p \<notin> set seen}"
  by (induction es arbitrary: seen) (auto simp: Let_def)

lemma distinct_present_from: "distinct (present_from h home seen es)"
  by (induction es arbitrary: seen) (auto simp: Let_def set_present_from)

section \<open>The Landlock channel\<close>

text \<open>
  \<open>llJoin\<close> serialises an allowlist; a path with a newline or NUL in it is a fatal error
  (\<open>Inl\<close> the offending path).  \<open>splitEnv\<close> reads the variable back in the inner stage.
\<close>

definition llJoin :: "string list \<Rightarrow> string + string" where
  "llJoin paths = (case find (\<lambda>p. contains_any p [newline, nul]) paths of
     Some p \<Rightarrow> Inl p
   | None \<Rightarrow> Inr (join_with [newline] paths))"

definition splitEnv :: "string \<Rightarrow> string list" where
  "splitEnv v = fields_func (\<lambda>c. c = newline) v"

lemma llJoin_Inr:
  "llJoin paths = Inr s \<longleftrightarrow>
     (\<forall>p \<in> set paths. newline \<notin> set p \<and> nul \<notin> set p) \<and> s = join_with [newline] paths"
  by (auto simp: llJoin_def find_None_iff contains_any_def list_ex_iff split: option.splits
      dest!: find_Some_iff [THEN iffD1] intro: nth_mem)

lemma llJoin_Inl: "llJoin paths = Inl p \<Longrightarrow> p \<in> set paths \<and> (newline \<in> set p \<or> nul \<in> set p)"
  by (auto simp: llJoin_def contains_any_def list_ex_iff split: option.splits
      dest!: find_Some_iff [THEN iffD1])

lemma splitEnv_llJoin:
  assumes "llJoin paths = Inr s"
  shows "splitEnv s = filter (\<lambda>p. p \<noteq> []) paths"
proof (cases "paths = []")
  case False
  then show ?thesis using assms split_join [of paths newline]
    by (simp add: llJoin_Inr splitEnv_def fields_func_def)
qed (use assms in \<open>simp add: llJoin_Inr splitEnv_def fields_func_def\<close>)

end
