(* ===== verification/Bind_Plan.thy ===== *)
theory Bind_Plan
  imports Config
begin

text \<open>
  The bwrap invocation under construction (\<open>bwrapArgs\<close>, \<open>flags.go\<close>) and what its mounts mean.

  \<open>outer\<close> only ever appends options; \<open>bwrap_op\<close> has one constructor per option it emits
  and \<open>render\<close> is the argument list of each.  The plan also carries the four Landlock allowlists
  that \<open>outer\<close> accumulates next to the mounts, the temp files it creates and the degradations it
  records.  bwrap applies its options in sequence, so that the last mount whose destination holds
  a path decides what the jail sees there: \<open>last_cover\<close>.
\<close>

section \<open>Options\<close>

datatype bwrap_op =
    Clearenv
  | Setenv string string
  | RoBind string string
  | RwBind string string
  | DevBind string string
  | SymlinkAt string string
  | MountDev string
  | MountProc string
  | Tmpfs string
  | TmpOverlay string
  | Chdir string
  | Hostname string
  | Switch string

fun render :: "bwrap_op \<Rightarrow> string list" where
  "render Clearenv = [''--clearenv'']"
| "render (Setenv k v) = [''--setenv'', k, v]"
| "render (RoBind s d) = [''--ro-bind'', s, d]"
| "render (RwBind s d) = [''--bind'', s, d]"
| "render (DevBind s d) = [''--dev-bind'', s, d]"
| "render (SymlinkAt t d) = [''--symlink'', t, d]"
| "render (MountDev d) = [''--dev'', d]"
| "render (MountProc d) = [''--proc'', d]"
| "render (Tmpfs d) = [''--tmpfs'', d]"
| "render (TmpOverlay p) = [''--overlay-src'', p, ''--tmp-overlay'', p]"
| "render (Chdir d) = [''--chdir'', d]"
| "render (Hostname n) = [''--hostname'', n]"
| "render (Switch s) = [s]"

definition bwrap_args :: "bwrap_op list \<Rightarrow> string list" where
  "bwrap_args xs = concat (map render xs)"

section \<open>The plan\<close>

record plan =
  ops :: "bwrap_op list"
  llRO :: "string list"
  llROFiles :: "string list"
  llRW :: "string list"
  llRWFiles :: "string list"
  maskFile :: string
  temps :: "(string \<times> string) list"
  degraded :: "string list"

text \<open>
  Everything \<open>outer\<close> refuses with \<open>fatal(code, ...)\<close> while it builds the plan.
\<close>

datatype refusal =
    NoHome
  | NoCwd
  | CwdIsRoot
  | CwdContainsHome string
  | TempFailed string
  | NoSocket string
  | ProxyFailed
  | RefusedRw string
  | CopyFailed string
  | RefusedPersist string
  | CannotSecure string
  | NoAgent
  | NoAgentSocket string
  | AgentProxyFailed
  | RefusedUnixSocket string
  | NoUnixSocket string
  | RefusedUnixSocketDir string
  | NotADirectory string
  | CommandNotFound string
  | SnapshotFailed
  | BadCredential string
  | BrokerFailed string
  | NetNeedsLandlock
  | NetContradiction
  | EgressFailed
  | CannotLocateSelf
  | ChannelInjection string

type_synonym fatal = "nat \<times> refusal"

text \<open>
  Temp files.  \<open>mktemp pre n\<close> is the name \<open>os.CreateTemp("/tmp", pre)\<close> gives the
  \<open>n\<close>-th file of the run (\<open>None\<close>: it failed, which is fatal).
\<close>

type_synonym mktemp = "string \<Rightarrow> nat \<Rightarrow> string option"

definition add :: "bwrap_op \<Rightarrow> plan \<Rightarrow> plan" where
  "add op pl = pl\<lparr>ops := ops pl @ [op]\<rparr>"

definition degrade :: "string \<Rightarrow> plan \<Rightarrow> plan" where
  "degrade what pl = pl\<lparr>degraded := degraded pl @ [what]\<rparr>"

definition tempWith :: "mktemp \<Rightarrow> string \<Rightarrow> string \<Rightarrow> plan \<Rightarrow> fatal + string \<times> plan" where
  "tempWith mk pre content pl =
     (case mk pre (length (temps pl)) of
        None \<Rightarrow> Inl (1, TempFailed pre)
      | Some f \<Rightarrow> Inr (f, pl\<lparr>temps := temps pl @ [(f, content)]\<rparr>))"

definition maskFileOnce :: "mktemp \<Rightarrow> plan \<Rightarrow> fatal + string \<times> plan" where
  "maskFileOnce mk pl =
     (if maskFile pl = [] then
        bindR (tempWith mk ''azkaban-mask-'' [] pl) (\<lambda>(f, pl). Inr (f, pl\<lparr>maskFile := f\<rparr>))
      else Inr (maskFile pl, pl))"

definition tempCopy :: "host \<Rightarrow> mktemp \<Rightarrow> string \<Rightarrow> plan \<Rightarrow> fatal + string \<times> plan" where
  "tempCopy h mk src pl =
     (case read_file h src of
        None \<Rightarrow> Inl (1, CopyFailed src)
      | Some data \<Rightarrow> tempWith mk ''azkaban-copy-'' data pl)"

definition grantRO :: "host \<Rightarrow> string \<Rightarrow> plan \<Rightarrow> plan" where
  "grantRO h p pl = (if isDir h p then pl\<lparr>llRO := llRO pl @ [p]\<rparr> else pl\<lparr>llROFiles := llROFiles pl @ [p]\<rparr>)"

definition grantRW :: "host \<Rightarrow> string \<Rightarrow> plan \<Rightarrow> plan" where
  "grantRW h p pl = (if isDir h p then pl\<lparr>llRW := llRW pl @ [p]\<rparr> else pl\<lparr>llRWFiles := llRWFiles pl @ [p]\<rparr>)"

section \<open>What the mounts mean\<close>

text \<open>
  The view a mount gives at its destination: the host's own inode, read-only or writable
  (\<open>ReadOnly\<close>, \<open>RealWrite\<close>); a scratch copy or overlay of it whose writes are discarded
  (\<open>ScratchWrite\<close>); another file put in its place, read-only (\<open>Blank\<close>); an empty memory file system,
  which the jail can write but which holds nothing of the host and dies with the run (\<open>Memory\<close>);
  bwrap's own \<open>/dev\<close> and \<open>/proc\<close> (\<open>DevTree\<close>, \<open>ProcTree\<close>), both mounted writable.
\<close>

datatype view = ReadOnly | RealWrite | ScratchWrite | Blank | Memory | DevTree | ProcTree

fun mount_view :: "bwrap_op \<Rightarrow> (string \<times> view) option" where
  "mount_view (RoBind s d) = Some (d, if s = d then ReadOnly else Blank)"
| "mount_view (RwBind s d) = Some (d, if s = d then RealWrite else ScratchWrite)"
| "mount_view (DevBind s d) = Some (d, RealWrite)"
| "mount_view (Tmpfs d) = Some (d, Memory)"
| "mount_view (TmpOverlay p) = Some (p, ScratchWrite)"
| "mount_view (MountDev d) = Some (d, DevTree)"
| "mount_view (MountProc d) = Some (d, ProcTree)"
| "mount_view _ = None"

definition views :: "bwrap_op list \<Rightarrow> (string \<times> view) list" where
  "views xs = List.map_filter mount_view xs"

fun last_such :: "('a \<Rightarrow> bool) \<Rightarrow> 'a list \<Rightarrow> 'a option" where
  "last_such P [] = None"
| "last_such P (x # xs) =
     (case last_such P xs of Some y \<Rightarrow> Some y | None \<Rightarrow> if P x then Some x else None)"

definition last_cover :: "(string \<times> view) list \<Rightarrow> string \<Rightarrow> (string \<times> view) option" where
  "last_cover vs p = last_such (\<lambda>v. under p (fst v)) vs"

definition readable :: "view \<Rightarrow> bool" where
  "readable v \<longleftrightarrow> v \<in> {ReadOnly, RealWrite, ScratchWrite}"

text \<open>
  Whether the mount lets the jail write, and whether such a write can touch anything but a fresh
  memory file system: a host file, its scratch layer, a device or a kernel interface.
\<close>

definition writable :: "view \<Rightarrow> bool" where
  "writable v \<longleftrightarrow> v \<notin> {ReadOnly, Blank}"

definition reaches_host :: "view \<Rightarrow> bool" where
  "reaches_host v \<longleftrightarrow> v \<notin> {ReadOnly, Blank, Memory}"

lemma last_such_append:
  "last_such P (xs @ ys) = (case last_such P ys of Some y \<Rightarrow> Some y | None \<Rightarrow> last_such P xs)"
  by (induction xs) (auto split: option.splits)

lemma last_such_None: "last_such P xs = None \<longleftrightarrow> (\<forall>x \<in> set xs. \<not> P x)"
  by (induction xs) (auto split: option.splits)

lemma last_such_Some: "last_such P xs = Some y \<Longrightarrow> y \<in> set xs \<and> P y"
  by (induction xs) (auto split: option.splits if_splits)

lemma last_such_decomp:
  "last_such P xs = Some y \<Longrightarrow> \<exists>us vs. xs = us @ y # vs \<and> P y \<and> (\<forall>v \<in> set vs. \<not> P v)"
proof (induction xs)
  case (Cons x xs)
  show ?case
  proof (cases "last_such P xs")
    case None
    with Cons.prems have "x = y" and "P y" by (auto split: if_splits)
    with None show ?thesis by (intro exI [of _ "[]"] exI [of _ xs]) (auto simp: last_such_None)
  next
    case (Some z)
    with Cons obtain us vs where "xs = us @ y # vs" "P y" "\<forall>v \<in> set vs. \<not> P v" by auto
    then show ?thesis by (intro exI [of _ "x # us"] exI [of _ vs]) simp
  qed
qed simp

lemma last_such_map: "last_such P (map f xs) = map_option f (last_such (\<lambda>x. P (f x)) xs)"
  by (induction xs) (auto split: option.splits)

lemma last_such_cong: "(\<And>x. x \<in> set xs \<Longrightarrow> P x = Q x) \<Longrightarrow> last_such P xs = last_such Q xs"
  by (induction xs) auto

lemma last_such_filter: "last_such P (filter Q xs) = last_such (\<lambda>x. Q x \<and> P x) xs"
  by (induction xs) (auto split: option.splits)

text \<open>A loop that overwrites its result at every hit computes \<open>last_such\<close>.\<close>

lemma foldl_overwrite:
  "foldl (\<lambda>acc x. if P x then Some (f x) else acc) acc xs =
     (case last_such P xs of Some y \<Rightarrow> Some (f y) | None \<Rightarrow> acc)"
  by (induction xs arbitrary: acc) (auto split: option.splits)

lemma views_append [simp]: "views (xs @ ys) = views xs @ views ys"
  by (simp add: views_def List.map_filter_def)

lemma views_simps [simp]:
  "views [] = []"
  "views (x # xs) = (case mount_view x of Some v \<Rightarrow> v # views xs | None \<Rightarrow> views xs)"
  by (simp_all add: views_def map_filter_simps split: option.splits)

lemma last_cover_append:
  "last_cover (us @ vs) p = (case last_cover vs p of Some v \<Rightarrow> Some v | None \<Rightarrow> last_cover us p)"
  by (simp add: last_cover_def last_such_append split: option.splits)

lemma add_simps [simp, plan_simps]:
  "ops (add op pl) = ops pl @ [op]"
  "llRO (add op pl) = llRO pl" "llROFiles (add op pl) = llROFiles pl"
  "llRW (add op pl) = llRW pl" "llRWFiles (add op pl) = llRWFiles pl"
  "maskFile (add op pl) = maskFile pl" "temps (add op pl) = temps pl"
  "degraded (add op pl) = degraded pl"
  by (simp_all add: add_def)

lemma degrade_simps [simp, plan_simps]:
  "ops (degrade w pl) = ops pl"
  "llRO (degrade w pl) = llRO pl" "llROFiles (degrade w pl) = llROFiles pl"
  "llRW (degrade w pl) = llRW pl" "llRWFiles (degrade w pl) = llRWFiles pl"
  "maskFile (degrade w pl) = maskFile pl" "temps (degrade w pl) = temps pl"
  by (simp_all add: degrade_def)

lemma grantRO_simps [simp, plan_simps]:
  "ops (grantRO h p pl) = ops pl" "llRW (grantRO h p pl) = llRW pl"
  "llRWFiles (grantRO h p pl) = llRWFiles pl" "maskFile (grantRO h p pl) = maskFile pl"
  "temps (grantRO h p pl) = temps pl"
  by (simp_all add: grantRO_def)

lemma grantRW_simps [simp, plan_simps]:
  "ops (grantRW h p pl) = ops pl" "llRO (grantRW h p pl) = llRO pl"
  "llROFiles (grantRW h p pl) = llROFiles pl" "maskFile (grantRW h p pl) = maskFile pl"
  "temps (grantRW h p pl) = temps pl"
  by (simp_all add: grantRW_def)

text \<open>What a successful \<open>tempWith\<close> or \<open>maskFileOnce\<close> leaves of the plan.\<close>

lemma tempWith_Inr:
  "tempWith mk pre content pl = Inr (f, pl') \<longleftrightarrow>
     mk pre (length (temps pl)) = Some f \<and> pl' = pl\<lparr>temps := temps pl @ [(f, content)]\<rparr>"
  by (auto simp: tempWith_def split: option.splits)

lemma tempCopy_Inr:
  "tempCopy h mk src pl = Inr (f, pl') \<longleftrightarrow>
     (\<exists>data. read_file h src = Some data \<and> mk ''azkaban-copy-'' (length (temps pl)) = Some f \<and>
       pl' = pl\<lparr>temps := temps pl @ [(f, data)]\<rparr>)"
  by (auto simp: tempCopy_def tempWith_Inr split: option.splits)

lemma maskFileOnce_Inr:
  assumes "maskFileOnce mk pl = Inr (f, pl')"
  shows "ops pl' = ops pl" and "maskFile pl' = f"
    and "f = maskFile pl \<or> (\<exists>n. mk ''azkaban-mask-'' n = Some f)"
    and "llRW pl' = llRW pl" and "llRWFiles pl' = llRWFiles pl"
  using assms by (auto simp: maskFileOnce_def tempWith_Inr split: if_splits prod.splits)

text \<open>Appending loops: if every step appends \<open>g x\<close> to what \<open>v\<close> shows, the loop appends them all.\<close>

lemma foldR_appends:
  assumes "foldR f xs s = Inr t"
    and "P s" and "\<And>x s t. x \<in> set xs \<Longrightarrow> P s \<Longrightarrow> f x s = Inr t \<Longrightarrow> P t \<and> v t = v s @ g x"
  shows "v t = v s @ concat (map g xs) \<and> P t"
  using assms
proof (induction xs arbitrary: s)
  case (Cons x xs)
  from Cons.prems(1) obtain u where u: "f x s = Inr u" "foldR f xs u = Inr t" by auto
  then have "P u" and "v u = v s @ g x" using Cons.prems(2,3) by auto
  then show ?case using Cons.IH [OF u(2)] Cons.prems(3) by auto
qed simp

end
