(* ===== verification/Home_Binds.thy ===== *)
theory Home_Binds
  imports Bind_Plan
begin

text \<open>
  The part of \<open>outer\<close> that decides \<open>$HOME\<close> (\<open>main.go\<close>, from the tmpfs over it to the credential
  masks): the empty tmpfs, the read-only allowlist, the writable allowlist (each entry a
  throwaway overlay unless \<open>--persist\<close>), the per-path persistence, the freeze and the masks, in
  that order.  \<open>home_views\<close> is the specification: the list of views the section mounts, and
  \<open>home_binds_views\<close> shows that the code mounts exactly that list.
\<close>

section \<open>The loops\<close>

definition ro_step :: "host \<Rightarrow> string \<Rightarrow> string \<Rightarrow> plan \<Rightarrow> fatal + plan" where
  "ro_step h home rel pl =
     (let p = resolve home rel in
      if \<not> exists h p then Inr pl
      else Inr (grantRO h p (add (RoBind p p) pl)))"

definition bwrapHas :: "string \<Rightarrow> string \<Rightarrow> bool" where
  "bwrapHas help flag = contains_sub help flag"

text \<open>Without \<open>--tmp-overlay\<close> the run falls back to real writes, and says so.\<close>

definition settle_overlay :: "string \<Rightarrow> bool \<Rightarrow> plan \<Rightarrow> bool \<times> plan" where
  "settle_overlay help overlay pl =
     (if overlay \<and> \<not> bwrapHas help ''--tmp-overlay'' then (False, degrade ''no-tmp-overlay'' pl)
      else (overlay, pl))"

definition rw_step :: "host \<Rightarrow> mktemp \<Rightarrow> string \<Rightarrow> bool \<Rightarrow> string \<Rightarrow> plan \<Rightarrow> fatal + plan" where
  "rw_step h mk home overlay rel pl =
     (let p = resolve home rel in
      if \<not> exists h p then Inr pl
      else if \<not> bindSafe home p then Inl (2, RefusedRw p)
      else if isDir h p \<and> overlay then Inr (grantRW h p (add (TmpOverlay p) pl))
      else if isDir h p then Inr (grantRW h p (add (RwBind p p) pl))
      else if overlay then
        bindR (tempCopy h mk p pl) (\<lambda>(cp, pl). Inr (grantRW h p (add (RwBind cp p) pl)))
      else Inr (grantRW h p (add (RwBind p p) pl)))"

definition persist_step :: "host \<Rightarrow> string \<Rightarrow> string \<Rightarrow> plan \<Rightarrow> fatal + plan" where
  "persist_step h home rel pl =
     (let p = resolve home rel in
      if \<not> bindSafe home p then Inl (2, RefusedPersist p)
      else if \<not> exists h p then Inr (degrade ''persist-ignored'' pl)
      else Inr (grantRW h p (add (RwBind p p) pl)))"

text \<open>
  \<open>os.MkdirAll\<close> of the config directory: it and its ancestors are directories afterwards.
\<close>

definition mkdir_all :: "host \<Rightarrow> string \<Rightarrow> host" where
  "mkdir_all h p = h\<lparr>stat := (\<lambda>q. if q \<noteq> [] \<and> under p q then Some True else stat h q)\<rparr>"

definition freeze_step :: "host \<Rightarrow> string \<Rightarrow> string \<Rightarrow> plan \<Rightarrow> fatal + plan" where
  "freeze_step h home rel pl =
     (let p = resolve home rel in
      if \<not> exists h p then Inr pl
      else Inr ((add (RoBind p p) pl)\<lparr>llRO := llRO pl @ [p]\<rparr>))"

definition mask_step :: "host \<Rightarrow> mktemp \<Rightarrow> string \<Rightarrow> userConf \<Rightarrow> string \<Rightarrow> plan \<Rightarrow> fatal + plan" where
  "mask_step h mk home uc rel pl =
     (let p = resolve home rel in
      if \<not> exists h p \<or> mentionedInConfig rel p home (uc_ro uc) (uc_rw uc) (uc_persist uc) then Inr pl
      else if isDir h p then Inr (add (Tmpfs p) pl)
      else bindR (maskFileOnce mk pl) (\<lambda>(f, pl). Inr (add (RoBind f p) pl)))"

definition home_binds ::
  "host \<Rightarrow> mktemp \<Rightarrow> string \<Rightarrow> bool \<Rightarrow> string \<Rightarrow> userConf \<Rightarrow> bool \<Rightarrow> plan \<Rightarrow> fatal + host \<times> bool \<times> plan" where
  "home_binds h mk help mkdir_ok home uc overlay pl =
     bindR (foldR (ro_step h home) (roPaths @ uc_ro uc) (add (Tmpfs home) pl)) (\<lambda>pl.
       case settle_overlay help overlay pl of (overlay, pl) \<Rightarrow>
     bindR (foldR (rw_step h mk home overlay) (rwPaths @ uc_rw uc) pl) (\<lambda>pl.
     bindR (foldR (persist_step h home) (uc_persist uc) pl) (\<lambda>pl.
       let cfgDir = join_path [home, azkabanCfgDir] in
       if \<not> mkdir_ok then Inl (1, CannotSecure cfgDir)
       else let h = mkdir_all h cfgDir in
     bindR (foldR (freeze_step h home) roFreeze pl) (\<lambda>pl.
     bindR (foldR (mask_step h mk home uc) (maskPaths @ uc_mask uc) pl) (\<lambda>pl.
       Inr (h, overlay, pl))))))"

section \<open>Specification: the views of the section\<close>

text \<open>A layer is a list entry with the list it came from.\<close>

datatype layer_kind = Lro | Lrw | Lpersist | Lfreeze | Lmask

fun layer_view :: "host \<Rightarrow> string \<Rightarrow> bool \<Rightarrow> layer_kind \<Rightarrow> string \<Rightarrow> view" where
  "layer_view h home overlay Lro e = ReadOnly"
| "layer_view h home overlay Lrw e = (if overlay then ScratchWrite else RealWrite)"
| "layer_view h home overlay Lpersist e = RealWrite"
| "layer_view h home overlay Lfreeze e = ReadOnly"
| "layer_view h home overlay Lmask e = (if isDir h (resolve home e) then Memory else Blank)"

definition home_layers :: "userConf \<Rightarrow> (layer_kind \<times> string) list" where
  "home_layers uc =
     map (Pair Lro) (roPaths @ uc_ro uc) @ map (Pair Lrw) (rwPaths @ uc_rw uc) @
     map (Pair Lpersist) (uc_persist uc) @ map (Pair Lfreeze) roFreeze @
     map (Pair Lmask) (maskPaths @ uc_mask uc)"

text \<open>Whether a layer is mounted: its source exists, and a mask is not opted out of.\<close>

fun live :: "host \<Rightarrow> string \<Rightarrow> userConf \<Rightarrow> layer_kind \<times> string \<Rightarrow> bool" where
  "live h home uc (k, e) = (exists h (resolve home e) \<and>
     (k = Lmask \<longrightarrow> \<not> mentionedInConfig e (resolve home e) home (uc_ro uc) (uc_rw uc) (uc_persist uc)))"

definition home_views :: "host \<Rightarrow> string \<Rightarrow> userConf \<Rightarrow> bool \<Rightarrow> (string \<times> view) list" where
  "home_views h home uc overlay =
     (home, Memory) # map (\<lambda>(k, e). (resolve home e, layer_view h home overlay k e))
       (filter (live h home uc) (home_layers uc))"

section \<open>The code mounts those views\<close>

text \<open>Documented behaviour of \<open>os.CreateTemp\<close>: it creates a new file.\<close>

definition fresh_temps :: "mktemp \<Rightarrow> host \<Rightarrow> bool" where
  "fresh_temps mk h \<longleftrightarrow> (\<forall>pre n f. mk pre n = Some f \<longrightarrow> \<not> exists h f)"

definition mask_ok :: "host \<Rightarrow> plan \<Rightarrow> bool" where
  "mask_ok h pl \<longleftrightarrow> maskFile pl = [] \<or> \<not> exists h (maskFile pl)"

definition layer_views :: "host \<Rightarrow> string \<Rightarrow> userConf \<Rightarrow> bool \<Rightarrow> layer_kind \<Rightarrow> string \<Rightarrow> (string \<times> view) list" where
  "layer_views h home uc overlay k e =
     (if live h home uc (k, e) then [(resolve home e, layer_view h home overlay k e)] else [])"

lemma ro_step_views:
  "ro_step h home e s = Inr t \<Longrightarrow> maskFile t = maskFile s \<and>
     views (ops t) = views (ops s) @ layer_views h home uc ov Lro e"
  by (auto simp: ro_step_def layer_views_def Let_def split: if_splits)

lemma rw_step_views:
  "rw_step h mk home ov e s = Inr t \<Longrightarrow> fresh_temps mk h \<Longrightarrow> maskFile t = maskFile s \<and>
     views (ops t) = views (ops s) @ layer_views h home uc ov Lrw e"
  by (auto simp: rw_step_def layer_views_def Let_def fresh_temps_def tempCopy_Inr split: if_splits)

lemma persist_step_views:
  "persist_step h home e s = Inr t \<Longrightarrow> maskFile t = maskFile s \<and>
     views (ops t) = views (ops s) @ layer_views h home uc ov Lpersist e"
  by (auto simp: persist_step_def layer_views_def Let_def split: if_splits)

lemma freeze_step_views:
  "freeze_step h home e s = Inr t \<Longrightarrow> maskFile t = maskFile s \<and>
     views (ops t) = views (ops s) @ layer_views h home uc ov Lfreeze e"
  by (auto simp: freeze_step_def layer_views_def Let_def split: if_splits)

lemma mask_step_views:
  assumes "mask_step h mk home uc e s = Inr t" and "fresh_temps mk h" and "mask_ok h s"
    and "exists h [] = False"
  shows "mask_ok h t \<and> views (ops t) = views (ops s) @ layer_views h home uc ov Lmask e"
  using assms
  by (auto simp: mask_step_def layer_views_def Let_def mask_ok_def fresh_temps_def
      maskFileOnce_def tempWith_Inr split: if_splits prod.splits)

lemma concat_layer_views:
  "concat (map (layer_views h home uc ov k) es) =
     map (\<lambda>(k, e). (resolve home e, layer_view h home ov k e)) (filter (live h home uc) (map (Pair k) es))"
  by (induction es) (auto simp: layer_views_def)

lemma settle_overlay_ops: "settle_overlay help ov s = (ov', t) \<Longrightarrow>
    ops t = ops s \<and> maskFile t = maskFile s \<and> (ov' \<longrightarrow> ov)"
  by (auto simp: settle_overlay_def split: if_splits)

text \<open>The plans between the loops of a successful run.\<close>

lemma home_binds_stages:
  assumes "home_binds h mk help ok home uc ov0 pl = Inr (h', ov, pl')"
  obtains p1 p2 p3 p4 p5 where
    "foldR (ro_step h home) (roPaths @ uc_ro uc) (add (Tmpfs home) pl) = Inr p1" and
    "settle_overlay help ov0 p1 = (ov, p2)" and
    "foldR (rw_step h mk home ov) (rwPaths @ uc_rw uc) p2 = Inr p3" and
    "foldR (persist_step h home) (uc_persist uc) p3 = Inr p4" and
    "foldR (freeze_step h' home) roFreeze p4 = Inr p5" and
    "foldR (mask_step h' mk home uc) (maskPaths @ uc_mask uc) p5 = Inr pl'" and
    "h' = mkdir_all h (join_path [home, azkabanCfgDir])"
proof -
  from assms obtain p1 where
    1: "foldR (ro_step h home) (roPaths @ uc_ro uc) (add (Tmpfs home) pl) = Inr p1"
    unfolding home_binds_def by auto
  obtain ov2 p2 where s: "settle_overlay help ov0 p1 = (ov2, p2)" by fastforce
  with assms 1 have "ov2 = ov"
    unfolding home_binds_def by (auto simp: Let_def split: if_splits)
  with s have 2: "settle_overlay help ov0 p1 = (ov, p2)" by simp
  with assms 1 obtain p3 p4 p5 where
    "foldR (rw_step h mk home ov) (rwPaths @ uc_rw uc) p2 = Inr p3" and
    "foldR (persist_step h home) (uc_persist uc) p3 = Inr p4" and
    "foldR (freeze_step h' home) roFreeze p4 = Inr p5" and
    "foldR (mask_step h' mk home uc) (maskPaths @ uc_mask uc) p5 = Inr pl'" and
    "h' = mkdir_all h (join_path [home, azkabanCfgDir])"
    unfolding home_binds_def by (auto simp: Let_def split: if_splits)
  with 1 2 that show thesis by blast
qed

text \<open>The section leaves the host as it is when the config directory is already there.\<close>

definition config_made :: "host \<Rightarrow> string \<Rightarrow> bool" where
  "config_made h home \<longleftrightarrow> mkdir_all h (join_path [home, azkabanCfgDir]) = h"

lemma home_binds_views:
  assumes "home_binds h mk help ok home uc overlay pl = Inr (h', ov, pl')"
    and "fresh_temps mk h" and "config_made h home" and "\<not> exists h []" and "mask_ok h pl"
  shows "views (ops pl') = views (ops pl) @ home_views h home uc ov" and "h' = h"
proof -
  let ?g = "layer_views h home uc ov"
  obtain p1 p2 p3 p4 p5 where
    1: "foldR (ro_step h home) (roPaths @ uc_ro uc) (add (Tmpfs home) pl) = Inr p1" and
    2: "settle_overlay help overlay p1 = (ov, p2)" and
    3: "foldR (rw_step h mk home ov) (rwPaths @ uc_rw uc) p2 = Inr p3" and
    4: "foldR (persist_step h home) (uc_persist uc) p3 = Inr p4" and
    5: "foldR (freeze_step h' home) roFreeze p4 = Inr p5" and
    6: "foldR (mask_step h' mk home uc) (maskPaths @ uc_mask uc) p5 = Inr pl'" and
    h': "h' = mkdir_all h (join_path [home, azkabanCfgDir])"
    using home_binds_stages [OF assms(1)] by metis
  show h: "h' = h" using assms(3) h' by (simp add: config_made_def)
  let ?V = "\<lambda>s. views (ops s)"
  note app = foldR_appends [where v = ?V and P = "mask_ok h"]
  have a1: "?V p1 = ?V (add (Tmpfs home) pl) @ concat (map (?g Lro) (roPaths @ uc_ro uc)) \<and> mask_ok h p1"
  proof (rule app [OF 1])
    show "mask_ok h (add (Tmpfs home) pl)" using assms(5) by (simp add: mask_ok_def)
  next
    fix x s t assume "mask_ok h s" and "ro_step h home x s = Inr t"
    then show "mask_ok h t \<and> ?V t = ?V s @ ?g Lro x"
      using ro_step_views [of h home x s t uc ov] by (simp add: mask_ok_def)
  qed
  have a2: "?V p2 = ?V p1" and m2: "mask_ok h p2"
    using settle_overlay_ops [OF 2] a1 by (simp_all add: mask_ok_def)
  have a3: "?V p3 = ?V p2 @ concat (map (?g Lrw) (rwPaths @ uc_rw uc)) \<and> mask_ok h p3"
  proof (rule app [OF 3 m2])
    fix x s t assume "mask_ok h s" and "rw_step h mk home ov x s = Inr t"
    then show "mask_ok h t \<and> ?V t = ?V s @ ?g Lrw x"
      using rw_step_views [OF _ assms(2), of home ov x s t uc] by (simp add: mask_ok_def)
  qed
  have a4: "?V p4 = ?V p3 @ concat (map (?g Lpersist) (uc_persist uc)) \<and> mask_ok h p4"
  proof (rule app [OF 4 a3 [THEN conjunct2]])
    fix x s t assume "mask_ok h s" and "persist_step h home x s = Inr t"
    then show "mask_ok h t \<and> ?V t = ?V s @ ?g Lpersist x"
      using persist_step_views [of h home x s t uc ov] by (simp add: mask_ok_def)
  qed
  have a5: "?V p5 = ?V p4 @ concat (map (?g Lfreeze) roFreeze) \<and> mask_ok h p5"
  proof (rule app [OF 5 [unfolded h] a4 [THEN conjunct2]])
    fix x s t assume "mask_ok h s" and "freeze_step h home x s = Inr t"
    then show "mask_ok h t \<and> ?V t = ?V s @ ?g Lfreeze x"
      using freeze_step_views [of h home x s t uc ov] by (simp add: mask_ok_def)
  qed
  have a6: "?V pl' = ?V p5 @ concat (map (?g Lmask) (maskPaths @ uc_mask uc)) \<and> mask_ok h pl'"
  proof (rule app [OF 6 [unfolded h] a5 [THEN conjunct2]])
    fix x s t assume "mask_ok h s" and "mask_step h mk home uc x s = Inr t"
    then show "mask_ok h t \<and> ?V t = ?V s @ ?g Lmask x"
      using mask_step_views [of h mk home uc x s t ov] assms(2,4) by simp
  qed
  show "?V pl' = ?V pl @ home_views h home uc ov"
    using a1 a2 a3 a4 a5 a6
    by (simp add: concat_layer_views home_views_def home_layers_def)
qed

end
