(* ===== verification/Flags.thy ===== *)
theory Flags
  imports Config
begin

text \<open>
  The flags of a run (\<open>flags.go\<close>).  \<open>parse_args\<close> is the parsing loop of Go's \<open>flag\<close> package: it
  stops at the first argument that is not a flag and at \<open>--\<close>, and fails at an unknown
  flag, a missing value or a bad boolean.  \<open>parseFlags\<close> turns the result into \<open>jailOpts\<close> and
  refuses the combinations the source refuses.
\<close>

section \<open>Go's flag package\<close>

datatype flag_kind = BoolFlag | StringFlag | IntFlag

datatype flag_error =
    ErrHelp
  | BadSyntax string
  | NotDefined string
  | InvalidBool string string
  | InvalidInt string string
  | NeedsArgument string

definition parseBool :: "string \<Rightarrow> bool option" where
  "parseBool s =
     (if s \<in> set [''1'', ''t'', ''T'', ''true'', ''TRUE'', ''True''] then Some True
      else if s \<in> set [''0'', ''f'', ''F'', ''false'', ''FALSE'', ''False''] then Some False
      else None)"

text \<open>
  \<open>strconv.ParseInt\<close> with base 0 and 64 bits, which reads the value of an int flag: a sign, a prefix
  that names the base (a bare 0 is octal) and digits, between which single underscores may stand.
\<close>

definition digit_of :: "char \<Rightarrow> nat option" where
  "digit_of c =
     (if is_digit c then Some (digit_val c)
      else let n = (of_char (lower_char c) :: nat) in if 97 \<le> n \<and> n \<le> 122 then Some (n - 87) else None)"

fun read_base :: "nat \<Rightarrow> nat \<Rightarrow> string \<Rightarrow> nat option" where
  "read_base b n [] = Some n"
| "read_base b n (c # cs) =
     (if c = CHR ''_'' then read_base b n cs
      else (case digit_of c of
              None \<Rightarrow> None
            | Some d \<Rightarrow> if d < b then read_base b (n * b + d) cs else None))"

text \<open>An underscore follows a digit (or the prefix) and is followed by one.\<close>

fun underscores_ok :: "bool \<Rightarrow> bool \<Rightarrow> string \<Rightarrow> bool" where
  "underscores_ok after_digit after_us [] = (\<not> after_us)"
| "underscores_ok after_digit after_us (c # cs) =
     (if c = CHR ''_'' then after_digit \<and> underscores_ok False True cs else underscores_ok True False cs)"

definition number_base :: "string \<Rightarrow> nat \<times> bool \<times> string" where
  "number_base s =
     (if s \<noteq> [] \<and> hd s = CHR ''0'' then
        (if 3 \<le> length s \<and> lower_char (s ! 1) = CHR ''b'' then (2, True, drop 2 s)
         else if 3 \<le> length s \<and> lower_char (s ! 1) = CHR ''o'' then (8, True, drop 2 s)
         else if 3 \<le> length s \<and> lower_char (s ! 1) = CHR ''x'' then (16, True, drop 2 s)
         else (8, False, tl s))
      else (10, False, s))"

definition parseInt :: "string \<Rightarrow> int option" where
  "parseInt s =
     (let neg = (s \<noteq> [] \<and> hd s = CHR ''-''); u = (if s \<noteq> [] \<and> hd s \<in> {CHR ''+'', CHR ''-''} then tl s else s) in
      if u = [] then None
      else (case number_base u of
        (b, prefixed, ds) \<Rightarrow>
          (case read_base b 0 ds of
             None \<Rightarrow> None
           | Some n \<Rightarrow>
               let i = (if neg then - int n else int n) in
               if \<not> underscores_ok prefixed False (if prefixed then ds else u) then None
               else if - (2 ^ 63) \<le> i \<and> i < 2 ^ 63 then Some i else None)))"

lemma parseInt_samples:
  "parseInt ''443'' = Some 443" "parseInt ''0x1F'' = Some 31" "parseInt ''0'' = Some 0" "parseInt ''-1_000'' = Some (- 1000)"
  "parseInt ''017'' = Some 15" "parseInt ''0x'' = None" "parseInt ''1__0'' = None" "parseInt ''8080a'' = None"
  by code_simp+

text \<open>The name and the inline value of a flag, split at an \<open>=\<close> that is not first.\<close>

definition split_flag :: "string \<Rightarrow> string \<times> string option" where
  "split_flag name = (case name of
     [] \<Rightarrow> ([], None)
   | c # cs \<Rightarrow> (case cut_at cs (CHR ''='') of
       (before, after, found) \<Rightarrow> (c # before, if found then Some after else None)))"

definition dash_name :: "string \<Rightarrow> string" where
  "dash_name s = (if s ! 1 = CHR ''-'' then drop 2 s else drop 1 s)"

text \<open>One round of the loop: the end of the flags, an error, or an assignment and what is left.\<close>

datatype flag_token =
    EndOfFlags "string list"
  | FlagFault flag_error
  | FlagItem string string "string list"

definition value_item :: "flag_kind \<Rightarrow> string \<Rightarrow> string \<Rightarrow> string list \<Rightarrow> flag_token" where
  "value_item kind name v args =
     (if kind = IntFlag \<and> parseInt v = None then FlagFault (InvalidInt v name) else FlagItem name v args)"

definition flag_value :: "flag_kind \<Rightarrow> string \<Rightarrow> string option \<Rightarrow> string list \<Rightarrow> flag_token" where
  "flag_value kind name inline args =
     (if kind = BoolFlag then
        (case inline of
           None \<Rightarrow> FlagItem name ''true'' args
         | Some v \<Rightarrow> if parseBool v = None then FlagFault (InvalidBool v name) else FlagItem name v args)
      else
        (case inline of
           Some v \<Rightarrow> value_item kind name v args
         | None \<Rightarrow> (case args of
             [] \<Rightarrow> FlagFault (NeedsArgument name)
           | v # args' \<Rightarrow> value_item kind name v args')))"

definition parse_one :: "(string \<Rightarrow> flag_kind option) \<Rightarrow> string \<Rightarrow> string list \<Rightarrow> flag_token" where
  "parse_one formal s args =
     (if length s < 2 \<or> s ! 0 \<noteq> CHR ''-'' then EndOfFlags (s # args)
      else if s = ''--'' then EndOfFlags args
      else if dash_name s = [] \<or> hd (dash_name s) = CHR ''-'' \<or> hd (dash_name s) = CHR ''='' then
        FlagFault (BadSyntax s)
      else (case split_flag (dash_name s) of (name, inline) \<Rightarrow>
        (case formal name of
           None \<Rightarrow> FlagFault (if name = ''help'' \<or> name = ''h'' then ErrHelp else NotDefined name)
         | Some kind \<Rightarrow> flag_value kind name inline args)))"

lemma value_item_item: "value_item kind name v args = FlagItem k v' args' \<Longrightarrow> k = name \<and> v' = v \<and> args' = args"
  by (simp add: value_item_def split: if_splits)

lemma flag_value_item:
  "flag_value kind name inline args = FlagItem k v args' \<Longrightarrow> k = name \<and> (args' = args \<or> args = v # args')"
  by (auto simp: flag_value_def dest: value_item_item split: if_splits option.splits list.splits)

lemma flag_value_not_end: "flag_value kind name inline args \<noteq> EndOfFlags rest"
  by (auto simp: flag_value_def value_item_def split: option.splits list.splits)

lemma parse_one_item:
  assumes "parse_one formal s args = FlagItem k v args'"
  shows "args' = args \<or> args = v # args'" and "formal k \<noteq> None" and "s \<noteq> ''--''"
  using assms unfolding parse_one_def
  by (auto dest: flag_value_item split: if_splits option.splits prod.splits)

lemma parse_one_end:
  "parse_one formal s args = EndOfFlags rest \<Longrightarrow> rest = s # args \<or> (s = ''--'' \<and> rest = args)"
  unfolding parse_one_def
  by (auto simp: flag_value_not_end split: if_splits option.splits prod.splits)

function parse_args :: "(string \<Rightarrow> flag_kind option) \<Rightarrow> string list \<Rightarrow> flag_error + (string \<times> string) list \<times> string list" where
  "parse_args formal [] = Inr ([], [])"
| "parse_args formal (s # args) =
     (case parse_one formal s args of
        EndOfFlags rest \<Rightarrow> Inr ([], rest)
      | FlagFault e \<Rightarrow> Inl e
      | FlagItem k v args' \<Rightarrow>
          bindR (parse_args formal args') (\<lambda>(as, rest). Inr ((k, v) # as, rest)))"
  by pat_completeness auto
termination
  by (relation "measure (\<lambda>(formal, args). length args)") (auto dest!: parse_one_item(1))

text \<open>The value a flag variable ends up with: a repeated scalar flag keeps the last value.\<close>

definition flag_values :: "string \<Rightarrow> (string \<times> string) list \<Rightarrow> string list" where
  "flag_values name as = map snd (filter (\<lambda>kv. fst kv = name) as)"

definition bool_flag :: "string \<Rightarrow> (string \<times> string) list \<Rightarrow> bool" where
  "bool_flag name as = (case rev (flag_values name as) of [] \<Rightarrow> False | v # _ \<Rightarrow> parseBool v = Some True)"

definition string_flag :: "string \<Rightarrow> (string \<times> string) list \<Rightarrow> string" where
  "string_flag name as = (case rev (flag_values name as) of [] \<Rightarrow> [] | v # _ \<Rightarrow> v)"

section \<open>The options of a run\<close>

record jailOpts =
  gpu :: bool
  overlay :: bool
  landlockOn :: bool
  rlimits :: bool
  display :: bool
  netIsolate :: bool
  sshAgent :: bool
  keepEnv :: bool
  dry :: bool
  allowUserns :: bool
  rawSock :: bool
  memMax :: string
  netPorts :: string
  socketKind :: string
  o_ro :: "string list"
  o_rw :: "string list"
  o_persist :: "string list"
  noAudit :: bool
  noGuidance :: bool
  rollback :: bool
  elevate :: bool
  sshAgentRaw :: bool
  sshAgentConfirm :: bool
  unixSocket :: "string list"
  unixSocketDir :: "string list"
  egressHosts :: "string list"
  brokerPorts :: "string list"
  netHost :: "string list"
  credential :: "string list"
  persistAll :: bool

definition flag_table :: "string \<Rightarrow> flag_kind option" where
  "flag_table name =
     (if name \<in> set [''no-gpu'', ''bind-docker'', ''bind-podman'', ''unfiltered-container-socket'', ''persist'',
           ''no-rlimits'', ''allow-userns'', ''display'', ''ssh-agent'', ''ssh-agent-raw'',
           ''ssh-agent-confirm'', ''no-net'', ''no-landlock'', ''keep-env'', ''dry-run'', ''no-audit'',
           ''no-guidance'', ''rollback'', ''elevate''] then Some BoolFlag
      else if name \<in> set [''mem-max'', ''net-ports'', ''unix-socket'', ''unix-socket-dir'', ''net-host'',
           ''credential'', ''ro'', ''rw'', ''persist-path''] then Some StringFlag
      else None)"

datatype usage_error =
    FlagError flag_error
  | AgentModeWithoutAgent
  | RawCannotConfirm
  | ElevateNeedsLandlock
  | RollbackWithPersist
  | RawSocketNamesNoRuntime

definition opts_of :: "(string \<times> string) list \<Rightarrow> jailOpts" where
  "opts_of as =
     \<lparr>gpu = \<not> bool_flag ''no-gpu'' as, overlay = \<not> bool_flag ''persist'' as,
      landlockOn = \<not> bool_flag ''no-landlock'' as, rlimits = \<not> bool_flag ''no-rlimits'' as,
      display = bool_flag ''display'' as, netIsolate = bool_flag ''no-net'' as,
      sshAgent = bool_flag ''ssh-agent'' as, keepEnv = bool_flag ''keep-env'' as,
      dry = bool_flag ''dry-run'' as, allowUserns = bool_flag ''allow-userns'' as,
      rawSock = bool_flag ''unfiltered-container-socket'' as,
      memMax = string_flag ''mem-max'' as, netPorts = string_flag ''net-ports'' as, socketKind = [],
      o_ro = flag_values ''ro'' as, o_rw = flag_values ''rw'' as, o_persist = flag_values ''persist-path'' as,
      noAudit = bool_flag ''no-audit'' as, noGuidance = bool_flag ''no-guidance'' as,
      rollback = bool_flag ''rollback'' as, elevate = bool_flag ''elevate'' as,
      sshAgentRaw = bool_flag ''ssh-agent-raw'' as, sshAgentConfirm = bool_flag ''ssh-agent-confirm'' as,
      unixSocket = flag_values ''unix-socket'' as, unixSocketDir = flag_values ''unix-socket-dir'' as,
      egressHosts = [], brokerPorts = [],
      netHost = flag_values ''net-host'' as, credential = flag_values ''credential'' as,
      persistAll = bool_flag ''persist'' as\<rparr>"

text \<open>
  \<open>parseFlags\<close>: \<open>Inl\<close> is \<open>fatal(2, ...)\<close>, \<open>Inr None\<close> is a served \<open>--help\<close>.  \<open>shell\<close> is the
  environment's \<open>$SHELL\<close> (empty when unset).
\<close>

definition check_opts :: "(string \<times> string) list \<Rightarrow> jailOpts \<Rightarrow> usage_error + jailOpts" where
  "check_opts as o1 =
     (if (sshAgentRaw o1 \<or> sshAgentConfirm o1) \<and> \<not> sshAgent o1 then Inl AgentModeWithoutAgent
      else if sshAgentRaw o1 \<and> sshAgentConfirm o1 then Inl RawCannotConfirm
      else if elevate o1 \<and> \<not> landlockOn o1 then Inl ElevateNeedsLandlock
      else if rollback o1 \<and> bool_flag ''persist'' as then Inl RollbackWithPersist
      else
        let o2 = (if rollback o1 then o1\<lparr>overlay := False\<rparr> else o1) in
        if bool_flag ''bind-podman'' as then Inr (o2\<lparr>socketKind := ''podman''\<rparr>)
        else if bool_flag ''bind-docker'' as then Inr (o2\<lparr>socketKind := ''docker''\<rparr>)
        else if rawSock o2 then Inl RawSocketNamesNoRuntime
        else Inr o2)"

definition parseFlags :: "string \<Rightarrow> string list \<Rightarrow> usage_error + (jailOpts \<times> string list) option" where
  "parseFlags shell argv =
     (case parse_args flag_table argv of
        Inl ErrHelp \<Rightarrow> Inr None
      | Inl e \<Rightarrow> Inl (FlagError e)
      | Inr (as, rest) \<Rightarrow>
          bindR (check_opts as (opts_of as)) (\<lambda>o1.
            Inr (Some (o1, if rest = [] then [if shell \<noteq> [] then shell else ''bash''] else rest))))"

section \<open>Laws\<close>

lemma parse_args_consumes:
  "parse_args formal args = Inr (as, rest) \<Longrightarrow> \<exists>pre. args = pre @ rest"
proof (induction formal args arbitrary: as rest rule: parse_args.induct)
  case (2 formal s args)
  show ?case
  proof (cases "parse_one formal s args")
    case (EndOfFlags r)
    with "2.prems" have "s # args = [] @ rest \<or> s # args = [s] @ rest"
      by (auto dest: parse_one_end)
    then show ?thesis by blast
  next
    case (FlagItem k v args')
    with "2.prems" obtain as' where "parse_args formal args' = Inr (as', rest)" by auto
    from "2.IH" [OF FlagItem this] obtain pre where "args' = pre @ rest" ..
    with parse_one_item(1) [OF FlagItem] have "s # args = (s # pre) @ rest \<or> s # args = (s # v # pre) @ rest"
      by auto
    then show ?thesis by blast
  qed (use "2.prems" in simp)
qed simp

text \<open>A token does not see what follows the arguments it consumes.\<close>

lemma value_item_append:
  "value_item kind name v args = FlagItem k v' args' \<Longrightarrow> value_item kind name v (args @ tl_args) = FlagItem k v' (args' @ tl_args)"
  by (auto simp: value_item_def split: if_splits)

lemma flag_value_append:
  "flag_value kind name inline args = FlagItem k v args' \<Longrightarrow>
     flag_value kind name inline (args @ tl_args) = FlagItem k v (args' @ tl_args)"
  by (cases args) (auto simp: flag_value_def dest: value_item_append [where tl_args = tl_args] split: if_splits option.splits)

lemma parse_one_append:
  assumes "parse_one formal s args = FlagItem k v args'"
  shows "parse_one formal s (args @ tl_args) = FlagItem k v (args' @ tl_args)"
  using assms unfolding parse_one_def
  by (auto simp: flag_value_append split: if_splits option.splits prod.splits)

lemma parse_args_terminator:
  assumes "parse_args formal fs = Inr (as, [])" and "''--'' \<notin> set fs"
  shows "parse_args formal (fs @ ''--'' # cmd) = Inr (as, cmd)"
  using assms
proof (induction formal fs arbitrary: as rule: parse_args.induct)
  case (1 formal)
  then show ?case by (simp add: parse_one_def)
next
  case (2 formal s args)
  show ?case
  proof (cases "parse_one formal s args")
    case (EndOfFlags r)
    with "2.prems" show ?thesis by (auto dest: parse_one_end)
  next
    case (FlagItem k v args')
    with "2.prems"(1) obtain as' where as': "parse_args formal args' = Inr (as', [])" "as = (k, v) # as'"
      by auto
    have "''--'' \<notin> set args'" using parse_one_item(1) [OF FlagItem] "2.prems"(2) by auto
    from "2.IH" [OF FlagItem as'(1) this] parse_one_append [OF FlagItem, of "''--'' # cmd"] as'(2)
    show ?thesis by simp
  qed (use "2.prems" in simp)
qed

text \<open>What every accepted set of options satisfies.\<close>

definition opts_ok :: "jailOpts \<Rightarrow> bool" where
  "opts_ok o1 \<longleftrightarrow>
     (sshAgentRaw o1 \<or> sshAgentConfirm o1 \<longrightarrow> sshAgent o1) \<and>
     \<not> (sshAgentRaw o1 \<and> sshAgentConfirm o1) \<and>
     (elevate o1 \<longrightarrow> landlockOn o1) \<and>
     (rollback o1 \<longrightarrow> \<not> overlay o1 \<and> \<not> persistAll o1) \<and>
     (rawSock o1 \<longrightarrow> socketKind o1 \<noteq> []) \<and>
     socketKind o1 \<in> {[], ''docker'', ''podman''}"

lemma opts_of_simps:
  "persistAll (opts_of as) = bool_flag ''persist'' as" "socketKind (opts_of as) = []"
  by (simp_all add: opts_of_def)

lemma check_opts_ok:
  assumes "check_opts as (opts_of as) = Inr o1"
  shows "opts_ok o1"
proof -
  obtain o0 where o0: "opts_of as = o0" and p: "persistAll o0 = bool_flag ''persist'' as"
    and k: "socketKind o0 = []" using opts_of_simps by blast
  show ?thesis
    using assms k unfolding o0 check_opts_def p [symmetric]
    by (simp add: Let_def opts_ok_def split: if_splits) auto
qed

section \<open>Where the command begins\<close>

text \<open>
  A grammar of the flags: each with one dash or two, a boolean alone, any flag with its value after
  an \<open>=\<close>, and a flag that is no boolean with its value in the next argument.
\<close>

definition dashed :: "string \<Rightarrow> string \<Rightarrow> bool" where
  "dashed n t \<longleftrightarrow> t = CHR ''-'' # n \<or> t = CHR ''-'' # CHR ''-'' # n"

inductive flag_part :: "(string \<Rightarrow> flag_kind option) \<Rightarrow> string list \<Rightarrow> bool" for formal where
  nothing: "flag_part formal []"
| alone: "dashed n t \<Longrightarrow> formal n = Some BoolFlag \<Longrightarrow> flag_part formal fs \<Longrightarrow> flag_part formal (t # fs)"
| inline: "dashed (n @ CHR ''='' # v) t \<Longrightarrow> formal n \<noteq> None \<Longrightarrow> flag_part formal fs \<Longrightarrow> flag_part formal (t # fs)"
| next_argument: "dashed n t \<Longrightarrow> formal n = Some k \<Longrightarrow> k \<noteq> BoolFlag \<Longrightarrow> flag_part formal fs \<Longrightarrow>
    flag_part formal (t # v # fs)"

text \<open>
  The words after the flags: what follows the terminator, or what starts at the first argument that
  does not look like a flag.
\<close>

definition after_flags :: "(string \<Rightarrow> flag_kind option) \<Rightarrow> string list \<Rightarrow> string list \<Rightarrow> bool" where
  "after_flags formal argv ws \<longleftrightarrow>
     (\<exists>fs. flag_part formal fs \<and>
        (argv = fs @ ''--'' # ws \<or>
         argv = fs @ ws \<and> (ws = [] \<or> length (hd ws) < 2 \<or> hd (hd ws) \<noteq> CHR ''-'')))"

lemma split_flag_shape:
  "split_flag nm = (n, None) \<Longrightarrow> nm = n" "split_flag nm = (n, Some v) \<Longrightarrow> nm = n @ CHR ''='' # v"
  using cut_at_found cut_at_not_found cut_at_found_iff
  by (auto simp: split_flag_def split: list.splits prod.splits if_splits) (metis prod.inject snd_conv)+

lemma parse_one_shape:
  assumes "parse_one formal s args = FlagItem k v args'" and "flag_part formal fs"
  shows "\<exists>pre. s # args = pre @ args' \<and> flag_part formal (pre @ fs)"
proof -
  from assms(1) have l: "2 \<le> length s" "s ! 0 = CHR ''-''"
    unfolding parse_one_def by (auto split: if_splits)
  then have d: "dashed (dash_name s) s" by (cases s; cases "tl s") (auto simp: dashed_def dash_name_def)
  obtain n i where sf: "split_flag (dash_name s) = (n, i)" by fastforce
  with assms(1) obtain kind where f: "formal n = Some kind" and fv: "flag_value kind n i args = FlagItem k v args'"
    unfolding parse_one_def by (auto split: if_splits option.splits)
  show ?thesis
  proof (cases i)
    case (Some u)
    with sf d have "dashed (n @ CHR ''='' # u) s" using split_flag_shape(2) by metis
    then have "flag_part formal (s # fs)" using f assms(2) by (auto intro: flag_part.inline)
    moreover have "args' = args"
      using fv Some by (auto simp: flag_value_def dest: value_item_item split: if_splits)
    ultimately show ?thesis by (intro exI [of _ "[s]"]) simp
  next
    case None
    with sf d have n: "dashed n s" using split_flag_shape(1) by metis
    show ?thesis
    proof (cases "kind = BoolFlag")
      case True
      with n f assms(2) have "flag_part formal (s # fs)" by (auto intro: flag_part.alone)
      moreover have "args' = args" using fv None True by (simp add: flag_value_def)
      ultimately show ?thesis by (intro exI [of _ "[s]"]) simp
    next
      case False
      with fv None obtain u where "args = u # args'"
        by (auto simp: flag_value_def dest: value_item_item split: list.splits)
      moreover have "flag_part formal (s # u # fs)" using n f False assms(2) by (rule flag_part.next_argument)
      ultimately show ?thesis by (intro exI [of _ "[s, u]"]) simp
    qed
  qed
qed

lemma parse_args_after: "parse_args formal argv = Inr (as, rest) \<Longrightarrow> after_flags formal argv rest"
proof (induction formal argv arbitrary: as rest rule: parse_args.induct)
  case (1 formal)
  then show ?case using flag_part.nothing by (auto simp: after_flags_def)
next
  case (2 formal s args)
  show ?case
  proof (cases "parse_one formal s args")
    case (EndOfFlags r)
    with "2.prems" have r: "r = rest" by simp
    with EndOfFlags have "s = ''--'' \<and> rest = args \<or> rest = s # args \<and> (length s < 2 \<or> s ! 0 \<noteq> CHR ''-'')"
      unfolding parse_one_def by (auto simp: flag_value_not_end split: if_splits option.splits prod.splits)
    moreover have "length s < 2 \<or> s ! 0 \<noteq> CHR ''-'' \<longleftrightarrow> length s < 2 \<or> hd s \<noteq> CHR ''-''"
      by (cases s) auto
    ultimately show ?thesis
      unfolding after_flags_def by (intro exI [of _ "[]"]) (auto simp: flag_part.nothing)
  next
    case (FlagItem k v args')
    with "2.prems" obtain as' where "parse_args formal args' = Inr (as', rest)" by auto
    from "2.IH" [OF FlagItem this] obtain fs where fs: "flag_part formal fs"
      "args' = fs @ ''--'' # rest \<or> args' = fs @ rest \<and> (rest = [] \<or> length (hd rest) < 2 \<or> hd (hd rest) \<noteq> CHR ''-'')"
      by (auto simp: after_flags_def)
    from parse_one_shape [OF FlagItem fs(1)] obtain pre where "s # args = pre @ args'" "flag_part formal (pre @ fs)" by blast
    with fs(2) show ?thesis unfolding after_flags_def by (intro exI [of _ "pre @ fs"]) auto
  qed (use "2.prems" in simp)
qed

text \<open>
  C32. Options that are accepted are consistent, and the command is the user's: a mode of the ssh agent
  comes with the agent and only one mode, \<open>--elevate\<close> with the Landlock floor, \<open>--rollback\<close> without the
  overlay and without \<open>--persist\<close>, an unfiltered container socket with a runtime it names.  The words
  after the flags, unchanged, are the command when there are any, and only when there is none it is
  \<open>$SHELL\<close> or bash.
\<close>

theorem accepted_options_are_consistent:
  assumes "parseFlags shell argv = Inr (Some (o1, cmd))"
  shows "opts_ok o1 \<and>
    (\<exists>ws. after_flags flag_table argv ws \<and>
       cmd = (case ws of w # rest \<Rightarrow> w # rest | [] \<Rightarrow> if shell = [] then [''bash''] else [shell]))"
proof -
  obtain as rest where p: "parse_args flag_table argv = Inr (as, rest)" and c: "check_opts as (opts_of as) = Inr o1"
    and cmd: "cmd = (if rest = [] then [if shell \<noteq> [] then shell else ''bash''] else rest)"
    using assms by (auto simp: parseFlags_def split: sum.splits flag_error.splits)
  have "cmd = (case rest of w # rest \<Rightarrow> w # rest | [] \<Rightarrow> if shell = [] then [''bash''] else [shell])"
    by (simp add: cmd split: list.split)
  with check_opts_ok [OF c] parse_args_after [OF p] show ?thesis by blast
qed

theorem accepted_options_are_consistent_witness:
  "\<exists>o1. parseFlags [] [''--elevate'', ''--'', ''ls'', ''--rollback''] = Inr (Some (o1, [''ls'', ''--rollback''])) \<and> opts_ok o1"
proof -
  have "parse_args flag_table [''--elevate'', ''--'', ''ls'', ''--rollback''] = Inr ([(''elevate'', ''true'')], [''ls'', ''--rollback''])"
    by code_simp
  moreover have "\<exists>o1. check_opts [(''elevate'', ''true'')] (opts_of [(''elevate'', ''true'')]) = Inr o1"
    by (simp add: check_opts_def opts_of_def bool_flag_def flag_values_def string_flag_def parseBool_def Let_def)
  ultimately obtain o1 where "parseFlags [] [''--elevate'', ''--'', ''ls'', ''--rollback''] = Inr (Some (o1, [''ls'', ''--rollback'']))"
    by (auto simp: parseFlags_def)
  with accepted_options_are_consistent [OF this] show ?thesis by blast
qed

end
