(* ===== verification/Why.thy ===== *)
theory Why
  imports Home_Binds
begin

text \<open>
  \<open>azkaban why\<close> (\<open>why.go\<close>): the query side of the policy.  \<open>decide\<close> walks the same lists as
  the bind loops and reports the layer on top; \<open>decideNet\<close> answers for ports; \<open>decideSelf\<close>
  answers inside the jail from the policy file.  Decisions are a datatype (the source's strings
  \<open>allowed\<close>, \<open>denied\<close>, \<open>absent\<close>), and so are the mechanism and the prose of the detail line, one
  constructor per text of the source.  \<open>home_views\<close> of theory \<open>Home_Binds\<close> is what the
  answers are compared with.
\<close>

section \<open>Verdicts\<close>

datatype operation = Read | Write

datatype decision = Allowed | Denied | Absent

datatype mechanism =
    BindProject | TmpfsHome string | MaskedBlank | RoBindFrozen | RoBindPlain | BindRealInode
  | OverlayScratch | BindPersist
  | TmpfsTmp | TmpfsRun | ProcMount | DevMount | RoBindBase | NotBound
  | UnshareNet | NoEgressFilter | NotFiltered | ConnectTCP
  | SelfNotMounted | SelfBoundRW | SelfBlanked | SelfBoundRO | SelfOverlay

datatype detail =
    NoDetail | GitSafetyNet | NothingCovers | CredentialStore string | FrozenOnPurpose | ExemptFromOverlay
  | Evaporates string | RealDeletes | CanCreate detail | NoSuchPath
  | FreshTmpfs | EmptyRun | MinimalDev | OutsideBase
  | Unrestricted | LandlockOff | HostsNotFiltered | PortListed | PortNotListed
  | SelfAbsent | SelfProject | SelfCredential | SelfReadOnly | SelfPersisted | SelfDiscarded

record verdict =
  v_query :: string
  v_op :: "operation option"
  v_decision :: decision
  v_mechanism :: mechanism
  v_rule :: string
  v_detail :: detail
  v_survives :: "bool option"

definition allowIf :: "bool \<Rightarrow> decision" where
  "allowIf ok = (if ok then Allowed else Denied)"

section \<open>The top layer\<close>

record layer =
  lkind :: layer_kind
  lrel :: string
  llist :: string

definition consider_list ::
  "host \<Rightarrow> string \<Rightarrow> string \<Rightarrow> layer_kind \<Rightarrow> string \<Rightarrow> string list \<Rightarrow> layer option \<Rightarrow> layer option" where
  "consider_list h home rel kind listname entries acc =
     foldl (\<lambda>acc e. if covers e rel \<and> exists h (join_path [home, e])
                    then Some \<lparr>lkind = kind, lrel = e, llist = listname\<rparr> else acc) acc entries"

definition consider_masks :: "host \<Rightarrow> string \<Rightarrow> string \<Rightarrow> userConf \<Rightarrow> layer option \<Rightarrow> layer option" where
  "consider_masks h home rel uc acc =
     foldl (\<lambda>acc e.
       if \<not> covers e rel \<or> \<not> exists h (join_path [home, e]) then acc
       else if mentionedInConfig e (join_path [home, e]) home (uc_ro uc) (uc_rw uc) (uc_persist uc) then acc
       else Some \<lparr>lkind = Lmask, lrel = e,
                   llist = (if e \<in> set (uc_mask uc) then ''config mask'' else ''maskPaths'')\<rparr>)
       acc (maskPaths @ uc_mask uc)"

definition topLayer :: "host \<Rightarrow> string \<Rightarrow> string \<Rightarrow> userConf \<Rightarrow> layer option" where
  "topLayer h rel home uc =
     (let lay = None;
          lay = consider_list h home rel Lro ''roPaths'' roPaths lay;
          lay = consider_list h home rel Lro ''config ro'' (uc_ro uc) lay;
          lay = consider_list h home rel Lrw ''rwPaths'' rwPaths lay;
          lay = consider_list h home rel Lrw ''config rw'' (uc_rw uc) lay;
          lay = consider_list h home rel Lpersist ''config persist'' (uc_persist uc) lay;
          lay = consider_list h home rel Lfreeze ''roFreeze'' roFreeze lay
      in consider_masks h home rel uc lay)"

section \<open>Paths\<close>

definition isSystemRO :: "string \<Rightarrow> bool" where
  "isSystemRO p = list_ex (\<lambda>root. p = root \<or> under p root)
     [''/usr'', ''/etc'', ''/opt'', ''/sys'', ''/bin'', ''/lib'', ''/lib64'', ''/sbin'']"

definition systemVerdict :: "host \<Rightarrow> string \<Rightarrow> operation \<Rightarrow> verdict" where
  "systemVerdict h p op =
     (let v = \<lparr>v_query = p, v_op = Some op, v_decision = Absent, v_mechanism = NotBound,
               v_rule = ''default deny'', v_detail = OutsideBase, v_survives = None\<rparr>;
          v = (if p = ''/tmp'' \<or> under p ''/tmp'' then
                 v\<lparr>v_decision := Allowed, v_mechanism := TmpfsTmp, v_rule := ''base layout'',
                   v_survives := Some False, v_detail := FreshTmpfs\<rparr>
               else if p = ''/run'' \<or> under p ''/run'' then
                 v\<lparr>v_decision := Absent, v_mechanism := TmpfsRun, v_rule := ''base layout'', v_detail := EmptyRun\<rparr>
               else if p = ''/proc'' \<or> under p ''/proc'' then
                 v\<lparr>v_decision := allowIf (op = Read), v_mechanism := ProcMount, v_rule := ''base layout'',
                   v_detail := NoDetail\<rparr>
               else if p = ''/dev'' \<or> under p ''/dev'' then
                 v\<lparr>v_decision := Allowed, v_mechanism := DevMount, v_rule := ''base layout'', v_detail := MinimalDev\<rparr>
               else if isSystemRO p then
                 v\<lparr>v_decision := allowIf (op = Read), v_mechanism := RoBindBase, v_rule := ''base layout'',
                   v_detail := NoDetail\<rparr>
               else v)
      in if v_decision v \<noteq> Absent \<and> \<not> exists h p
         then v\<lparr>v_decision := Absent, v_detail := NoSuchPath\<rparr> else v)"

definition layer_rule :: "layer \<Rightarrow> string" where
  "layer_rule lay = llist lay @ '' '' @ lrel lay"

text \<open>The \<open>switch lay.kind\<close> of \<open>decide\<close>.\<close>

fun kind_verdict :: "layer_kind \<Rightarrow> layer \<Rightarrow> operation \<Rightarrow> bool \<Rightarrow> verdict \<Rightarrow> verdict" where
  "kind_verdict Lmask lay op overlay v =
     v\<lparr>v_decision := Denied, v_mechanism := MaskedBlank, v_rule := layer_rule lay,
       v_detail := CredentialStore (lrel lay)\<rparr>"
| "kind_verdict Lfreeze lay op overlay v =
     v\<lparr>v_decision := allowIf (op = Read), v_mechanism := RoBindFrozen, v_rule := layer_rule lay,
       v_detail := FrozenOnPurpose\<rparr>"
| "kind_verdict Lro lay op overlay v =
     v\<lparr>v_decision := allowIf (op = Read), v_mechanism := RoBindPlain, v_rule := layer_rule lay\<rparr>"
| "kind_verdict Lpersist lay op overlay v =
     v\<lparr>v_decision := Allowed, v_survives := Some True, v_mechanism := BindRealInode,
       v_rule := layer_rule lay, v_detail := ExemptFromOverlay\<rparr>"
| "kind_verdict Lrw lay op overlay v =
     (let v = v\<lparr>v_decision := Allowed, v_rule := layer_rule lay, v_survives := Some (\<not> overlay)\<rparr>
      in if overlay then v\<lparr>v_mechanism := OverlayScratch, v_detail := Evaporates (lrel lay)\<rparr>
         else v\<lparr>v_mechanism := BindPersist, v_detail := RealDeletes\<rparr>)"

definition decide ::
  "host \<Rightarrow> string option \<Rightarrow> string \<Rightarrow> operation \<Rightarrow> string \<Rightarrow> string \<Rightarrow> userConf \<Rightarrow> bool \<Rightarrow> verdict" where
  "decide h wd path op home cwd uc overlay =
     (let p = abs_query wd path home;
          v = \<lparr>v_query = p, v_op = Some op, v_decision = Absent, v_mechanism = TmpfsHome home,
               v_rule = ''default deny'', v_detail = NoDetail, v_survives = None\<rparr>
      in
      if cwd \<noteq> [] \<and> under p cwd then
        v\<lparr>v_decision := Allowed, v_mechanism := BindProject, v_survives := Some True,
          v_rule := ''cwd'', v_detail := GitSafetyNet\<rparr>
      else if \<not> under p home then systemVerdict h p op
      else
        let rel = (case rel_path home p of Some r \<Rightarrow> r | None \<Rightarrow> []) in
        (case topLayer h rel home uc of
           None \<Rightarrow> v\<lparr>v_detail := NothingCovers\<rparr>
         | Some lay \<Rightarrow>
             let v = kind_verdict (lkind lay) lay op overlay v in
             if \<not> exists h p \<and> v_decision v = Allowed then v\<lparr>v_detail := CanCreate (v_detail v)\<rparr>
             else if \<not> exists h p \<and> lkind lay \<noteq> Lmask then
               v\<lparr>v_decision := Absent, v_detail := NoSuchPath\<rparr>
             else v))"

section \<open>Hosts and ports\<close>

text \<open>\<open>strconv.Atoi\<close> on a 64-bit machine.\<close>

definition atoi :: "string \<Rightarrow> int option" where
  "atoi s =
     (case s of
        [] \<Rightarrow> None
      | c # cs \<Rightarrow>
          let neg = (c = CHR ''-''); ds = (if c = CHR ''-'' \<or> c = CHR ''+'' then cs else s) in
          if ds = [] then None
          else (case digits_value 0 ds of
                  None \<Rightarrow> None
                | Some n \<Rightarrow> let i = (if neg then - int n else int n)
                    in if - (2 ^ 63) \<le> i \<and> i < 2 ^ 63 then Some i else None))"

text \<open>\<open>strconv.ParseUint(s, 10, 16)\<close>.\<close>

definition parseUint16 :: "string \<Rightarrow> nat option" where
  "parseUint16 s =
     (if s = [] then None
      else (case digits_value 0 s of None \<Rightarrow> None | Some n \<Rightarrow> if n < 2 ^ 16 then Some n else None))"

definition splitPorts :: "string \<Rightarrow> int list" where
  "splitPorts l = List.map_filter (\<lambda>s. atoi (trim_space s)) (split_on CHR '','' l)"

text \<open>\<open>port = 0\<close> and \<open>host = []\<close> stand for a flag that was not given, as in the source.\<close>

definition decideNet :: "string \<Rightarrow> int \<Rightarrow> bool \<Rightarrow> string \<Rightarrow> bool \<Rightarrow> verdict" where
  "decideNet host port noNet netPorts landlock =
     (let num = (if port < 0 then ''-'' @ itoa (nat (- port)) else itoa (nat port));
          q = (if port \<noteq> 0 then (if host \<noteq> [] then host @ '':'' @ num else ''port '' @ num) else host);
          v = \<lparr>v_query = q, v_op = None, v_decision = Denied, v_mechanism = UnshareNet,
               v_rule = ''--no-net'', v_detail = NoDetail, v_survives = None\<rparr>
      in
      if noNet then v
      else if netPorts = [] then
        v\<lparr>v_decision := Allowed, v_mechanism := NoEgressFilter, v_rule := ''default'', v_detail := Unrestricted\<rparr>
      else if \<not> landlock then
        v\<lparr>v_decision := Allowed, v_mechanism := NoEgressFilter, v_rule := ''--no-landlock'', v_detail := LandlockOff\<rparr>
      else if host \<noteq> [] \<and> port = 0 then
        v\<lparr>v_decision := Allowed, v_mechanism := NotFiltered, v_rule := ''--net-ports '' @ netPorts,
          v_detail := HostsNotFiltered\<rparr>
      else
        let allowed = (port \<in> set (splitPorts netPorts)) in
        v\<lparr>v_decision := allowIf allowed, v_mechanism := ConnectTCP, v_rule := ''--net-ports '' @ netPorts,
          v_detail := (if allowed then PortListed else PortNotListed)\<rparr>)"

text \<open>
  What a run makes of the same list: \<open>outer\<close> splits it at commas and white space and the
  Landlock stage parses every entry, refusing the run (\<open>Inl\<close> the entry) if one is bad.
\<close>

definition portFields :: "string \<Rightarrow> string list" where
  "portFields l = fields_func (\<lambda>c. c = CHR '','' \<or> is_space c) l"

definition parse_port :: "string \<Rightarrow> string + nat" where
  "parse_port p = (case parseUint16 p of None \<Rightarrow> Inl p | Some n \<Rightarrow> Inr n)"

fun connect_ports :: "string list \<Rightarrow> string + nat list" where
  "connect_ports [] = Inr []"
| "connect_ports (p # ps) = bindR (parse_port p) (\<lambda>n. bindR (connect_ports ps) (\<lambda>ns. Inr (n # ns)))"

section \<open>From inside the jail\<close>

record jailPolicy =
  jp_version :: int
  jp_home :: string
  jp_project :: string
  jp_writable :: "string list"
  jp_readOnly :: "string list"
  jp_persisted :: "string list"
  jp_masked :: "string list"
  jp_overlay :: bool
  jp_landlock :: bool
  jp_netIsolate :: bool
  jp_netPorts :: string
  jp_netHosts :: "string list"
  jp_envNames :: "string list"

datatype self_kind = Snone | Sproject | Smask | Sro | Spersist | Srw

definition take_longest :: "string \<Rightarrow> self_kind \<Rightarrow> string list \<Rightarrow> self_kind \<times> string \<Rightarrow> self_kind \<times> string" where
  "take_longest p k entries acc =
     foldl (\<lambda>(kind, matched) e. if under p e \<and> length e \<ge> length matched then (k, e) else (kind, matched))
       acc entries"

definition self_match :: "string \<Rightarrow> jailPolicy \<Rightarrow> self_kind \<times> string" where
  "self_match p jp =
     (let acc = take_longest p Srw (jp_writable jp) (Snone, []);
          acc = take_longest p Sro (jp_readOnly jp) acc;
          acc = take_longest p Spersist (jp_persisted jp) acc;
          (kind, matched) = take_longest p Smask (jp_masked jp) acc
      in if jp_project jp \<noteq> [] \<and> under p (jp_project jp) \<and> length (jp_project jp) \<ge> length matched
         then (Sproject, jp_project jp) else (kind, matched))"

definition decideSelf :: "string option \<Rightarrow> string \<Rightarrow> operation \<Rightarrow> jailPolicy \<Rightarrow> verdict" where
  "decideSelf wd path op jp =
     (let p = abs_query wd path (jp_home jp);
          v = \<lparr>v_query = p, v_op = Some op, v_decision = Absent, v_mechanism = SelfNotMounted,
               v_rule = ''default deny'', v_detail = SelfAbsent, v_survives = None\<rparr>;
          (kind, matched) = self_match p jp
      in case kind of
        Snone \<Rightarrow> v
      | Sproject \<Rightarrow> v\<lparr>v_decision := Allowed, v_mechanism := SelfBoundRW, v_rule := ''the project directory'',
                     v_survives := Some True, v_detail := SelfProject\<rparr>
      | Smask \<Rightarrow> v\<lparr>v_decision := Denied, v_mechanism := SelfBlanked, v_rule := matched, v_detail := SelfCredential\<rparr>
      | Sro \<Rightarrow> v\<lparr>v_decision := allowIf (op = Read), v_mechanism := SelfBoundRO, v_rule := matched,
                v_detail := (if op = Write then SelfReadOnly else NoDetail)\<rparr>
      | Spersist \<Rightarrow> v\<lparr>v_decision := Allowed, v_mechanism := SelfBoundRW, v_rule := matched,
                     v_survives := Some True, v_detail := SelfPersisted\<rparr>
      | Srw \<Rightarrow> (if jp_overlay jp then
                  v\<lparr>v_decision := Allowed, v_rule := matched, v_survives := Some False,
                    v_mechanism := SelfOverlay, v_detail := SelfDiscarded\<rparr>
                else v\<lparr>v_decision := Allowed, v_mechanism := SelfBoundRW, v_rule := matched,
                       v_survives := Some True, v_detail := NoDetail\<rparr>))"

text \<open>
  The policy file the outer stage writes into the jail (the \<open>jailPolicy\<close> literal of \<open>outer\<close>), and \<open>envNames\<close> (\<open>audit.go\<close>): the variables that are set.
\<close>

definition envNames :: "host \<Rightarrow> string list \<Rightarrow> string list" where
  "envNames h keys = filter (\<lambda>k. lookup_env h k \<noteq> None) keys"

definition jail_policy ::
  "host \<Rightarrow> string \<Rightarrow> string \<Rightarrow> userConf \<Rightarrow> bool \<Rightarrow> bool \<Rightarrow> bool \<Rightarrow> string \<Rightarrow> string list \<Rightarrow> jailPolicy" where
  "jail_policy h home cwd uc overlay landlock netIsolate netPorts netHosts =
     \<lparr>jp_version = 1, jp_home = home, jp_project = cwd,
      jp_writable = presentUnder h home (rwPaths @ uc_rw uc),
      jp_readOnly = presentUnder h home (roPaths @ uc_ro uc @ roFreeze),
      jp_persisted = presentUnder h home (uc_persist uc),
      jp_masked = presentUnder h home (maskPaths @ uc_mask uc),
      jp_overlay = overlay, jp_landlock = landlock, jp_netIsolate = netIsolate, jp_netPorts = netPorts,
      jp_netHosts = netHosts, jp_envNames = envNames h (envKeep @ uc_env uc)\<rparr>"

end
