(* ===== verification/Guidance.thy ===== *)
theory Guidance
  imports Why
begin

text \<open>
  The jail's description of itself (\<open>guidance.go\<close>): the text an agent reads, generated from the
  resolved policy, and the hook it can install.  A text is the list of its lines; \<open>text_of\<close> puts
  the newlines in.  The JSON form is left to Go's encoder and is a parameter where \<open>outer\<close> uses it.
\<close>

definition guidanceDir :: string where "guidanceDir = ''/run/azkaban''"
definition guidancePolicyPath :: string where "guidancePolicyPath = guidanceDir @ ''/policy.json''"
definition guidanceReadmePath :: string where "guidanceReadmePath = guidanceDir @ ''/README.md''"
definition guidanceBinPath :: string where "guidanceBinPath = guidanceDir @ ''/azkaban''"

definition text_of :: "string list \<Rightarrow> string" where
  "text_of ls = concat (map (\<lambda>l. l @ [newline]) ls)"

definition guidance_intro :: "string list" where
  "guidance_intro = [
     ''# You are running inside an azkaban jail'',
     [],
     ''This machine'' @ [CHR 0x27] @ ''s filesystem is not what you see. azkaban is a sandbox'',
     ''(bubblewrap + Landlock) and it is deliberately invisible to the process it'',
     ''confines, which means **errors here do not mean what they usually mean**:'',
     [],
     ''- A path that '' @ [CHR 0x22] @ ''does not exist'' @ [CHR 0x22] @ '' may exist on the host and simply not be mounted.'',
     ''  `~/.ssh` is the common case. That is ENOENT, not a deleted file, and'',
     ''  creating it will not help.'',
     ''- `EACCES` on a write is usually Landlock refusing, not Unix permissions.'',
     ''  `chmod` will not fix it and `sudo` cannot: it exists here but is inert.'',
     ''- A connection that fails may be a blocked port rather than a service being down.'',
     ''- Writes to your home directory usually **succeed and are then discarded** when'',
     ''  the jail exits. That is the overlay, and it is working as intended.'',
     [],
     ''## Before you work around an error, ask'',
     [],
     ''```sh'',
     ''/run/azkaban/azkaban why --path <path> --op read|write --self --json'',
     ''```'',
     [],
     ''It answers from this jail'' @ [CHR 0x27] @ ''s own resolved policy: whether the path is writable,'',
     ''whether it is overlaid, and which rule decided. If the answer is that the path'',
     ''is not reachable, **say so to the user** rather than trying another route to it.'',
     [],
     ''## What this jail allows'',
     []]"

definition item :: "string \<Rightarrow> string" where
  "item it = ''- `'' @ it @ ''`''"

definition text_section :: "string \<Rightarrow> string list \<Rightarrow> string list" where
  "text_section title items =
     (if items = [] then [] else [''**'' @ title @ ''**'', []] @ map item items @ [[]])"

definition writable_section :: "jailPolicy \<Rightarrow> string list" where
  "writable_section p =
     [''**Writable**'', [],
      item (jp_project p) @ '' '' @ [CHR 0xE2, CHR 0x80, CHR 0x94] @
        '' your project, and the one place writes really persist''] @
     map item (jp_writable p) @ [[]]"

definition overlay_section :: "jailPolicy \<Rightarrow> string list" where
  "overlay_section p =
     (if jp_overlay p then
        [''Everything writable under `'' @ jp_home p @ ''` except the persisted list is on a'',
         ''throwaway overlay: writes and deletes both evaporate on exit.'', []]
      else [])"

definition network_section :: "jailPolicy \<Rightarrow> string list" where
  "network_section p =
     (if jp_netIsolate p then [''**There is no network.** Nothing outbound will work.'', []]
      else if jp_netHosts p \<noteq> [] then
        [''Outbound traffic goes through a filtering proxy (already in `HTTPS_PROXY`)'',
         ''and only these hosts are reachable:'', []] @ map item (jp_netHosts p) @
        [[], ''Anything else fails. That is the allowlist, not the network being down.'', []]
      else if jp_netPorts p \<noteq> [] then
        [''Outbound TCP is restricted to ports: `'' @ jp_netPorts p @ ''`. Other ports are'',
         ''refused by the kernel, which looks like a connection failure.'', []]
      else [])"

definition guidance_lines :: "jailPolicy \<Rightarrow> string list" where
  "guidance_lines p =
     guidance_intro @ writable_section p @ text_section ''Read-only'' (jp_readOnly p) @
     text_section ''Writes here outlive the jail'' (jp_persisted p) @
     text_section ''Present but blanked out (credential stores)'' (jp_masked p) @
     overlay_section p @ network_section p @
     [''Everything not listed above is **not present**. That is the design, not a fault.'']"

definition guidanceText :: "jailPolicy \<Rightarrow> string" where
  "guidanceText p = text_of (guidance_lines p)"

definition claudeHook :: "string list" where
  "claudeHook = [
     ''#!/usr/bin/env bash'',
     ''# azkaban PostToolUse hook for Claude Code.'',
     ''#'',
     ''# Install by adding this to .claude/settings.json inside the jail:'',
     ''#'',
     ''#   { '' @ [CHR 0x22] @ ''hooks'' @ [CHR 0x22] @ '': { '' @ [CHR 0x22] @ ''PostToolUse'' @ [CHR 0x22] @ '': [ { '' @ [CHR 0x22] @ ''matcher'' @ [CHR 0x22] @ '': '' @ [CHR 0x22] @ ''Bash|Read|Write|Edit'' @ [CHR 0x22] @ '','',
     ''#       '' @ [CHR 0x22] @ ''hooks'' @ [CHR 0x22] @ '': [ { '' @ [CHR 0x22] @ ''type'' @ [CHR 0x22] @ '': '' @ [CHR 0x22] @ ''command'' @ [CHR 0x22] @ '', '' @ [CHR 0x22] @ ''command'' @ [CHR 0x22] @ '': '' @ [CHR 0x22] @ ''/run/azkaban/claude-hook.sh'' @ [CHR 0x22] @ '' } ] } ] } }'',
     ''#'',
     ''# It fires after a tool call and adds context ONLY when the call failed and the'',
     ''# jail is the likely reason. A hook that comments on every success is noise the'',
     ''# model learns to ignore.'',
     ''set -uo pipefail'',
     [],
     ''payload=$(cat)'',
     ''POLICY=/run/azkaban/policy.json'',
     ''[ -r '' @ [CHR 0x22] @ ''$POLICY'' @ [CHR 0x22] @ '' ] || exit 0'',
     [],
     ''# Nothing to say about a call that worked.'',
     ''case '' @ [CHR 0x22] @ ''$payload'' @ [CHR 0x22] @ '' in'',
     ''  *'' @ [CHR 0x27, CHR 0x22] @ ''success'' @ [CHR 0x22] @ '':true'' @ [CHR 0x27] @ ''*) exit 0 ;;'',
     ''esac'',
     [],
     ''# Only speak up for the error shapes the jail actually produces. Anything else'',
     ''# is an ordinary bug and the model is better off reasoning about it directly.'',
     ''case '' @ [CHR 0x22] @ ''$payload'' @ [CHR 0x22] @ '' in'',
     ''  *'' @ [CHR 0x22] @ ''No such file or directory'' @ [CHR 0x22] @ ''*|*'' @ [CHR 0x22] @ ''Permission denied'' @ [CHR 0x22] @ ''*|*'' @ [CHR 0x22] @ ''EACCES'' @ [CHR 0x22] @ ''*|*'' @ [CHR 0x22] @ ''ENOENT'' @ [CHR 0x22] @ ''*| '' @ [CHR 0x5C],
     ''  *'' @ [CHR 0x22] @ ''Operation not permitted'' @ [CHR 0x22] @ ''*|*'' @ [CHR 0x22] @ ''Connection refused'' @ [CHR 0x22] @ ''*|*'' @ [CHR 0x22] @ ''Network is unreachable'' @ [CHR 0x22] @ ''*) ;;'',
     ''  *) exit 0 ;;'',
     ''esac'',
     [],
     ''cat <<EOF'',
     ''{'' @ [CHR 0x22] @ ''hookSpecificOutput'' @ [CHR 0x22] @ '':{'' @ [CHR 0x22] @ ''hookEventName'' @ [CHR 0x22] @ '':'' @ [CHR 0x22] @ ''PostToolUse'' @ [CHR 0x22] @ '','' @ [CHR 0x22] @ ''additionalContext'' @ [CHR 0x22] @ '':$('',
     ''  jq -Rs . <<'' @ [CHR 0x27] @ ''CTX'' @ [CHR 0x27],
     ''That failure may be the azkaban sandbox, not a Unix permission problem or a'',
     ''missing file. sudo is inert here and chmod will not help.'',
     [],
     ''Run: /run/azkaban/azkaban why --path <the path> --op read|write --self --json'',
     [],
     ''If it says the path is not reachable, tell the user it is outside the jail'',
     ''rather than looking for another way to it. See /run/azkaban/README.md.'',
     ''CTX'',
     '')}}'',
     ''EOF'']"

text \<open>Every path of the policy is on a line of its own.\<close>

lemma guidance_lists_paths:
  assumes "q \<in> set (jp_writable p @ jp_readOnly p @ jp_persisted p @ jp_masked p)"
  shows "item q \<in> set (guidance_lines p)"
  using assms by (auto simp: guidance_lines_def writable_section_def text_section_def split: if_splits)

end
