(* ===== verification/Json.thy ===== *)
theory Json
  imports Prelude
begin

text \<open>
  What azkaban uses of \<open>encoding/json\<close>: values, and the decoding of a value into a Go struct (the
  text of values is the subject of \<open>Json_Text\<close>).  The filters rely on it: a member is found by name
  up to case, members are applied in order, \<open>null\<close> leaves a field alone (and clears a pointer, slice
  or map), an unknown member is ignored and a value of the wrong kind is an error (\<open>None\<close>).

  A decoder takes the value the field has before, as \<open>json.Unmarshal\<close> does.
\<close>

datatype json =
    JNull
  | JBool bool
  | JNum string
  | JStr string
  | JArr "json list"
  | JObj "(string \<times> json) list"

type_synonym 'a decoder = "json \<Rightarrow> 'a \<Rightarrow> 'a option"

fun dec_string :: "string decoder" where
  "dec_string JNull old = Some old"
| "dec_string (JStr s) old = Some s"
| "dec_string _ old = None"

fun dec_bool :: "bool decoder" where
  "dec_bool JNull old = Some old"
| "dec_bool (JBool b) old = Some b"
| "dec_bool _ old = None"

text \<open>\<open>json.RawMessage\<close> takes any value.\<close>

fun dec_raw :: "json decoder" where
  "dec_raw j old = Some j"

text \<open>
  A slice: an element is decoded into the one the field already has at that place (a member given
  twice), otherwise from the zero value.  An array shorter than the field's before it leaves data
  behind in the slice's capacity, which a third array for the same member could meet; that is not
  modelled.
\<close>

fun dec_elems :: "'a decoder \<Rightarrow> 'a \<Rightarrow> 'a list \<Rightarrow> json list \<Rightarrow> 'a list option" where
  "dec_elems d zero old [] = Some []"
| "dec_elems d zero old (j # js) =
     (case d j (case old of [] \<Rightarrow> zero | x # _ \<Rightarrow> x) of
        None \<Rightarrow> None
      | Some x \<Rightarrow> map_option (Cons x) (dec_elems d zero (tl old) js))"

fun dec_slice :: "'a decoder \<Rightarrow> 'a \<Rightarrow> 'a list decoder" where
  "dec_slice d zero JNull old = Some []"
| "dec_slice d zero (JArr js) old = dec_elems d zero old js"
| "dec_slice d zero _ old = None"

text \<open>A map from strings, in the order of the members; a later one replaces an earlier one.\<close>

fun put :: "string \<Rightarrow> 'a \<Rightarrow> (string \<times> 'a) list \<Rightarrow> (string \<times> 'a) list" where
  "put k v [] = [(k, v)]"
| "put k v ((k', v') # kvs) = (if k' = k then (k, v) # kvs else (k', v') # put k v kvs)"

fun dec_entries :: "'a decoder \<Rightarrow> 'a \<Rightarrow> (string \<times> json) list \<Rightarrow> (string \<times> 'a) list \<Rightarrow> (string \<times> 'a) list option" where
  "dec_entries d zero [] m = Some m"
| "dec_entries d zero ((k, j) # ms) m =
     (case d j zero of None \<Rightarrow> None | Some x \<Rightarrow> dec_entries d zero ms (put k x m))"

fun dec_map :: "'a decoder \<Rightarrow> 'a \<Rightarrow> (string \<times> 'a) list decoder" where
  "dec_map d zero JNull old = Some []"
| "dec_map d zero (JObj ms) old = dec_entries d zero ms old"
| "dec_map d zero _ old = None"

text \<open>A struct is given by one function per member; the members are applied in order.\<close>

fun dec_members :: "(string \<Rightarrow> 'a decoder) \<Rightarrow> (string \<times> json) list \<Rightarrow> 'a \<Rightarrow> 'a option" where
  "dec_members f [] s = Some s"
| "dec_members f ((k, j) # ms) s = (case f k j s of None \<Rightarrow> None | Some t \<Rightarrow> dec_members f ms t)"

fun dec_struct :: "(string \<Rightarrow> 'a decoder) \<Rightarrow> 'a decoder" where
  "dec_struct f JNull old = Some old"
| "dec_struct f (JObj ms) old = dec_members f ms old"
| "dec_struct f _ old = None"

text \<open>A pointer to a struct: \<open>null\<close> is the nil pointer, an object is decoded into what it points to.\<close>

fun dec_pointer :: "'a decoder \<Rightarrow> 'a \<Rightarrow> 'a option decoder" where
  "dec_pointer d zero JNull old = Some None"
| "dec_pointer d zero j old = map_option Some (d j (case old of None \<Rightarrow> zero | Some v \<Rightarrow> v))"

text \<open>One member of a struct: the field is read, decoded and written back.\<close>

definition field :: "'b decoder \<Rightarrow> ('a \<Rightarrow> 'b) \<Rightarrow> ('b \<Rightarrow> 'a \<Rightarrow> 'a) \<Rightarrow> 'a decoder" where
  "field d get set' j s = map_option (\<lambda>v. set' v s) (d j (get s))"

definition by_name :: "(string \<times> 'a decoder) list \<Rightarrow> string \<Rightarrow> 'a decoder" where
  "by_name fs k j s = (case find (\<lambda>(n, d). equal_fold n k) fs of None \<Rightarrow> Some s | Some (n, d) \<Rightarrow> d j s)"

lemma dec_elems_length: "dec_elems d zero old js = Some xs \<Longrightarrow> length xs = length js"
  by (induction d zero old js arbitrary: xs rule: dec_elems.induct) (auto split: option.splits)

lemma dec_members_append:
  "dec_members f (ms @ ms') s = (case dec_members f ms s of None \<Rightarrow> None | Some t \<Rightarrow> dec_members f ms' t)"
  by (induction f ms s rule: dec_members.induct) (auto split: option.splits)

lemma dec_members_invariant:
  assumes "dec_members f ms s = Some t" and "P s"
    and "\<And>k j s t. (k, j) \<in> set ms \<Longrightarrow> P s \<Longrightarrow> f k j s = Some t \<Longrightarrow> P t"
  shows "P t"
  using assms by (induction f ms s rule: dec_members.induct) (auto split: option.splits)

end
