(* ===== verification/Json_Text.thy ===== *)
theory Json_Text
  imports Json
begin

text \<open>
  The text of values, as far as azkaban relies on \<open>encoding/json\<close>: what \<open>json.Unmarshal\<close> accepts and
  what \<open>json.Marshal\<close> and \<open>json.MarshalIndent\<close> write.  Strings are byte strings.  Like the package, the
  reader replaces what is not UTF-8 by U+FFFD and refuses nesting beyond 10000; the writer escapes
  what must not appear raw, and the characters of HTML.  The main fact is that what is written is
  read back.
\<close>

section \<open>UTF-8\<close>

abbreviation byte_code :: "char \<Rightarrow> nat" where
  "byte_code c \<equiv> of_char c"

text \<open>The length of the valid encoding at the head of a string (0: there is none), \<open>utf8.DecodeRune\<close>.\<close>

definition in_range :: "nat \<Rightarrow> nat \<Rightarrow> char \<Rightarrow> bool" where
  "in_range lo hi c \<longleftrightarrow> lo \<le> byte_code c \<and> byte_code c \<le> hi"

abbreviation tail_byte :: "char \<Rightarrow> bool" where
  "tail_byte \<equiv> in_range 0x80 0xBF"

text \<open>What the first byte says: the length, and the range of the second byte.\<close>

definition rune_shape :: "char \<Rightarrow> (nat \<times> nat \<times> nat) option" where
  "rune_shape a =
     (if byte_code a < 0x80 then Some (1, 0, 0)
      else if in_range 0xC2 0xDF a then Some (2, 0x80, 0xBF)
      else if byte_code a = 0xE0 then Some (3, 0xA0, 0xBF)
      else if byte_code a = 0xED then Some (3, 0x80, 0x9F)
      else if in_range 0xE1 0xEF a then Some (3, 0x80, 0xBF)
      else if byte_code a = 0xF0 then Some (4, 0x90, 0xBF)
      else if in_range 0xF1 0xF3 a then Some (4, 0x80, 0xBF)
      else if byte_code a = 0xF4 then Some (4, 0x80, 0x8F)
      else None)"

definition rune_len :: "string \<Rightarrow> nat" where
  "rune_len s =
     (case s of
        [] \<Rightarrow> 0
      | a # _ \<Rightarrow>
          (case rune_shape a of
             None \<Rightarrow> 0
           | Some (n, lo, hi) \<Rightarrow>
               if n = 1 then 1
               else if n \<le> length s \<and> in_range lo hi (s ! 1) \<and> list_all tail_byte (drop 2 (take n s)) then n
               else 0))"

lemma rune_shape_len: "rune_shape a = Some (n, lo, hi) \<Longrightarrow> 1 \<le> n \<and> n \<le> 4 \<and> (n = 1 \<longleftrightarrow> byte_code a < 0x80)"
  by (auto simp: rune_shape_def split: if_splits)

lemma rune_len_Nil [simp]: "rune_len [] = 0"
  by (simp add: rune_len_def)

lemma rune_len_cases:
  assumes "0 < rune_len s"
  obtains a r n lo hi where "s = a # r" "rune_shape a = Some (n, lo, hi)" "rune_len s = n" "n \<le> length s"
    "n \<noteq> 1 \<Longrightarrow> in_range lo hi (s ! 1) \<and> list_all tail_byte (drop 2 (take n s))"
proof -
  obtain a r where s: "s = a # r" using assms by (cases s) auto
  obtain n lo hi where sh: "rune_shape a = Some (n, lo, hi)"
    using assms s by (cases "rune_shape a") (auto simp: rune_len_def)
  show thesis using that [OF s sh] assms s sh rune_shape_len [OF sh]
    by (auto simp: rune_len_def split: if_splits)
qed

lemma rune_len_le: "rune_len s \<le> length s"
  by (cases "0 < rune_len s") (auto elim: rune_len_cases)

lemma rune_len_ascii: "byte_code a < 0x80 \<Longrightarrow> rune_len (a # r) = 1"
  by (simp add: rune_len_def rune_shape_def)

lemma rune_len_take:
  assumes "0 < rune_len s"
  shows "rune_len (take (rune_len s) s @ t) = rune_len s"
proof -
  obtain a r n lo hi where s: "s = a # r" "rune_shape a = Some (n, lo, hi)" "rune_len s = n" "n \<le> length s"
    "n \<noteq> 1 \<Longrightarrow> in_range lo hi (s ! 1) \<and> list_all tail_byte (drop 2 (take n s))"
    using rune_len_cases [OF assms] by metis
  have n: "1 \<le> n" using rune_shape_len [OF s(2)] by simp
  have "take n s @ t = a # take (n - 1) r @ t" using s(1) n by (cases n) auto
  moreover have "n \<noteq> 1 \<Longrightarrow> (take n s @ t) ! 1 = s ! 1" using s(4) n by (simp add: nth_append)
  moreover have "take n (take n s @ t) = take n s" using s(4) by simp
  ultimately show ?thesis using s n by (auto simp: rune_len_def)
qed

function valid_utf8 :: "string \<Rightarrow> bool" where
  "valid_utf8 s = (if s = [] then True else if rune_len s = 0 then False else valid_utf8 (drop (rune_len s) s))"
  by pat_completeness auto
termination
  by (relation "measure length") auto

declare valid_utf8.simps [simp del]

text \<open>\<open>utf8.EncodeRune\<close> below 0x110000.\<close>

definition encode_rune :: "nat \<Rightarrow> string" where
  "encode_rune n =
     (if n < 0x80 then [char_of n]
      else if n < 0x800 then [char_of (0xC0 + n div 64), char_of (0x80 + n mod 64)]
      else if n < 0x10000 then [char_of (0xE0 + n div 4096), char_of (0x80 + n div 64 mod 64), char_of (0x80 + n mod 64)]
      else [char_of (0xF0 + n div 262144), char_of (0x80 + n div 4096 mod 64), char_of (0x80 + n div 64 mod 64),
            char_of (0x80 + n mod 64)])"

definition replacement :: string where
  "replacement = [CHR 0xEF, CHR 0xBF, CHR 0xBD]"

section \<open>Reading\<close>

abbreviation quote :: char where "quote \<equiv> CHR 0x22"
abbreviation backslash :: char where "backslash \<equiv> CHR 0x5C"

definition is_ws :: "char \<Rightarrow> bool" where
  "is_ws c = (c \<in> {CHR '' '', CHR 0x09, CHR 0x0A, CHR 0x0D})"

abbreviation skip_ws :: "string \<Rightarrow> string" where
  "skip_ws \<equiv> dropWhile is_ws"

definition hex_value :: "char \<Rightarrow> nat option" where
  "hex_value c =
     (if is_digit c then Some (digit_val c)
      else let n = byte_code (lower_char c) in if 97 \<le> n \<and> n \<le> 102 then Some (n - 87) else None)"

fun hex4 :: "string \<Rightarrow> (nat \<times> string) option" where
  "hex4 (a # b # c # d # r) =
     (case (hex_value a, hex_value b, hex_value c, hex_value d) of
        (Some w, Some x, Some y, Some z) \<Rightarrow> Some (((w * 16 + x) * 16 + y) * 16 + z, r)
      | _ \<Rightarrow> None)"
| "hex4 _ = None"

definition surrogate :: "nat \<Rightarrow> bool" where
  "surrogate n \<longleftrightarrow> 0xD800 \<le> n \<and> n < 0xE000"

text \<open>After the \<open>u\<close> of an escape; a surrogate counts only with its second half behind it.\<close>

definition unescape_u :: "string \<Rightarrow> (string \<times> string) option" where
  "unescape_u s =
     (case hex4 s of
        None \<Rightarrow> None
      | Some (n, r) \<Rightarrow>
          if \<not> surrogate n then Some (encode_rune n, r)
          else (case r of
                  b # u # r' \<Rightarrow>
                    (case (if b = backslash \<and> u = CHR ''u'' then hex4 r' else None) of
                       Some (m, r'') \<Rightarrow>
                         if n < 0xDC00 \<and> 0xDC00 \<le> m \<and> m < 0xE000
                         then Some (encode_rune (0x10000 + (n - 0xD800) * 1024 + (m - 0xDC00)), r'')
                         else Some (replacement, r)
                     | None \<Rightarrow> Some (replacement, r))
                | _ \<Rightarrow> Some (replacement, r)))"

definition simple_escapes :: "(char \<times> char) list" where
  "simple_escapes = [(quote, quote), (backslash, backslash), (CHR ''/'', CHR ''/''), (CHR ''b'', CHR 0x08),
     (CHR ''f'', CHR 0x0C), (CHR ''n'', CHR 0x0A), (CHR ''r'', CHR 0x0D), (CHR ''t'', CHR 0x09)]"

definition unescape :: "string \<Rightarrow> (string \<times> string) option" where
  "unescape s =
     (case s of
        [] \<Rightarrow> None
      | e # r \<Rightarrow>
          if e = CHR ''u'' then unescape_u r
          else map_option (\<lambda>c. ([c], r)) (map_of simple_escapes e))"

lemma hex4_shrinks: "hex4 s = Some (n, r) \<Longrightarrow> length r < length s"
  by (induction s rule: hex4.induct) (auto split: option.splits)

lemma unescape_shrinks: "unescape s = Some (t, r) \<Longrightarrow> length r < length s"
  by (auto simp: unescape_def unescape_u_def dest!: hex4_shrinks split: list.splits option.splits if_splits)

text \<open>The rest of a string after its opening quote.\<close>

function parse_str :: "string \<Rightarrow> (string \<times> string) option" where
  "parse_str s =
     (case s of
        [] \<Rightarrow> None
      | c # cs \<Rightarrow>
          if c = quote then Some ([], cs)
          else if c = backslash then
            (case unescape cs of
               None \<Rightarrow> None
             | Some (t, r) \<Rightarrow> map_option (\<lambda>(u, r'). (t @ u, r')) (parse_str r))
          else if byte_code c < 0x20 then None
          else if rune_len s = 0 then map_option (\<lambda>(u, r'). (replacement @ u, r')) (parse_str cs)
          else map_option (\<lambda>(u, r'). (take (rune_len s) s @ u, r')) (parse_str (drop (rune_len s) s)))"
  by pat_completeness auto
termination
  using rune_len_le by (relation "measure length") (auto dest: unescape_shrinks simp: le_eq_less_or_eq)

declare parse_str.simps [simp del]

text \<open>A number is read as far as the automaton of the scanner goes; the literal is kept.\<close>

datatype num_state = NumNeg | NumZero | NumInt | NumDot | NumFrac | NumE | NumSign | NumExp

definition num_step :: "num_state \<Rightarrow> char \<Rightarrow> num_state option" where
  "num_step st c = (case st of
      NumNeg \<Rightarrow> if c = CHR ''0'' then Some NumZero else if is_digit c then Some NumInt else None
    | NumDot \<Rightarrow> if is_digit c then Some NumFrac else None
    | NumSign \<Rightarrow> if is_digit c then Some NumExp else None
    | NumE \<Rightarrow> if c = CHR ''+'' \<or> c = CHR ''-'' then Some NumSign else if is_digit c then Some NumExp else None
    | NumExp \<Rightarrow> if is_digit c then Some NumExp else None
    | NumFrac \<Rightarrow> if is_digit c then Some NumFrac else if c = CHR ''e'' \<or> c = CHR ''E'' then Some NumE else None
    | NumInt \<Rightarrow> if is_digit c then Some NumInt else if c = CHR ''.'' then Some NumDot
        else if c = CHR ''e'' \<or> c = CHR ''E'' then Some NumE else None
    | NumZero \<Rightarrow> if c = CHR ''.'' then Some NumDot else if c = CHR ''e'' \<or> c = CHR ''E'' then Some NumE else None)"

definition num_final :: "num_state \<Rightarrow> bool" where
  "num_final st \<longleftrightarrow> st \<in> {NumZero, NumInt, NumFrac, NumExp}"

fun num_scan :: "num_state \<Rightarrow> string \<Rightarrow> (string \<times> string) option" where
  "num_scan st [] = (if num_final st then Some ([], []) else None)"
| "num_scan st (c # cs) =
     (case num_step st c of
        Some st' \<Rightarrow> map_option (\<lambda>(l, r). (c # l, r)) (num_scan st' cs)
      | None \<Rightarrow> if num_final st then Some ([], c # cs) else None)"

definition parse_num :: "string \<Rightarrow> (string \<times> string) option" where
  "parse_num s =
     (case s of
        [] \<Rightarrow> None
      | c # cs \<Rightarrow>
          if c = CHR ''-'' then map_option (\<lambda>(l, r). (c # l, r)) (num_scan NumNeg cs)
          else (case num_step NumNeg c of
                  None \<Rightarrow> None
                | Some st \<Rightarrow> map_option (\<lambda>(l, r). (c # l, r)) (num_scan st cs)))"

definition parse_lit :: "string \<Rightarrow> json \<Rightarrow> string \<Rightarrow> (json \<times> string) option" where
  "parse_lit lit j s = map_option (Pair j) (cut_prefix s lit)"

text \<open>
  Values.  The first number is fuel, of which twice the length of the text is enough (lemma
  \<open>parse_fuel\<close>); the second the nesting still allowed.
\<close>

definition cons_fst :: "'a \<Rightarrow> ('a list \<times> string) option \<Rightarrow> ('a list \<times> string) option" where
  "cons_fst x = map_option (\<lambda>(xs, r). (x # xs, r))"

definition bracketed :: "char \<Rightarrow> (nat \<Rightarrow> string \<Rightarrow> ('a list \<times> string) option) \<Rightarrow> nat \<Rightarrow> string \<Rightarrow> ('a list \<times> string) option" where
  "bracketed close items d s =
     (if d = 0 then None
      else (case skip_ws s of
              [] \<Rightarrow> None
            | e # r \<Rightarrow> if e = close then Some ([], r) else items (d - 1) (e # r)))"

definition value_at ::
  "(nat \<Rightarrow> string \<Rightarrow> (json list \<times> string) option) \<Rightarrow> (nat \<Rightarrow> string \<Rightarrow> ((string \<times> json) list \<times> string) option) \<Rightarrow>
     nat \<Rightarrow> string \<Rightarrow> (json \<times> string) option" where
  "value_at elems members d s =
     (case s of
        [] \<Rightarrow> None
      | c # cs \<Rightarrow>
          if c = CHR ''{'' then map_option (\<lambda>(ms, r). (JObj ms, r)) (bracketed (CHR ''}'') members d cs)
          else if c = CHR ''['' then map_option (\<lambda>(js, r). (JArr js, r)) (bracketed (CHR '']'') elems d cs)
          else if c = quote then map_option (\<lambda>(t, r). (JStr t, r)) (parse_str cs)
          else if c = CHR ''t'' then parse_lit ''true'' (JBool True) s
          else if c = CHR ''f'' then parse_lit ''false'' (JBool False) s
          else if c = CHR ''n'' then parse_lit ''null'' JNull s
          else map_option (\<lambda>(l, r). (JNum l, r)) (parse_num s))"

fun parse_value :: "nat \<Rightarrow> nat \<Rightarrow> string \<Rightarrow> (json \<times> string) option"
  and parse_elems :: "nat \<Rightarrow> nat \<Rightarrow> string \<Rightarrow> (json list \<times> string) option"
  and parse_members :: "nat \<Rightarrow> nat \<Rightarrow> string \<Rightarrow> ((string \<times> json) list \<times> string) option" where
  "parse_value 0 d s = None"
| "parse_value (Suc n) d s = value_at (parse_elems n) (parse_members n) d (skip_ws s)"
| "parse_elems 0 d s = None"
| "parse_elems (Suc n) d s =
     (case parse_value n d s of
        None \<Rightarrow> None
      | Some (j, r) \<Rightarrow>
          (case skip_ws r of
             [] \<Rightarrow> None
           | e # r \<Rightarrow> if e = CHR '','' then cons_fst j (parse_elems n d r)
                      else if e = CHR '']'' then Some ([j], r) else None))"
| "parse_members 0 d s = None"
| "parse_members (Suc n) d s =
     (case skip_ws s of
        [] \<Rightarrow> None
      | q # r \<Rightarrow>
          if q \<noteq> quote then None
          else (case parse_str r of
                  None \<Rightarrow> None
                | Some (k, r) \<Rightarrow>
                    (case skip_ws r of
                       [] \<Rightarrow> None
                     | e # r \<Rightarrow>
                         if e \<noteq> CHR '':'' then None
                         else (case parse_value n d r of
                                 None \<Rightarrow> None
                               | Some (j, r) \<Rightarrow>
                                   (case skip_ws r of
                                      [] \<Rightarrow> None
                                    | e # r \<Rightarrow> if e = CHR '','' then cons_fst (k, j) (parse_members n d r)
                                               else if e = CHR ''}'' then Some ([(k, j)], r) else None)))))"

declare parse_value.simps [simp del] parse_elems.simps [simp del] parse_members.simps [simp del]

definition maxNestingDepth :: nat where "maxNestingDepth = 10000"

definition json_parse :: "string \<Rightarrow> json option" where
  "json_parse s =
     (case parse_value (2 * length s + 1) maxNestingDepth s of
        None \<Rightarrow> None
      | Some (j, r) \<Rightarrow> if skip_ws r = [] then Some j else None)"

section \<open>Readers consume, and the fuel is enough\<close>

declare dropWhile_eq_Nil_conv [simp del]

lemma num_scan_splits: "num_scan st s = Some (l, r) \<Longrightarrow> s = l @ r"
  by (induction st s arbitrary: l rule: num_scan.induct) (auto split: option.splits if_splits)

lemma parse_num_shrinks: "parse_num s = Some (l, r) \<Longrightarrow> length r < length s"
  by (auto simp: parse_num_def dest!: num_scan_splits split: list.splits option.splits if_splits)

lemma skip_ws_len: "length (skip_ws s) \<le> length s"
  by (simp add: length_dropWhile_le)

lemma parse_str_simps:
  "parse_str [] = None"
  "parse_str (quote # cs) = Some ([], cs)"
  "parse_str (backslash # cs) = (case unescape cs of
     None \<Rightarrow> None | Some (t, r) \<Rightarrow> map_option (\<lambda>(u, r'). (t @ u, r')) (parse_str r))"
  by (simp_all add: parse_str.simps)

lemma parse_str_raw:
  assumes "c \<noteq> quote" and "c \<noteq> backslash"
  shows "parse_str (c # cs) = (if byte_code c < 0x20 then None
    else if rune_len (c # cs) = 0 then map_option (\<lambda>(u, r'). (replacement @ u, r')) (parse_str cs)
    else map_option (\<lambda>(u, r'). (take (rune_len (c # cs)) (c # cs) @ u, r')) (parse_str (drop (rune_len (c # cs)) (c # cs))))"
  using assms by (subst parse_str.simps) simp

lemma parse_str_shrinks: "parse_str s = Some (t, r) \<Longrightarrow> length r < length s"
proof (induction "length s" arbitrary: s t rule: less_induct)
  case less
  obtain c cs where s: "s = c # cs" using less.prems by (cases s) (auto simp: parse_str_simps)
  consider "c = quote" | "c = backslash" | "c \<noteq> quote" "c \<noteq> backslash" by blast
  then show ?case
  proof cases
    case 1
    then show ?thesis using less.prems s by (simp add: parse_str_simps)
  next
    case 2
    then obtain t' r' u where u: "unescape cs = Some (t', r')" "parse_str r' = Some (u, r)"
      using less.prems s by (auto simp: parse_str_simps split: option.splits)
    then show ?thesis using less.hyps [OF _ u(2)] unescape_shrinks [OF u(1)] s by fastforce
  next
    case 3
    note raw = parse_str_raw [OF 3, of cs]
    obtain u s' where "parse_str s' = Some (u, r)" and "length s' < length s"
      using less.prems raw s by (auto split: if_splits)
    then show ?thesis using less.hyps by fastforce
  qed
qed

lemma parse_lit_shrinks: "parse_lit lit v s = Some (j, r) \<Longrightarrow> lit \<noteq> [] \<Longrightarrow> length r < length s"
  by (auto simp: parse_lit_def cut_prefix_def prefix_def split: if_splits)

lemma skip_ws_Cons: "skip_ws s = c # r \<Longrightarrow> length r < length s"
  using skip_ws_len [of s] by simp

lemma bracketed_shrinks:
  assumes "bracketed close items d s = Some (xs, r)"
    and "\<And>d t xs r. items d t = Some (xs, r) \<Longrightarrow> length r < length t"
  shows "length r < length s"
proof -
  obtain e u where u: "skip_ws s = e # u" using assms(1) by (auto simp: bracketed_def split: if_splits list.splits)
  have "length (e # u) \<le> length s" using skip_ws_len [of s] u by simp
  moreover have "r = u \<or> items (d - 1) (e # u) = Some (xs, r)"
    using assms(1) u by (auto simp: bracketed_def split: if_splits)
  ultimately show ?thesis using assms(2) by fastforce
qed

lemma value_at_shrinks:
  assumes "value_at elems members d s = Some (j, r)"
    and "\<And>d t xs r. elems d t = Some (xs, r) \<Longrightarrow> length r < length t"
    and "\<And>d t xs r. members d t = Some (xs, r) \<Longrightarrow> length r < length t"
  shows "length r < length s"
  using assms(1)
  by (auto simp: value_at_def less_Suc_eq dest: bracketed_shrinks [OF _ assms(2)] bracketed_shrinks [OF _ assms(3)]
      dest!: parse_str_shrinks parse_num_shrinks parse_lit_shrinks split: list.splits if_splits)

lemma parse_shrinks:
  "parse_value n d s = Some (j, r) \<Longrightarrow> length r < length s"
  "parse_elems n d s = Some (js, r) \<Longrightarrow> length r < length s"
  "parse_members n d s = Some (ms, r) \<Longrightarrow> length r < length s"
proof (induction n d s and n d s and n d s arbitrary: j r and js r and ms r
    rule: parse_value_parse_elems_parse_members.induct)
  case (2 n d s)
  have "value_at (parse_elems n) (parse_members n) d (skip_ws s) = Some (j, r)"
    using "2.prems" by (simp add: parse_value.simps)
  then have "length r < length (skip_ws s)" by (rule value_at_shrinks) (rule "2.IH", assumption)+
  then show ?case using skip_ws_len [of s] by linarith
next
  case (4 n d s)
  then show ?case
    by (fastforce simp: parse_elems.simps cons_fst_def split: if_splits list.splits option.splits dest: skip_ws_Cons)
next
  case (6 n d s)
  then show ?case
    by (fastforce simp: parse_members.simps cons_fst_def split: if_splits list.splits option.splits
        dest: skip_ws_Cons parse_str_shrinks)
qed (simp_all add: parse_value.simps parse_elems.simps parse_members.simps)

lemma bracketed_cong:
  assumes "\<And>e r. skip_ws s = e # r \<Longrightarrow> items (d - 1) (e # r) = items' (d - 1) (e # r)"
  shows "bracketed close items d s = bracketed close items' d s"
  using assms by (simp add: bracketed_def split: list.split)

lemma value_at_cong:
  assumes "\<And>c cs. s = c # cs \<Longrightarrow> bracketed (CHR '']'') elems d cs = bracketed (CHR '']'') elems' d cs"
    and "\<And>c cs. s = c # cs \<Longrightarrow> bracketed (CHR ''}'') members d cs = bracketed (CHR ''}'') members' d cs"
  shows "value_at elems members d s = value_at elems' members' d s"
  using assms by (simp add: value_at_def split: list.split)

lemma parse_fuel:
  "2 * length s + 1 \<le> n \<Longrightarrow> 2 * length s + 1 \<le> m \<Longrightarrow> parse_value n d s = parse_value m d s"
  "2 * length s + 2 \<le> n \<Longrightarrow> 2 * length s + 2 \<le> m \<Longrightarrow> parse_elems n d s = parse_elems m d s"
  "2 * length s + 1 \<le> n \<Longrightarrow> 2 * length s + 1 \<le> m \<Longrightarrow> parse_members n d s = parse_members m d s"
proof (induction n d s and n d s and n d s arbitrary: m and m and m rule: parse_value_parse_elems_parse_members.induct)
  case (2 n d s)
  obtain m' where m: "m = Suc m'" using "2.prems"(2) by (cases m) auto
  have enough: "2 * length (e # r) + 2 \<le> n" "2 * length (e # r) + 2 \<le> m'"
    if "skip_ws s = c # cs" "skip_ws cs = e # r" for c cs e r
    using skip_ws_len [of cs] skip_ws_Cons [OF that(1)] that(2) "2.prems" m by simp_all
  have "value_at (parse_elems n) (parse_members n) d (skip_ws s) = value_at (parse_elems m') (parse_members m') d (skip_ws s)"
    by (intro value_at_cong bracketed_cong "2.IH"; frule (1) enough(1); frule (1) enough(2); simp)
  then show ?case by (simp add: parse_value.simps m)
next
  case (4 n d s)
  obtain m' where m: "m = Suc m'" using "4.prems"(2) by (cases m) auto
  have v: "parse_value n d s = parse_value m' d s"
    by (rule "4.IH"(1)) (use "4.prems" m in simp_all)
  show ?case
  proof (cases "parse_value n d s")
    case None
    then show ?thesis using v by (simp add: parse_elems.simps m)
  next
    case (Some jr)
    obtain j r1 where p: "parse_value n d s = Some (j, r1)" using Some by (cases jr) simp
    have more: "parse_elems n d r = parse_elems m' d r" if "skip_ws r1 = CHR '','' # r" for r
      by (rule "4.IH"(2) [OF p refl that refl])
        (use parse_shrinks(1) [OF p] skip_ws_Cons [OF that] "4.prems" m in simp_all)
    show ?thesis
      using more by (simp add: parse_elems.simps m p v [symmetric] split: list.split)
  qed
next
  case (6 n d s)
  obtain m' where m: "m = Suc m'" using "6.prems"(2) by (cases m) auto
  show ?case
  proof (cases "\<exists>r k r1 r2. skip_ws s = quote # r \<and> parse_str r = Some (k, r1) \<and> skip_ws r1 = CHR '':'' # r2")
    case True
    then obtain r k r1 r2 where c: "skip_ws s = quote # r" "parse_str r = Some (k, r1)" "skip_ws r1 = CHR '':'' # r2"
      by blast
    have l: "length r2 < length s"
      using skip_ws_Cons [OF c(1)] parse_str_shrinks [OF c(2)] skip_ws_Cons [OF c(3)] by simp
    have v: "parse_value n d r2 = parse_value m' d r2"
      by (rule "6.IH"(1) [OF c(1) _ c(2) refl c(3)]) (use l "6.prems" m in simp_all)
    have more: "parse_members n d t = parse_members m' d t"
      if "parse_value n d r2 = Some (j, r3)" "skip_ws r3 = CHR '','' # t" for j r3 t
      by (rule "6.IH"(2) [OF c(1) _ c(2) refl c(3) _ that(1) refl that(2) refl])
        (use parse_shrinks(1) [OF that(1)] skip_ws_Cons [OF that(2)] l "6.prems" m in simp_all)
    show ?thesis
      using more by (simp add: parse_members.simps m c v [symmetric] split: option.split list.split)
  next
    case False
    then have "parse_members k d s = None" for k
      by (cases k) (auto simp: parse_members.simps split: list.splits option.splits)
    then show ?thesis by simp
  qed
qed (simp_all)

lemma parse_value_enough:
  "parse_value n d s = Some r \<Longrightarrow> 2 * length s + 1 \<le> n \<Longrightarrow> parse_value (2 * length s + 1) d s = Some r"
  using parse_fuel(1) [of s n "2 * length s + 1" d] by simp

declare dropWhile_eq_Nil_conv [simp]

section \<open>Writing\<close>

text \<open>A byte below 0x80.\<close>

definition short_escapes :: "(char \<times> char) list" where
  "short_escapes = [(backslash, backslash), (quote, quote), (CHR 0x08, CHR ''b''), (CHR 0x0C, CHR ''f''),
     (CHR 0x0A, CHR ''n''), (CHR 0x0D, CHR ''r''), (CHR 0x09, CHR ''t'')]"

definition html_safe :: "char \<Rightarrow> bool" where
  "html_safe c \<longleftrightarrow> 0x20 \<le> byte_code c \<and> byte_code c < 0x80 \<and> c \<notin> set [quote, backslash, CHR ''<'', CHR ''>'', CHR ''&'']"

definition write_ascii :: "char \<Rightarrow> string" where
  "write_ascii c =
     (if html_safe c then [c]
      else (case map_of short_escapes c of
              Some e \<Rightarrow> [backslash, e]
            | None \<Rightarrow> [backslash, CHR ''u'', CHR ''0'', CHR ''0'', hex_digit (byte_code c div 16), hex_digit (byte_code c mod 16)]))"

text \<open>U+2028 and U+2029, which JavaScript takes for line ends.\<close>

definition line_ends :: "(string \<times> char) list" where
  "line_ends = [([CHR 0xE2, CHR 0x80, CHR 0xA8], CHR ''8''), ([CHR 0xE2, CHR 0x80, CHR 0xA9], CHR ''9'')]"

definition write_rune :: "string \<Rightarrow> string" where
  "write_rune u = (case map_of line_ends u of Some d \<Rightarrow> [backslash] @ ''u202'' @ [d] | None \<Rightarrow> u)"

function write_str :: "string \<Rightarrow> string" where
  "write_str s =
     (case s of
        [] \<Rightarrow> []
      | c # cs \<Rightarrow>
          if byte_code c < 0x80 then write_ascii c @ write_str cs
          else if rune_len s = 0 then [backslash] @ ''ufffd'' @ write_str cs
          else write_rune (take (rune_len s) s) @ write_str (drop (rune_len s) s))"
  by pat_completeness auto
termination
  by (relation "measure length") auto

declare write_str.simps [simp del]

definition quoted :: "string \<Rightarrow> string" where
  "quoted s = [quote] @ write_str s @ [quote]"

text \<open>
  A value: \<open>nl d\<close> is what the writer puts before an item at depth \<open>d\<close> and \<open>sp\<close> what it puts after a
  colon.  For \<open>Marshal\<close> both are empty, for \<open>MarshalIndent\<close> with two blanks a new line and a blank.
\<close>

fun write_json :: "(nat \<Rightarrow> string) \<Rightarrow> string \<Rightarrow> nat \<Rightarrow> json \<Rightarrow> string" where
  "write_json nl sp d JNull = ''null''"
| "write_json nl sp d (JBool b) = (if b then ''true'' else ''false'')"
| "write_json nl sp d (JNum l) = l"
| "write_json nl sp d (JStr s) = quoted s"
| "write_json nl sp d (JArr js) =
     (if js = [] then ''[]''
      else ''['' @ join_with '','' (map (\<lambda>j. nl (Suc d) @ write_json nl sp (Suc d) j) js) @ nl d @ '']'')"
| "write_json nl sp d (JObj ms) =
     (if ms = [] then ''{}''
      else ''{'' @ join_with '','' (map (\<lambda>(k, j). nl (Suc d) @ quoted k @ '':'' @ sp @ write_json nl sp (Suc d) j) ms) @
        nl d @ ''}'')"

definition json_marshal :: "json \<Rightarrow> string" where
  "json_marshal j = write_json (\<lambda>d. []) [] 0 j"

definition json_indent :: "json \<Rightarrow> string" where
  "json_indent j = write_json (\<lambda>d. CHR 0x0A # replicate (2 * d) (CHR '' '')) '' '' 0 j"

section \<open>What is written is read back\<close>

lemma less_16_cases:
  assumes "(n :: nat) < 16"
  shows "n \<in> {0, 1, 2, 3, 4, 5, 6, 7, 8, 9, 10, 11, 12, 13, 14, 15}"
  using assms by (simp only: insert_iff empty_iff) arith

lemma hex_value_digit: "n < 16 \<Longrightarrow> hex_value (hex_digit n) = Some n"
  using less_16_cases [of n]
  by (auto simp: hex_value_def hex_digit_def is_digit_def digit_val_def lower_char_def)

lemma unescape_code:
  assumes "byte_code c < 0x80"
  shows "unescape (CHR ''u'' # CHR ''0'' # CHR ''0'' # hex_digit (byte_code c div 16) # hex_digit (byte_code c mod 16) # r) = Some ([c], r)"
proof -
  have "hex_value (CHR ''0'') = Some 0" by (simp add: hex_value_def is_digit_def digit_val_def)
  moreover have "hex_value (hex_digit (byte_code c div 16)) = Some (byte_code c div 16)"
    using assms by (intro hex_value_digit) simp
  moreover have "hex_value (hex_digit (byte_code c mod 16)) = Some (byte_code c mod 16)" by (intro hex_value_digit) simp
  ultimately have "hex4 (CHR ''0'' # CHR ''0'' # hex_digit (byte_code c div 16) # hex_digit (byte_code c mod 16) # r) = Some (byte_code c, r)"
    by simp
  then show ?thesis using assms by (simp add: unescape_def unescape_u_def surrogate_def encode_rune_def)
qed

lemma short_escape_read: "map_of short_escapes c = Some e \<Longrightarrow> unescape (e # r) = Some ([c], r)"
  by (auto simp: short_escapes_def unescape_def simple_escapes_def split: if_splits)

lemma parse_write_ascii:
  assumes "byte_code c < 0x80"
  shows "parse_str (write_ascii c @ r) = map_option (\<lambda>(u, r'). (c # u, r')) (parse_str r)"
proof (cases "html_safe c")
  case True
  then show ?thesis by (simp add: write_ascii_def html_safe_def parse_str_raw rune_len_ascii)
next
  case False
  note raw = this
  show ?thesis
  proof (cases "map_of short_escapes c")
    case None
    then show ?thesis using raw unescape_code [OF assms] by (simp add: write_ascii_def parse_str_simps)
  next
    case (Some e)
    then show ?thesis using raw short_escape_read [OF Some] by (simp add: write_ascii_def parse_str_simps)
  qed
qed

lemma parse_write_rune:
  assumes "0 < rune_len s" and "\<not> byte_code (hd s) < 0x80"
  shows "parse_str (write_rune (take (rune_len s) s) @ r) =
    map_option (\<lambda>(u, r'). (take (rune_len s) s @ u, r')) (parse_str r)"
proof (cases "map_of line_ends (take (rune_len s) s)")
  case (Some d)
  then show ?thesis
    by (auto simp: write_rune_def line_ends_def parse_str_simps unescape_def unescape_u_def surrogate_def encode_rune_def
        hex_value_def is_digit_def digit_val_def lower_char_def char_of_def bit_Suc_0_iff split: if_splits)
next
  case None
  let ?n = "rune_len s"
  obtain c cs where s: "s = c # cs" using assms(1) by (cases s) auto
  have c: "c \<noteq> quote" "c \<noteq> backslash" "\<not> byte_code c < 0x20" using assms(2) s by auto
  have t: "take ?n s @ r = c # take (?n - 1) cs @ r" using s assms(1) by (cases ?n) auto
  have n: "rune_len (take ?n s @ r) = ?n" by (rule rune_len_take [OF assms(1)])
  have "parse_str (take ?n s @ r) = map_option (\<lambda>(u, r'). (take ?n (take ?n s @ r) @ u, r')) (parse_str (drop ?n (take ?n s @ r)))"
    unfolding t using parse_str_raw [OF c(1,2), of "take (?n - 1) cs @ r"] c(3) n assms(1) unfolding t by simp
  moreover have "take ?n (take ?n s @ r) = take ?n s" "drop ?n (take ?n s @ r) = r"
    using rune_len_le [of s] by simp_all
  ultimately have "parse_str (take ?n s @ r) = map_option (\<lambda>(u, r'). (take ?n s @ u, r')) (parse_str r)"
    by (simp only:)
  then show ?thesis using None by (simp add: write_rune_def)
qed

lemma parse_write_str:
  "valid_utf8 s \<Longrightarrow> parse_str (write_str s @ quote # rest) = Some (s, rest)"
proof (induction s rule: write_str.induct)
  case (1 s)
  show ?case
  proof (cases s)
    case Nil
    then show ?thesis by (simp add: write_str.simps parse_str_simps)
  next
    case (Cons c cs)
    have pos: "0 < rune_len s" and v: "valid_utf8 (drop (rune_len s) s)"
      using "1.prems" Cons by (auto simp: valid_utf8.simps [of "c # cs"] split: if_splits)
    show ?thesis
    proof (cases "byte_code c < 0x80")
      case True
      then have "valid_utf8 cs" using v Cons by (simp add: rune_len_ascii)
      then show ?thesis using "1.IH"(1) [OF Cons True] True Cons
        by (simp add: write_str.simps [of "c # cs"] parse_write_ascii)
    next
      case False
      then show ?thesis using "1.IH"(3) [OF Cons False _ v] pos Cons parse_write_rune [OF pos]
        by (simp add: write_str.simps [of "c # cs"])
    qed
  qed
qed

text \<open>What the writer may be given: UTF-8 strings, and literals that are numbers.\<close>

fun wf_json :: "json \<Rightarrow> bool" where
  "wf_json (JNum l) = (parse_num l = Some (l, []))"
| "wf_json (JStr s) = valid_utf8 s"
| "wf_json (JArr js) = list_all wf_json js"
| "wf_json (JObj ms) = list_all (\<lambda>(k, j). valid_utf8 k \<and> wf_json j) ms"
| "wf_json _ = True"

definition list_max :: "nat list \<Rightarrow> nat" where
  "list_max ns = foldr max ns 0"

lemma list_max_ge: "n \<in> set ns \<Longrightarrow> n \<le> list_max ns"
  by (induction ns) (auto simp: list_max_def)

fun json_depth :: "json \<Rightarrow> nat" where
  "json_depth (JArr js) = Suc (list_max (map json_depth js))"
| "json_depth (JObj ms) = Suc (list_max (map (\<lambda>(k, j). json_depth j) ms))"
| "json_depth _ = 0"

fun read_cost :: "json \<Rightarrow> nat" where
  "read_cost (JArr js) = Suc (sum_list (map (\<lambda>j. Suc (read_cost j)) js))"
| "read_cost (JObj ms) = Suc (sum_list (map (\<lambda>(k, j). Suc (read_cost j)) ms))"
| "read_cost _ = 1"

text \<open>Where a number ends.\<close>

definition stops :: "string \<Rightarrow> bool" where
  "stops r = (case r of [] \<Rightarrow> True | c # _ \<Rightarrow> \<not> is_digit c \<and> c \<notin> set ''.eE+-'')"

lemma zero_is_digit: "is_digit (CHR ''0'')"
  by (simp add: is_digit_def)

lemma stops_step: "stops (c # r) \<Longrightarrow> num_step st c = None"
  using zero_is_digit by (cases st) (auto simp: stops_def num_step_def)

lemma num_scan_append: "num_scan st l = Some (l, []) \<Longrightarrow> stops r \<Longrightarrow> num_scan st (l @ r) = Some (l, r)"
proof (induction st l rule: num_scan.induct)
  case (1 st)
  then show ?case by (cases r) (auto simp: stops_step split: if_splits)
qed (auto split: option.splits if_splits)

lemma parse_num_append:
  assumes "parse_num l = Some (l, [])" and "stops r"
  shows "parse_num (l @ r) = Some (l, r)"
proof -
  obtain c cs where l: "l = c # cs" using assms(1) by (cases l) (auto simp: parse_num_def)
  show ?thesis
  proof (cases "c = CHR ''-''")
    case True
    then have "num_scan NumNeg cs = Some (cs, [])" using assms(1) l by (auto simp: parse_num_def)
    then show ?thesis using num_scan_append [OF _ assms(2)] l True by (simp add: parse_num_def)
  next
    case False
    then obtain st where "num_step NumNeg c = Some st" "num_scan st cs = Some (cs, [])"
      using assms(1) l by (auto simp: parse_num_def split: option.splits)
    then show ?thesis using num_scan_append [OF _ assms(2)] l False by (simp add: parse_num_def)
  qed
qed

lemma parse_num_head:
  assumes "parse_num l = Some (l, [])"
  shows "\<exists>c cs. l = c # cs \<and> (c = CHR ''-'' \<or> is_digit c)"
  using assms by (auto simp: parse_num_def num_step_def is_digit_def split: list.splits option.splits if_splits)

lemma digit_chars: "is_digit c \<Longrightarrow> c \<notin> set [CHR ''{'', CHR ''['', quote, CHR ''t'', CHR ''f'', CHR ''n'', CHR '']''] \<and> \<not> is_ws c"
  by (auto simp: is_digit_def is_ws_def)

lemma skip_ws_append: "list_all is_ws w \<Longrightarrow> skip_ws (w @ s) = skip_ws s"
  by (simp add: list_all_iff dropWhile_append)

lemma parse_value_skip: "parse_value n d (skip_ws s) = parse_value n d s"
  by (cases n) (simp_all add: parse_value.simps)

lemma parse_value_ws: "list_all is_ws w \<Longrightarrow> parse_value n d (w @ s) = parse_value n d s"
  using parse_value_skip [of n d "w @ s"] parse_value_skip [of n d s] by (simp add: skip_ws_append)

lemma parse_elems_skip: "parse_elems n d (skip_ws s) = parse_elems n d s"
  by (cases n) (simp_all add: parse_elems.simps parse_value_skip)

lemma parse_members_skip: "parse_members n d (skip_ws s) = parse_members n d s"
  by (cases n) (simp_all add: parse_members.simps)

text \<open>The first character of a value is no blank and closes nothing.\<close>

lemma write_json_head:
  assumes "wf_json j"
  shows "\<exists>c cs. write_json nl sp d j = c # cs \<and> \<not> is_ws c \<and> c \<noteq> CHR '']''"
proof (cases j)
  case (JNum l)
  then show ?thesis using assms parse_num_head [of l] digit_chars by (fastforce simp: is_ws_def)
next
  case (JArr js)
  then show ?thesis by (cases "js = []") (simp_all add: is_ws_def)
next
  case (JObj ms)
  then show ?thesis by (cases "ms = []") (simp_all add: is_ws_def)
next
  case (JBool b)
  then show ?thesis by (cases b) (simp_all add: is_ws_def)
qed (simp_all add: quoted_def is_ws_def)

definition blanks :: "(nat \<Rightarrow> string) \<Rightarrow> string \<Rightarrow> bool" where
  "blanks nl sp \<longleftrightarrow> (\<forall>d. list_all is_ws (nl d)) \<and> list_all is_ws sp"

definition reads_back :: "(nat \<Rightarrow> string) \<Rightarrow> string \<Rightarrow> json \<Rightarrow> bool" where
  "reads_back nl sp j \<longleftrightarrow> (\<forall>d d' n rest. json_depth j \<le> d' \<longrightarrow> read_cost j \<le> n \<longrightarrow> stops rest \<longrightarrow>
     parse_value n d' (write_json nl sp d j @ rest) = Some (j, rest))"

text \<open>An item may be followed by a blank, a comma or the closing bracket.\<close>

lemma stops_ws: "list_all is_ws w \<Longrightarrow> stops r \<Longrightarrow> stops (w @ r)"
  by (cases w) (auto simp: stops_def is_ws_def is_digit_def)

lemma stops_marks: "stops (CHR '','' # r)" "stops (CHR '']'' # r)" "stops (CHR ''}'' # r)"
  by (simp_all add: stops_def is_digit_def)

lemma elems_read_back:
  assumes "blanks nl sp" and "js \<noteq> []" and "\<And>j. j \<in> set js \<Longrightarrow> reads_back nl sp j \<and> json_depth j \<le> d'"
    and "sum_list (map (\<lambda>j. Suc (read_cost j)) js) \<le> m" and "list_all is_ws w"
  shows "parse_elems m d' (join_with '','' (map (\<lambda>j. nl d @ write_json nl sp d j) js) @ w @ CHR '']'' # rest) = Some (js, rest)"
  using assms(2,3,4)
proof (induction js arbitrary: m)
  case (Cons j js)
  obtain k where m: "m = Suc k" using Cons.prems(3) by (cases m) auto
  have nl: "list_all is_ws (nl d)" using assms(1) by (simp add: blanks_def)
  have j: "reads_back nl sp j" "json_depth j \<le> d'" "read_cost j \<le> k" using Cons.prems m by auto
  have val: "parse_value k d' (nl d @ write_json nl sp d j @ r) = Some (j, r)" if "stops r" for r
    using j that by (simp add: parse_value_ws [OF nl] reads_back_def)
  show ?case
  proof (cases js)
    case Nil
    have "stops (w @ CHR '']'' # rest)" using stops_ws [OF assms(5)] stops_marks by blast
    then show ?thesis using Nil val
      by (simp add: m parse_elems.simps skip_ws_append [OF assms(5)] is_ws_def)
  next
    case (Cons j' js')
    have "parse_elems k d' (join_with '','' (map (\<lambda>j. nl d @ write_json nl sp d j) js) @ w @ CHR '']'' # rest) = Some (js, rest)"
      using Cons.IH [of k] Cons.prems Cons m by simp
    then show ?thesis using Cons val [OF stops_marks(1)]
      by (simp add: m parse_elems.simps is_ws_def cons_fst_def)
  qed
qed simp

lemma members_read_back:
  assumes "blanks nl sp" and "ms \<noteq> []"
    and "\<And>k j. (k, j) \<in> set ms \<Longrightarrow> valid_utf8 k \<and> reads_back nl sp j \<and> json_depth j \<le> d'"
    and "sum_list (map (\<lambda>(k, j). Suc (read_cost j)) ms) \<le> m" and "list_all is_ws w"
  shows "parse_members m d' (join_with '','' (map (\<lambda>(k, j). nl d @ quoted k @ '':'' @ sp @ write_json nl sp d j) ms) @
    w @ CHR ''}'' # rest) = Some (ms, rest)"
  using assms(2,3,4)
proof (induction ms arbitrary: m)
  case (Cons kj ms)
  obtain k j where kj: "kj = (k, j)" by (cases kj)
  obtain n where m: "m = Suc n" using Cons.prems(3) kj by (cases m) auto
  have nl: "list_all is_ws (nl d)" and sp: "list_all is_ws sp" using assms(1) by (simp_all add: blanks_def)
  have j: "valid_utf8 k" "reads_back nl sp j" "json_depth j \<le> d'" "read_cost j \<le> n" using Cons.prems kj m by auto
  have val: "parse_value n d' (sp @ write_json nl sp d j @ r) = Some (j, r)" if "stops r" for r
    using j that by (simp add: parse_value_ws [OF sp] reads_back_def)
  have key: "parse_str (write_str k @ quote # r) = Some (k, r)" for r using parse_write_str [OF j(1)] .
  show ?case
  proof (cases ms)
    case Nil
    have "stops (w @ CHR ''}'' # rest)" using stops_ws [OF assms(5)] stops_marks by blast
    then show ?thesis using Nil val key
      by (simp add: m kj parse_members.simps quoted_def skip_ws_append [OF assms(5)] skip_ws_append [OF nl] is_ws_def)
  next
    case (Cons kj' ms')
    have "parse_members n d' (join_with '','' (map (\<lambda>(k, j). nl d @ quoted k @ '':'' @ sp @ write_json nl sp d j) ms) @
        w @ CHR ''}'' # rest) = Some (ms, rest)"
    proof (rule Cons.IH)
      show "valid_utf8 k \<and> reads_back nl sp j \<and> json_depth j \<le> d'" if "(k, j) \<in> set ms" for k j
        using Cons.prems(2) [of k j] that by simp
    qed (use Cons.prems(3) Cons m kj in simp_all)
    then show ?thesis using Cons val [OF stops_marks(1)] key
      by (simp add: m kj parse_members.simps quoted_def skip_ws_append [OF nl] is_ws_def cons_fst_def)
  qed
qed simp

lemma reads_backI:
  assumes "\<And>d d' m rest. json_depth j \<le> d' \<Longrightarrow> read_cost j \<le> Suc m \<Longrightarrow> stops rest \<Longrightarrow>
    parse_value (Suc m) d' (write_json nl sp d j @ rest) = Some (j, rest)"
  shows "reads_back nl sp j"
  unfolding reads_back_def
proof (intro allI impI)
  fix d d' n rest assume "json_depth j \<le> d'" and n: "read_cost j \<le> n" and "stops rest"
  moreover have "0 < read_cost j" by (cases j) simp_all
  moreover obtain m where "n = Suc m" using n \<open>0 < read_cost j\<close> by (cases n) auto
  ultimately show "parse_value n d' (write_json nl sp d j @ rest) = Some (j, rest)" using assms by simp
qed

lemma array_reads_back:
  assumes "blanks nl sp" and "wf_json (JArr js)" and "\<And>j. j \<in> set js \<Longrightarrow> reads_back nl sp j"
  shows "reads_back nl sp (JArr js)"
proof (rule reads_backI)
  fix d d' m rest assume d': "json_depth (JArr js) \<le> d'" and n: "read_cost (JArr js) \<le> Suc m"
  obtain e where e: "d' = Suc e" using d' by (cases d') auto
  have nl: "list_all is_ws (nl k)" for k using assms(1) by (simp add: blanks_def)
  show "parse_value (Suc m) d' (write_json nl sp d (JArr js) @ rest) = Some (JArr js, rest)"
  proof (cases "js = []")
    case True
    then show ?thesis by (simp add: e parse_value.simps value_at_def bracketed_def is_ws_def)
  next
    case False
    let ?body = "join_with '','' (map (\<lambda>j. nl (Suc d) @ write_json nl sp (Suc d) j) js) @ nl d @ CHR '']'' # rest"
    have it: "reads_back nl sp j \<and> json_depth j \<le> e" if "j \<in> set js" for j
      using assms(3) [OF that] list_max_ge [of "json_depth j" "map json_depth js"] that d' e by simp
    have body: "parse_elems m e ?body = Some (js, rest)"
      by (rule elems_read_back [OF assms(1) False it _ nl]) (use n in simp_all)
    obtain j js' where js: "js = j # js'" using False by (cases js) auto
    obtain t where t: "?body = nl (Suc d) @ write_json nl sp (Suc d) j @ t"
      using js by (cases js') auto
    obtain c cs where c: "write_json nl sp (Suc d) j = c # cs" "\<not> is_ws c" "c \<noteq> CHR '']''"
      using write_json_head [of j nl sp "Suc d"] assms(2) js by auto
    have h: "skip_ws ?body = c # cs @ t" unfolding t using c by (simp add: skip_ws_append [OF nl])
    have "parse_elems m e (c # cs @ t) = Some (js, rest)"
      using body parse_elems_skip [of m e ?body] unfolding h by simp
    then have "bracketed (CHR '']'') (parse_elems m) d' ?body = Some (js, rest)"
      unfolding bracketed_def h using c e by simp
    then show ?thesis using False by (simp add: parse_value.simps value_at_def is_ws_def)
  qed
qed

lemma object_reads_back:
  assumes "blanks nl sp" and "wf_json (JObj ms)" and "\<And>k j. (k, j) \<in> set ms \<Longrightarrow> reads_back nl sp j"
  shows "reads_back nl sp (JObj ms)"
proof (rule reads_backI)
  fix d d' m rest assume d': "json_depth (JObj ms) \<le> d'" and n: "read_cost (JObj ms) \<le> Suc m"
  obtain e where e: "d' = Suc e" using d' by (cases d') auto
  have nl: "list_all is_ws (nl k)" for k using assms(1) by (simp add: blanks_def)
  show "parse_value (Suc m) d' (write_json nl sp d (JObj ms) @ rest) = Some (JObj ms, rest)"
  proof (cases "ms = []")
    case True
    then show ?thesis by (simp add: e parse_value.simps value_at_def bracketed_def is_ws_def)
  next
    case False
    let ?body = "join_with '','' (map (\<lambda>(k, j). nl (Suc d) @ quoted k @ '':'' @ sp @ write_json nl sp (Suc d) j) ms) @
      nl d @ CHR ''}'' # rest"
    have it: "valid_utf8 k \<and> reads_back nl sp j \<and> json_depth j \<le> e" if "(k, j) \<in> set ms" for k j
    proof -
      have "json_depth j \<in> set (map (\<lambda>(k, j). json_depth j) ms)" using that by force
      from list_max_ge [OF this] show ?thesis
        using assms(2) assms(3) [OF that] that d' e by (auto simp: list_all_iff)
    qed
    have body: "parse_members m e ?body = Some (ms, rest)"
      by (rule members_read_back [OF assms(1) False it _ nl]) (use n in simp_all)
    obtain k j ms' where ms: "ms = (k, j) # ms'" using False by (cases ms) auto
    obtain t where t: "?body = nl (Suc d) @ quote # t" using ms by (cases ms') (auto simp: quoted_def)
    have h: "skip_ws ?body = quote # t" unfolding t by (simp add: skip_ws_append [OF nl] is_ws_def)
    have "parse_members m e (quote # t) = Some (ms, rest)"
      using body parse_members_skip [of m e ?body] unfolding h by simp
    then have "bracketed (CHR ''}'') (parse_members m) d' ?body = Some (ms, rest)"
      unfolding bracketed_def h using e by simp
    then show ?thesis using False by (simp add: parse_value.simps value_at_def is_ws_def)
  qed
qed

lemma number_reads_back:
  assumes "wf_json (JNum l)"
  shows "reads_back nl sp (JNum l)"
proof (rule reads_backI)
  fix d d' m rest assume r: "stops rest"
  obtain c cs where l: "l = c # cs" "c = CHR ''-'' \<or> is_digit c" using assms parse_num_head [of l] by auto
  have "parse_num (l @ rest) = Some (l, rest)" using parse_num_append assms r by simp
  moreover have "value_at E M d' (l @ rest) = map_option (\<lambda>(l, r). (JNum l, r)) (parse_num (l @ rest))" for E M
    using l digit_chars [of c] by (elim disjE) (simp_all add: value_at_def)
  moreover have "skip_ws (l @ rest) = l @ rest"
    using l digit_chars [of c] by (elim disjE) (simp_all add: is_ws_def)
  ultimately show "parse_value (Suc m) d' (write_json nl sp d (JNum l) @ rest) = Some (JNum l, rest)"
    by (simp add: parse_value.simps)
qed

lemma literals_read_back: "reads_back nl sp JNull" "reads_back nl sp (JBool b)"
  by (rule reads_backI; simp add: parse_value.simps value_at_def is_ws_def parse_lit_def cut_prefix_def)+

lemma string_reads_back: "valid_utf8 s \<Longrightarrow> reads_back nl sp (JStr s)"
  by (rule reads_backI) (simp add: parse_value.simps value_at_def quoted_def is_ws_def parse_write_str)

lemma write_reads_back:
  assumes "blanks nl sp"
  shows "wf_json j \<Longrightarrow> reads_back nl sp j"
proof (induction j)
  case (JArr js)
  then show ?case by (intro array_reads_back [OF assms]) (auto simp: list_all_iff)
next
  case (JObj ms)
  then show ?case by (intro object_reads_back [OF assms]) (auto simp: list_all_iff)
qed (simp_all add: number_reads_back literals_read_back string_reads_back)

lemma json_read_back:
  assumes "wf_json j" and "json_depth j \<le> maxNestingDepth" and "blanks nl sp" and "list_all is_ws w"
  shows "json_parse (write_json nl sp 0 j @ w) = Some j"
proof -
  let ?s = "write_json nl sp 0 j @ w" and ?n = "read_cost j + (2 * length (write_json nl sp 0 j @ w) + 1)"
  have w: "skip_ws w = []" using assms(4) by (simp add: list_all_iff)
  have "stops (w @ [])" by (rule stops_ws [OF assms(4)]) (simp add: stops_def)
  then have "parse_value ?n maxNestingDepth ?s = Some (j, w)"
    using write_reads_back [OF assms(3,1)] assms(2) by (simp add: reads_back_def)
  then have "parse_value (2 * length ?s + 1) maxNestingDepth ?s = Some (j, w)"
    by (rule parse_value_enough) simp
  then show ?thesis using w by (simp only: json_parse_def option.case prod.case) simp
qed

lemma ascii_valid: "list_all (\<lambda>c. byte_code c < 0x80) s \<Longrightarrow> valid_utf8 s"
  by (induction s) (simp_all add: valid_utf8.simps rune_len_ascii)

lemma list_max_le: "list_max ns \<le> k \<longleftrightarrow> list_all (\<lambda>n. n \<le> k) ns"
  by (induction ns) (simp_all add: list_max_def)

section \<open>Values the program writes\<close>

definition int_text :: "int \<Rightarrow> string" where
  "int_text i = (if i < 0 then CHR ''-'' # itoa (nat (- i)) else itoa (nat i))"

definition strings_json :: "string list \<Rightarrow> json" where
  "strings_json xs = JArr (map JStr xs)"

definition nil_json :: "string list \<Rightarrow> json" where
  "nil_json xs = (if xs = [] then JNull else strings_json xs)"

lemma wf_strings_json: "wf_json (strings_json xs) = list_all valid_utf8 xs"
  by (simp add: strings_json_def list_all_iff)

lemma wf_nil_json: "wf_json (nil_json xs) = list_all valid_utf8 xs"
  by (simp add: nil_json_def wf_strings_json)

lemma depth_strings: "json_depth (strings_json xs) \<le> 1" "json_depth (nil_json xs) \<le> 1"
  using list_max_le [of "map (json_depth \<circ> JStr) xs" 0]
  by (simp_all add: strings_json_def nil_json_def list_all_iff)

section \<open>Written text is one line\<close>

lemma rune_bytes:
  assumes "0 < rune_len s" and "\<not> byte_code (hd s) < 0x80"
  shows "list_all tail_byte (drop 1 (take (rune_len s) s))" and "hd s = CHR 0xE2 \<Longrightarrow> rune_len s = 3"
proof -
  obtain a r n lo hi where s: "s = a # r" "rune_shape a = Some (n, lo, hi)" "rune_len s = n" "n \<le> length s"
    "n \<noteq> 1 \<Longrightarrow> in_range lo hi (s ! 1) \<and> list_all tail_byte (drop 2 (take n s))"
    using rune_len_cases [OF assms(1)] by metis
  have n: "n \<noteq> 1" "1 \<le> n" using rune_shape_len [OF s(2)] assms(2) s(1) by auto
  have lohi: "0x80 \<le> lo" "hi \<le> 0xBF" using s(2) assms(2) s(1) by (auto simp: rune_shape_def split: if_splits)
  obtain m where m: "n = Suc (Suc m)" using n by (metis One_nat_def Suc_le_D not_less_eq_eq le_antisym)
  obtain b r' where r: "r = b # r'" using s(1,4) m by (cases r) auto
  have "in_range lo hi b" "list_all tail_byte (take m r')" using s(1,5) n(1) m r by auto
  then show "list_all tail_byte (drop 1 (take (rune_len s) s))"
    using lohi s(1,3) m r by (auto simp: in_range_def)
  show "hd s = CHR 0xE2 \<Longrightarrow> rune_len s = 3" using s by (auto simp: rune_shape_def in_range_def)
qed

lemma newline_ascii: "byte_code c < 0x80 \<Longrightarrow> newline \<notin> set (write_ascii c)"
proof (cases "html_safe c")
  case False
  moreover assume c: "byte_code c < 0x80"
  have h: "newline \<noteq> hex_digit n" if "n < 16" for n
    using less_16_cases [OF that] by (auto simp: hex_digit_def)
  have "newline \<notin> set [backslash, CHR ''u'', CHR ''0'', CHR ''0'', hex_digit (byte_code c div 16), hex_digit (byte_code c mod 16)]"
    using c h by simp
  moreover have "map_of short_escapes c = Some e \<Longrightarrow> newline \<noteq> e" for e
    by (auto simp: short_escapes_def split: if_splits)
  ultimately show ?thesis by (auto simp: write_ascii_def split: option.split)
qed (auto simp: write_ascii_def html_safe_def)

lemma newline_rune:
  assumes "0 < rune_len s" and "\<not> byte_code (hd s) < 0x80"
  shows "newline \<notin> set (write_rune (take (rune_len s) s))"
proof (cases "map_of line_ends (take (rune_len s) s)")
  case None
  obtain c cs where s: "s = c # cs" using assms(1) by (cases s) auto
  have t: "take (rune_len s) s = c # drop 1 (take (rune_len s) s)" using s assms(1) by (cases "rune_len s") auto
  have "newline \<noteq> c" using assms(2) s by auto
  moreover have "newline \<notin> set (drop 1 (take (rune_len s) s))"
    using rune_bytes(1) [OF assms] by (auto simp: list_all_iff in_range_def)
  ultimately have "newline \<notin> set (take (rune_len s) s)" by (subst t) simp
  then show ?thesis using None by (simp add: write_rune_def)
qed (auto simp: write_rune_def line_ends_def split: if_splits)

lemma newline_str: "newline \<notin> set (write_str s)"
proof (induction s rule: write_str.induct)
  case (1 s)
  show ?case
  proof (cases s)
    case (Cons c cs)
    then show ?thesis
      using "1.IH" newline_ascii [of c] newline_rune [of s] by (simp add: write_str.simps [of "c # cs"])
  qed (simp add: write_str.simps)
qed

text \<open>Only the literal of a number is written as it is.\<close>

fun one_line :: "json \<Rightarrow> bool" where
  "one_line (JNum l) = (newline \<notin> set l)"
| "one_line (JArr js) = list_all one_line js"
| "one_line (JObj ms) = list_all (\<lambda>(k, j). one_line j) ms"
| "one_line j = True"

lemma newline_join: "newline \<notin> set (join_with '','' xs) \<longleftrightarrow> list_all (\<lambda>x. newline \<notin> set x) xs"
  by (induction xs rule: induct_list012) auto

lemma marshal_one_line: "one_line j \<Longrightarrow> newline \<notin> set (write_json (\<lambda>d. []) [] d j)"
proof (induction j arbitrary: d)
  case (JArr js)
  then show ?case by (auto simp: newline_join list_all_iff)
next
  case (JObj ms)
  have "newline \<notin> set (write_json (\<lambda>d. []) [] (Suc d) j)" if "(k, j) \<in> set ms" for k j
    using JObj.IH [of "(k, j)" j] JObj.prems that by (auto simp: list_all_iff)
  then show ?case by (auto simp: newline_join list_all_iff quoted_def newline_str)
qed (auto simp: quoted_def newline_str)

lemma int_text_one_line: "newline \<notin> set (int_text i)"
  using itoa_digits [of newline] by (auto simp: int_text_def is_digit_def)

end
