(* ===== verification/Json_Stream.thy ===== *)
theory Json_Stream
  imports Json_Text
begin

text \<open>
  What the container proxy uses of \<open>encoding/json\<close> beside \<open>Unmarshal\<close>: a decoder that takes one value
  from the front of a stream, or the items of a list one by one (\<open>Token\<close>, \<open>More\<close> and \<open>Decode\<close> into a
  \<open>RawMessage\<close>), and a list written from raw messages.
\<close>

section \<open>Reading\<close>

text \<open>\<open>json.Unmarshal\<close> of a body into a value that starts as \<open>zero\<close>.\<close>

definition unmarshal :: "'a decoder \<Rightarrow> 'a \<Rightarrow> string \<Rightarrow> 'a option" where
  "unmarshal d zero body = (case json_parse body of None \<Rightarrow> None | Some j \<Rightarrow> d j zero)"

definition json_first :: "string \<Rightarrow> (json \<times> string) option" where
  "json_first s = parse_value (2 * length s + 1) maxNestingDepth s"

text \<open>\<open>NewDecoder(...).Decode\<close>: the first value counts, whatever follows it.\<close>

definition decode_first :: "'a decoder \<Rightarrow> 'a \<Rightarrow> string \<Rightarrow> 'a option" where
  "decode_first d zero s = (case json_first s of None \<Rightarrow> None | Some (j, r) \<Rightarrow> d j zero)"

lemma json_first_shrinks: "json_first s = Some (j, r) \<Longrightarrow> length r < length s"
  by (simp add: json_first_def parse_shrinks(1))

text \<open>
  A value is complete at its closing bracket; any other one at the character after it, or at the end
  of the stream, unless the stream failed there.
\<close>

definition closes_itself :: "json \<Rightarrow> bool" where
  "closes_itself j = (case j of JArr js \<Rightarrow> True | JObj ms \<Rightarrow> True | _ \<Rightarrow> False)"

definition raw_value :: "bool \<Rightarrow> string \<Rightarrow> (json \<times> string \<times> string) option" where
  "raw_value ended s =
     (case json_first s of
        None \<Rightarrow> None
      | Some (j, r) \<Rightarrow> if r = [] \<and> \<not> ended \<and> \<not> closes_itself j then None
                       else Some (j, take (length s - length r) s, r))"

lemma raw_value_shrinks: "raw_value ended s = Some (j, t, r) \<Longrightarrow> length r < length s"
  by (auto simp: raw_value_def dest: json_first_shrinks split: option.splits if_splits)

lemma item_shrinks:
  assumes "skip_ws s = c # cs"
  shows "raw_value ended (skip_ws cs) = Some (j, t, r) \<Longrightarrow> length r < length s"
    and "raw_value ended (skip_ws (c # cs)) = Some (j, t, r) \<Longrightarrow> length r < length s"
    and "raw_value ended (skip_ws (if comma then cs else c # cs)) = Some (j, t, r) \<Longrightarrow> length r < length s"
  using raw_value_shrinks [of ended "skip_ws cs" j t r] raw_value_shrinks [of ended "skip_ws (c # cs)" j t r]
    skip_ws_len [of cs] skip_ws_len [of "c # cs"] skip_ws_len [of s] assms
  by (simp_all del: dropWhile.simps split: if_split_asm)

text \<open>
  The items after the first token: inside a list (\<open>arr\<close>) every item but the first has a comma before
  it (\<open>comma\<close>).  \<open>More\<close> is false at a closing bracket of either kind, at the end and at a failure of the
  stream.
\<close>

function stream_items :: "bool \<Rightarrow> bool \<Rightarrow> bool \<Rightarrow> string \<Rightarrow> (json \<times> string) list option" where
  "stream_items ended arr comma s =
     (case skip_ws s of
        [] \<Rightarrow> Some []
      | c # cs \<Rightarrow>
          if c = CHR '']'' \<or> c = CHR ''}'' then Some []
          else if comma \<and> c \<noteq> CHR '','' then None
          else (case raw_value ended (skip_ws (if comma then cs else c # cs)) of
                  None \<Rightarrow> None
                | Some (j, t, r) \<Rightarrow> map_option ((#) (j, t)) (stream_items ended arr arr r)))"
  by pat_completeness auto
termination
  by (relation "measure (\<lambda>(ended, arr, comma, s). length s)") (auto intro: item_shrinks(3))

declare stream_items.simps [simp del]

text \<open>
  The first token opens a list; of an object only the empty one has nothing that \<open>Decode\<close> refuses; and a
  scalar is itself taken for the token, so that what follows it is read as the items.
\<close>

definition list_items :: "bool \<Rightarrow> string \<Rightarrow> (json \<times> string) list option" where
  "list_items ended s =
     (case skip_ws s of
        [] \<Rightarrow> None
      | c # cs \<Rightarrow>
          if c = CHR ''['' then stream_items ended True False cs
          else if c = CHR ''{'' then
            (case skip_ws cs of
               [] \<Rightarrow> Some []
             | e # _ \<Rightarrow> if e = CHR '']'' \<or> e = CHR ''}'' then Some [] else None)
          else (case raw_value ended (c # cs) of
                  None \<Rightarrow> None
                | Some (j, t, r) \<Rightarrow> stream_items ended False False r))"

section \<open>Writing raw messages\<close>

text \<open>
  \<open>Marshal\<close> of a list of raw messages: each is compacted, that is, written without the blanks between
  its tokens, and with the characters escaped that HTML and JavaScript treat in their own way.
\<close>

definition after_char :: "bool \<times> bool \<Rightarrow> char \<Rightarrow> bool \<times> bool" where
  "after_char st c = (case st of (in_str, escaped) \<Rightarrow>
     if \<not> in_str then (c = quote, False)
     else if escaped then (True, False)
     else if c = quote then (False, False)
     else (True, c = backslash))"

function compact :: "bool \<times> bool \<Rightarrow> string \<Rightarrow> string" where
  "compact st s =
     (case s of
        [] \<Rightarrow> []
      | c # cs \<Rightarrow>
          (case map_of line_ends (take 3 s) of
             Some d \<Rightarrow> [backslash] @ ''u202'' @ [d] @ compact st (drop 3 s)
           | None \<Rightarrow>
               if c \<in> set [CHR ''<'', CHR ''>'', CHR ''&''] then write_ascii c @ compact (after_char st c) cs
               else if \<not> fst st \<and> is_ws c then compact st cs
               else c # compact (after_char st c) cs))"
  by pat_completeness auto
termination
  by (relation "measure (\<lambda>(st, s). length s)") auto

declare compact.simps [simp del]

definition marshal_raw :: "string list \<Rightarrow> string" where
  "marshal_raw ts = ''['' @ join_with '','' (map (compact (False, False)) ts) @ '']''"

section \<open>A written list is read item by item\<close>

lemma json_first_written:
  assumes "wf_json j" and "json_depth j \<le> maxNestingDepth" and "stops rest"
  shows "json_first (json_marshal j @ rest) = Some (j, rest)"
proof -
  let ?s = "json_marshal j @ rest" and ?n = "read_cost j + (2 * length (json_marshal j @ rest) + 1)"
  have "blanks (\<lambda>d. []) []" by (simp add: blanks_def)
  from write_reads_back [OF this assms(1)] have "parse_value ?n maxNestingDepth ?s = Some (j, rest)"
    using assms(2,3) by (simp add: reads_back_def json_marshal_def)
  then show ?thesis unfolding json_first_def by (rule parse_value_enough) simp
qed

lemma json_parse_written:
  assumes "wf_json j" and "json_depth j \<le> maxNestingDepth"
  shows "json_parse (json_marshal j) = Some j"
proof -
  have "blanks (\<lambda>d. []) []" by (simp add: blanks_def)
  from json_read_back [OF assms this, of "[]"] show ?thesis by (simp add: json_marshal_def)
qed

lemma raw_value_written:
  assumes "wf_json j" and "json_depth j \<le> maxNestingDepth" and "stops rest" and "rest \<noteq> []"
  shows "raw_value ended (json_marshal j @ rest) = Some (j, json_marshal j, rest)"
  using assms by (simp add: raw_value_def json_first_written)

lemma marshal_head:
  assumes "wf_json j"
  obtains c cs where "json_marshal j = c # cs" and "\<not> is_ws c" and "c \<noteq> CHR '']''"
  using write_json_head [OF assms, of "\<lambda>d. []" "[]" 0] by (auto simp: json_marshal_def)

lemma no_brace_head:
  assumes "wf_json j" and "json_marshal j = c # cs"
  shows "c \<noteq> CHR ''}''"
proof (cases j)
  case (JNum l)
  then obtain d ds where "l = d # ds" "d = CHR ''-'' \<or> is_digit d" using assms(1) parse_num_head [of l] by auto
  then show ?thesis using JNum assms(2) by (auto simp: json_marshal_def is_digit_def)
next
  case (JArr js)
  then show ?thesis using assms(2) by (cases "js = []") (auto simp: json_marshal_def)
next
  case (JObj ms)
  then show ?thesis using assms(2) by (cases "ms = []") (auto simp: json_marshal_def)
next
  case (JBool b)
  then show ?thesis using assms(2) by (cases b) (auto simp: json_marshal_def)
qed (use assms(2) in \<open>auto simp: json_marshal_def quoted_def\<close>)

lemma marshal_depth: "write_json (\<lambda>d. []) [] d j = write_json (\<lambda>d. []) [] d' j"
proof (induction j arbitrary: d d')
  case (JArr js)
  then have "map (write_json (\<lambda>d. []) [] (Suc d)) js = map (write_json (\<lambda>d. []) [] (Suc d')) js"
    by (intro map_cong refl)
  then show ?case by (simp only: write_json.simps append_Nil)
next
  case (JObj ms)
  have "map (\<lambda>(k, j). quoted k @ CHR '':'' # write_json (\<lambda>d. []) [] (Suc d) j) ms =
      map (\<lambda>(k, j). quoted k @ CHR '':'' # write_json (\<lambda>d. []) [] (Suc d') j) ms"
    by (intro map_cong refl) (auto intro!: JObj)
  then show ?case by (simp only: write_json.simps append_Nil append_Cons)
qed simp_all

lemma stream_written:
  assumes "list_all (\<lambda>j. wf_json j \<and> json_depth j \<le> maxNestingDepth) js" and "js \<noteq> []"
  shows "stream_items ended True comma ((if comma then '','' else []) @ join_with '','' (map json_marshal js) @ '']'') =
    Some (map (\<lambda>j. (j, json_marshal j)) js)"
  using assms
proof (induction js arbitrary: comma)
  case (Cons j js)
  obtain c cs where m: "json_marshal j = c # cs" "\<not> is_ws c" "c \<noteq> CHR '']''"
    using marshal_head Cons.prems by auto
  have b: "c \<noteq> CHR ''}''" using no_brace_head m(1) Cons.prems by auto
  show ?case
  proof (cases js)
    case Nil
    have "raw_value ended (json_marshal j @ '']'') = Some (j, json_marshal j, '']'')"
      by (rule raw_value_written) (use Cons.prems stops_marks(2) in auto)
    then show ?thesis using m b Nil
      by (subst stream_items.simps) (simp add: is_ws_def stream_items.simps [of ended True True])
  next
    case (Cons j' js')
    let ?r = "'','' @ join_with '','' (map json_marshal js) @ '']''"
    have "raw_value ended (json_marshal j @ ?r) = Some (j, json_marshal j, ?r)"
      by (rule raw_value_written) (use Cons.prems stops_marks(1) in auto)
    moreover have "stream_items ended True True ?r = Some (map (\<lambda>j. (j, json_marshal j)) js)"
      using Cons.IH [of True] Cons.prems local.Cons by simp
    ultimately show ?thesis using m b local.Cons
      by (subst stream_items.simps) (simp add: is_ws_def)
  qed
qed simp

lemma marshal_list:
  assumes "js \<noteq> []"
  shows "json_marshal (JArr js) = CHR ''['' # join_with '','' (map json_marshal js) @ '']''"
proof -
  have eq: "map (write_json (\<lambda>d. []) [] (Suc 0)) js = map json_marshal js"
    unfolding json_marshal_def by (intro map_cong refl) (rule marshal_depth)
  show ?thesis unfolding json_marshal_def [of "JArr js"] write_json.simps append_Nil eq using assms by simp
qed

lemma list_items_written:
  assumes "list_all (\<lambda>j. wf_json j \<and> json_depth j \<le> maxNestingDepth) js"
  shows "list_items ended (json_marshal (JArr js)) = Some (map (\<lambda>j. (j, json_marshal j)) js)"
proof (cases "js = []")
  case True
  then show ?thesis by (simp add: list_items_def json_marshal_def is_ws_def stream_items.simps)
next
  case False
  have "stream_items ended True False (join_with '','' (map json_marshal js) @ '']'') = Some (map (\<lambda>j. (j, json_marshal j)) js)"
    using stream_written [OF assms False, of ended False] by simp
  then show ?thesis by (simp add: marshal_list [OF False] list_items_def is_ws_def)
qed

section \<open>Written text is compact already\<close>

definition copied :: "bool \<times> bool \<Rightarrow> string \<Rightarrow> bool \<times> bool \<Rightarrow> bool" where
  "copied st s st' \<longleftrightarrow> (\<forall>rest. compact st (s @ rest) = s @ compact st' rest)"

lemma copied_Nil [simp]: "copied st [] st"
  by (simp add: copied_def)

lemma copied_append: "copied st s st' \<Longrightarrow> copied st' t st'' \<Longrightarrow> copied st (s @ t) st''"
  by (simp add: copied_def)

lemma copied_Cons:
  assumes "c \<noteq> CHR 0xE2" and "c \<notin> set [CHR ''<'', CHR ''>'', CHR ''&'']" and "fst st \<or> \<not> is_ws c"
    and "copied (after_char st c) s st'"
  shows "copied st (c # s) st'"
proof -
  have "map_of line_ends (take 3 (c # cs)) = None" for cs
    using assms(1) by (simp add: line_ends_def numeral_3_eq_3)
  then have "compact st (c # cs) = c # compact (after_char st c) cs" for cs
    using assms(2,3) by (subst compact.simps) (auto split: if_splits)
  with assms(4) show ?thesis by (simp add: copied_def)
qed

text \<open>Characters that leave the state as it is, inside a string and outside of one.\<close>

definition plain_in :: "char \<Rightarrow> bool" where
  "plain_in c \<longleftrightarrow> c \<notin> set [CHR 0xE2, CHR ''<'', CHR ''>'', CHR ''&'', quote, backslash]"

definition plain_out :: "char \<Rightarrow> bool" where
  "plain_out c \<longleftrightarrow> c \<notin> set [CHR 0xE2, CHR ''<'', CHR ''>'', CHR ''&'', quote] \<and> \<not> is_ws c"

lemma copied_in: "list_all plain_in s \<Longrightarrow> copied (True, False) s (True, False)"
  by (induction s) (auto simp: plain_in_def after_char_def intro!: copied_Cons)

lemma copied_out: "list_all plain_out s \<Longrightarrow> copied (False, False) s (False, False)"
  by (induction s) (auto simp: plain_out_def after_char_def intro!: copied_Cons)

lemma copied_escape:
  assumes "e \<notin> set [CHR 0xE2, CHR ''<'', CHR ''>'', CHR ''&'']" and "list_all plain_in s"
  shows "copied (True, False) (backslash # e # s) (True, False)"
  using assms copied_in [OF assms(2)] by (auto simp: after_char_def intro!: copied_Cons)

lemma hex_digit_plain: "n < 16 \<Longrightarrow> plain_in (hex_digit n)"
  using less_16_cases [of n] by (auto simp: hex_digit_def plain_in_def)

lemma copied_ascii:
  assumes "byte_code c < 0x80"
  shows "copied (True, False) (write_ascii c) (True, False)"
proof (cases "html_safe c")
  case True
  moreover have "c \<noteq> CHR 0xE2" using assms by auto
  ultimately have "plain_in c" by (simp add: html_safe_def plain_in_def)
  then show ?thesis using True copied_in [of "[c]"] by (simp add: write_ascii_def)
next
  case False
  have h: "plain_in (hex_digit (byte_code c div 16))" "plain_in (hex_digit (byte_code c mod 16))"
    using assms by (simp_all add: hex_digit_plain)
  show ?thesis
  proof (cases "map_of short_escapes c")
    case None
    have "plain_in (CHR ''0'')" by (simp add: plain_in_def)
    then show ?thesis using False None h by (simp add: write_ascii_def copied_escape)
  next
    case (Some e)
    then have "e \<notin> set [CHR 0xE2, CHR ''<'', CHR ''>'', CHR ''&'']"
      by (auto simp: short_escapes_def split: if_splits)
    then show ?thesis using False Some by (simp add: write_ascii_def copied_escape)
  qed
qed

lemma tail_plain: "tail_byte c \<Longrightarrow> plain_in c"
  by (auto simp: in_range_def plain_in_def)

lemma copied_rune:
  assumes "0 < rune_len s" and "\<not> byte_code (hd s) < 0x80"
  shows "copied (True, False) (write_rune (take (rune_len s) s)) (True, False)"
proof (cases "map_of line_ends (take (rune_len s) s)")
  case (Some d)
  then have "plain_in d" by (auto simp: line_ends_def plain_in_def split: if_splits)
  then show ?thesis using Some by (simp add: write_rune_def copied_escape plain_in_def)
next
  case None
  obtain c cs where s: "s = c # cs" using assms(1) by (cases s) auto
  let ?t = "drop 1 (take (rune_len s) s)"
  have t: "take (rune_len s) s = c # ?t" using s assms(1) by (cases "rune_len s") auto
  have "list_all plain_in ?t" using rune_bytes(1) [OF assms] tail_plain by (auto simp: list_all_iff)
  note tail = copied_in [OF this]
  have high: "c \<notin> set [CHR ''<'', CHR ''>'', CHR ''&'', quote, backslash]" using assms(2) s by auto
  have st: "after_char (True, False) c = (True, False)" using high by (simp add: after_char_def)
  have "copied (True, False) (c # ?t) (True, False)"
  proof (cases "c = CHR 0xE2")
    case True
    then have three: "rune_len s = 3" using rune_bytes(2) [OF assms] s by simp
    have "compact (True, False) ((c # ?t) @ rest) = c # compact (True, False) (?t @ rest)" for rest
    proof -
      have "length (c # ?t) = 3" using three rune_len_le [of s] t by (metis length_take min_absorb2)
      then have "take 3 ((c # ?t) @ rest) = c # ?t" by simp
      from this t [symmetric] have eq: "take 3 ((c # ?t) @ rest) = take (rune_len s) s" by (rule trans)
      have "map_of line_ends (take 3 ((c # ?t) @ rest)) = None" by (subst eq) (rule None)
      then show ?thesis using high st by (subst compact.simps) (auto split: if_splits)
    qed
    then show ?thesis using tail by (simp add: copied_def)
  next
    case False
    then show ?thesis using high st tail by (intro copied_Cons) auto
  qed
  then show ?thesis using None t by (simp add: write_rune_def)
qed

lemma copied_write_str: "valid_utf8 s \<Longrightarrow> copied (True, False) (write_str s) (True, False)"
proof (induction s rule: write_str.induct)
  case (1 s)
  show ?case
  proof (cases s)
    case Nil
    then show ?thesis by (simp add: write_str.simps)
  next
    case (Cons c cs)
    have pos: "0 < rune_len s" and v: "valid_utf8 (drop (rune_len s) s)"
      using "1.prems" Cons by (auto simp: valid_utf8.simps [of "c # cs"] split: if_splits)
    show ?thesis
    proof (cases "byte_code c < 0x80")
      case True
      then have "valid_utf8 cs" using v Cons by (simp add: rune_len_ascii)
      then show ?thesis using "1.IH"(1) [OF Cons True] True Cons
        by (simp add: write_str.simps [of "c # cs"] copied_append [OF copied_ascii])
    next
      case False
      then show ?thesis using "1.IH"(3) [OF Cons False _ v] pos Cons copied_rune [OF pos]
        by (simp add: write_str.simps [of "c # cs"] copied_append)
    qed
  qed
qed

lemma copied_quoted:
  assumes "valid_utf8 s"
  shows "copied (False, False) (quoted s) (False, False)"
proof -
  have "copied (False, False) [quote] (True, False)" "copied (True, False) [quote] (False, False)"
    by (auto simp: after_char_def is_ws_def intro!: copied_Cons)
  then show ?thesis unfolding quoted_def using copied_write_str [OF assms] copied_append by blast
qed

lemma num_step_plain: "num_step st c = Some st' \<Longrightarrow> plain_out c"
  by (cases st) (auto simp: num_step_def plain_out_def is_digit_def is_ws_def split: if_splits)

lemma num_scan_plain: "num_scan st s = Some (l, r) \<Longrightarrow> list_all plain_out l"
  by (induction st s arbitrary: l rule: num_scan.induct) (auto dest: num_step_plain split: option.splits if_splits)

lemma parse_num_plain: "parse_num s = Some (l, r) \<Longrightarrow> list_all plain_out l"
proof -
  have "plain_out (CHR ''-'')" by (simp add: plain_out_def is_ws_def)
  moreover assume "parse_num s = Some (l, r)"
  ultimately show ?thesis using num_step_plain num_scan_plain
    by (fastforce simp: parse_num_def split: list.splits option.splits if_splits)
qed

lemma copied_join:
  "(\<And>x. x \<in> set xs \<Longrightarrow> copied (False, False) x (False, False)) \<Longrightarrow>
     copied (False, False) (join_with '','' xs) (False, False)"
proof (induction xs)
  case (Cons x xs)
  have comma: "copied (False, False) '','' (False, False)" by (rule copied_out) (simp add: plain_out_def is_ws_def)
  show ?case
  proof (cases xs)
    case (Cons y ys)
    have "copied (False, False) (x @ '','' @ join_with '','' xs) (False, False)"
      using Cons.IH Cons.prems comma by (intro copied_append) auto
    then show ?thesis by (simp add: local.Cons)
  qed (use Cons.prems in simp)
qed simp

lemma copied_marshal: "wf_json j \<Longrightarrow> copied (False, False) (write_json (\<lambda>d. []) [] d j) (False, False)"
proof (induction j arbitrary: d)
  case (JArr js)
  have marks: "copied (False, False) ''['' (False, False)" "copied (False, False) '']'' (False, False)"
    "copied (False, False) ''[]'' (False, False)"
    by (rule copied_out; simp add: plain_out_def is_ws_def)+
  have "copied (False, False) (join_with '','' (map (\<lambda>j. write_json (\<lambda>d. []) [] (Suc d) j) js)) (False, False)"
    by (rule copied_join) (use JArr in \<open>auto simp: list_all_iff\<close>)
  from copied_append [OF marks(1) copied_append [OF this marks(2)]] marks(3) show ?case by simp
next
  case (JObj ms)
  have marks: "copied (False, False) ''{'' (False, False)" "copied (False, False) ''}'' (False, False)"
    "copied (False, False) ''{}'' (False, False)" "copied (False, False) '':'' (False, False)"
    by (rule copied_out; simp add: plain_out_def is_ws_def)+
  have member: "copied (False, False) (quoted k @ '':'' @ write_json (\<lambda>d. []) [] (Suc d) j) (False, False)"
    if "(k, j) \<in> set ms" for k j
    using JObj that by (intro copied_append [OF copied_quoted copied_append [OF marks(4)]]) (auto simp: list_all_iff)
  have "copied (False, False) (join_with '','' (map (\<lambda>(k, j). quoted k @ '':'' @ write_json (\<lambda>d. []) [] (Suc d) j) ms)) (False, False)"
    by (rule copied_join) (use member in auto)
  from copied_append [OF marks(1) copied_append [OF this marks(2)]] marks(3) show ?case by simp
next
  case (JBool b)
  show ?case by (cases b) (auto simp: plain_out_def is_ws_def intro!: copied_out)
next
  case JNull
  show ?case by (auto simp: plain_out_def is_ws_def intro!: copied_out)
next
  case (JNum l)
  then show ?case using parse_num_plain copied_out by simp
next
  case (JStr s)
  then show ?case using copied_quoted by simp
qed

lemma compact_marshal: "wf_json j \<Longrightarrow> compact (False, False) (json_marshal j) = json_marshal j"
proof -
  have "compact (False, False) [] = []" by (simp add: compact.simps)
  moreover assume "wf_json j"
  ultimately show ?thesis
    using copied_marshal [of j 0] by (simp add: copied_def json_marshal_def) (metis append_Nil2)
qed

lemma marshal_raw_written:
  assumes "list_all wf_json js"
  shows "marshal_raw (map json_marshal js) = json_marshal (JArr js)"
proof (cases "js = []")
  case False
  have eq: "map (compact (False, False)) (map json_marshal js) = map json_marshal js"
    using assms compact_marshal by (simp add: list_all_iff)
  show ?thesis unfolding marshal_raw_def eq by (simp add: marshal_list [OF False])
qed (simp add: marshal_raw_def json_marshal_def)

end
