(* ===== verification/Policy_Json.thy ===== *)
theory Policy_Json
  imports Guidance Json_Stream
begin

text \<open>
  The policy file of a jail (\<open>jailPolicy\<close> and its \<open>json\<close> in \<open>guidance.go\<close>): the value that is written,
  its text, and the decoding \<open>loadSelfPolicy\<close> (\<open>why.go\<close>) applies to it.  A list that \<open>presentUnder\<close>
  left empty is a nil slice and is written as null; the ports and hosts are left out when empty.
\<close>

definition policy_json :: "jailPolicy \<Rightarrow> json" where
  "policy_json p = JObj (
     [(''version'', JNum (int_text (jp_version p))), (''home'', JStr (jp_home p)), (''project'', JStr (jp_project p)),
      (''writable'', nil_json (jp_writable p)), (''read_only'', nil_json (jp_readOnly p)),
      (''persisted'', nil_json (jp_persisted p)), (''masked'', nil_json (jp_masked p)),
      (''overlay'', JBool (jp_overlay p)), (''landlock'', JBool (jp_landlock p)),
      (''network_isolated'', JBool (jp_netIsolate p))] @
     (if jp_netPorts p = [] then [] else [(''allowed_tcp_ports'', JStr (jp_netPorts p))]) @
     (if jp_netHosts p = [] then [] else [(''allowed_hosts'', strings_json (jp_netHosts p))]) @
     [(''env_forwarded'', strings_json (jp_envNames p))])"

text \<open>\<open>jailPolicy.json\<close>: \<open>MarshalIndent\<close> and a final new line.\<close>

definition policy_text :: "jailPolicy \<Rightarrow> string" where
  "policy_text p = json_indent (policy_json p) @ [newline]"

section \<open>Reading it\<close>

fun dec_int :: "int decoder" where
  "dec_int JNull old = Some old"
| "dec_int (JNum l) old = atoi l"
| "dec_int _ old = None"

definition zero_policy :: jailPolicy where
  "zero_policy = \<lparr>jp_version = 0, jp_home = [], jp_project = [], jp_writable = [], jp_readOnly = [],
     jp_persisted = [], jp_masked = [], jp_overlay = False, jp_landlock = False, jp_netIsolate = False,
     jp_netPorts = [], jp_netHosts = [], jp_envNames = []\<rparr>"

abbreviation dec_string_list :: "string list decoder" where
  "dec_string_list \<equiv> dec_slice dec_string []"

definition policy_fields :: "(string \<times> jailPolicy decoder) list" where
  "policy_fields =
     [(''version'', field dec_int jp_version (\<lambda>v p. p\<lparr>jp_version := v\<rparr>)),
      (''home'', field dec_string jp_home (\<lambda>v p. p\<lparr>jp_home := v\<rparr>)),
      (''project'', field dec_string jp_project (\<lambda>v p. p\<lparr>jp_project := v\<rparr>)),
      (''writable'', field dec_string_list jp_writable (\<lambda>v p. p\<lparr>jp_writable := v\<rparr>)),
      (''read_only'', field dec_string_list jp_readOnly (\<lambda>v p. p\<lparr>jp_readOnly := v\<rparr>)),
      (''persisted'', field dec_string_list jp_persisted (\<lambda>v p. p\<lparr>jp_persisted := v\<rparr>)),
      (''masked'', field dec_string_list jp_masked (\<lambda>v p. p\<lparr>jp_masked := v\<rparr>)),
      (''overlay'', field dec_bool jp_overlay (\<lambda>v p. p\<lparr>jp_overlay := v\<rparr>)),
      (''landlock'', field dec_bool jp_landlock (\<lambda>v p. p\<lparr>jp_landlock := v\<rparr>)),
      (''network_isolated'', field dec_bool jp_netIsolate (\<lambda>v p. p\<lparr>jp_netIsolate := v\<rparr>)),
      (''allowed_tcp_ports'', field dec_string jp_netPorts (\<lambda>v p. p\<lparr>jp_netPorts := v\<rparr>)),
      (''allowed_hosts'', field dec_string_list jp_netHosts (\<lambda>v p. p\<lparr>jp_netHosts := v\<rparr>)),
      (''env_forwarded'', field dec_string_list jp_envNames (\<lambda>v p. p\<lparr>jp_envNames := v\<rparr>))]"

definition dec_policy :: "jailPolicy decoder" where
  "dec_policy = dec_struct (by_name policy_fields)"

definition read_policy :: "string \<Rightarrow> jailPolicy option" where
  "read_policy content = unmarshal dec_policy zero_policy content"

section \<open>Laws\<close>

lemma dec_strings_json:
  "dec_string_list (strings_json xs) [] = Some xs"
  by (simp add: strings_json_def, induction xs) simp_all

lemma dec_nil_json: "dec_string_list (nil_json xs) [] = Some xs"
  by (simp add: nil_json_def dec_strings_json)

text \<open>Every name of the file finds its own field.\<close>

lemma policy_field_names:
  "by_name policy_fields ''version'' = field dec_int jp_version (\<lambda>v p. p\<lparr>jp_version := v\<rparr>)"
  "by_name policy_fields ''home'' = field dec_string jp_home (\<lambda>v p. p\<lparr>jp_home := v\<rparr>)"
  "by_name policy_fields ''project'' = field dec_string jp_project (\<lambda>v p. p\<lparr>jp_project := v\<rparr>)"
  "by_name policy_fields ''writable'' = field dec_string_list jp_writable (\<lambda>v p. p\<lparr>jp_writable := v\<rparr>)"
  "by_name policy_fields ''read_only'' = field dec_string_list jp_readOnly (\<lambda>v p. p\<lparr>jp_readOnly := v\<rparr>)"
  "by_name policy_fields ''persisted'' = field dec_string_list jp_persisted (\<lambda>v p. p\<lparr>jp_persisted := v\<rparr>)"
  "by_name policy_fields ''masked'' = field dec_string_list jp_masked (\<lambda>v p. p\<lparr>jp_masked := v\<rparr>)"
  "by_name policy_fields ''overlay'' = field dec_bool jp_overlay (\<lambda>v p. p\<lparr>jp_overlay := v\<rparr>)"
  "by_name policy_fields ''landlock'' = field dec_bool jp_landlock (\<lambda>v p. p\<lparr>jp_landlock := v\<rparr>)"
  "by_name policy_fields ''network_isolated'' = field dec_bool jp_netIsolate (\<lambda>v p. p\<lparr>jp_netIsolate := v\<rparr>)"
  "by_name policy_fields ''allowed_tcp_ports'' = field dec_string jp_netPorts (\<lambda>v p. p\<lparr>jp_netPorts := v\<rparr>)"
  "by_name policy_fields ''allowed_hosts'' = field dec_string_list jp_netHosts (\<lambda>v p. p\<lparr>jp_netHosts := v\<rparr>)"
  "by_name policy_fields ''env_forwarded'' = field dec_string_list jp_envNames (\<lambda>v p. p\<lparr>jp_envNames := v\<rparr>)"
  by (intro ext; simp add: by_name_def policy_fields_def equal_fold_def case_ascii upper_char_def)+

lemma itoa_one: "int_text 1 = ''1''" "atoi ''1'' = Some 1" "parse_num ''1'' = Some (''1'', [])"
proof -
  have "itoa 1 = ''1''" by (simp add: itoa.simps, code_simp)
  then show "int_text 1 = ''1''" by (simp add: int_text_def)
qed (simp_all add: atoi_def is_digit_def digit_val_def parse_num_def num_step_def num_final_def)

lemma dec_policy_json:
  assumes "jp_version p = 1"
  shows "dec_policy (policy_json p) zero_policy = Some p"
  using assms
  by (cases "jp_netPorts p = []"; cases "jp_netHosts p = []")
    (simp_all add: dec_policy_def policy_json_def policy_field_names field_def zero_policy_def dec_nil_json
      dec_strings_json itoa_one)

text \<open>Everything in the file is UTF-8, and the version is the one that is written.\<close>

definition policy_ok :: "jailPolicy \<Rightarrow> bool" where
  "policy_ok p \<longleftrightarrow> jp_version p = 1 \<and>
     list_all valid_utf8 ([jp_home p, jp_project p, jp_netPorts p] @ jp_writable p @ jp_readOnly p @ jp_persisted p @
       jp_masked p @ jp_netHosts p @ jp_envNames p)"

lemma wf_policy_json:
  assumes "policy_ok p"
  shows "wf_json (policy_json p)"
  using assms ascii_valid
  by (simp add: policy_json_def policy_ok_def wf_nil_json wf_strings_json itoa_one)

lemma depth_policy: "json_depth (policy_json p) \<le> 2"
  using depth_strings by (simp add: policy_json_def list_max_le) (simp add: le_Suc_eq)?

lemma indent_blanks: "blanks (\<lambda>d. newline # replicate (2 * d) (CHR '' '')) '' ''"
  by (simp add: blanks_def is_ws_def list_all_iff)

lemma policy_reads_back:
  assumes "policy_ok p"
  shows "read_policy (policy_text p) = Some p"
proof -
  have "json_parse (policy_text p) = Some (policy_json p)"
    unfolding policy_text_def json_indent_def
    by (rule json_read_back [OF wf_policy_json [OF assms] _ indent_blanks])
      (use depth_policy [of p] in \<open>simp_all add: maxNestingDepth_def is_ws_def\<close>)
  then show ?thesis using dec_policy_json assms by (simp add: read_policy_def unmarshal_def policy_ok_def)
qed

end
