(* ===== verification/Base64.thy ===== *)
theory Base64
  imports Prelude
begin

text \<open>
  Go's \<open>encoding/base64.StdEncoding\<close>, as \<open>base64Decode\<close> (\<open>egressproxy.go\<close>) and the GitHub header
  (\<open>credentialbroker.go\<close>) use it: the padded standard alphabet; the decoder skips carriage returns
  and newlines and refuses everything else outside the alphabet, a wrong length and padding that
  is not at the end.
\<close>

definition b64_alphabet :: string where
  "b64_alphabet = ''ABCDEFGHIJKLMNOPQRSTUVWXYZabcdefghijklmnopqrstuvwxyz0123456789+/''"

definition b64_char :: "nat \<Rightarrow> char" where
  "b64_char n = b64_alphabet ! n"

definition b64_val :: "char \<Rightarrow> nat option" where
  "b64_val c = find (\<lambda>n. b64_char n = c) [0..<64]"

abbreviation byte :: "char \<Rightarrow> nat" where
  "byte c \<equiv> of_char c"

fun b64_encode :: "string \<Rightarrow> string" where
  "b64_encode [] = []"
| "b64_encode [a] =
     [b64_char (byte a div 4), b64_char (byte a mod 4 * 16), CHR ''='', CHR ''='']"
| "b64_encode [a, b] =
     [b64_char (byte a div 4), b64_char (byte a mod 4 * 16 + byte b div 16),
      b64_char (byte b mod 16 * 4), CHR ''='']"
| "b64_encode (a # b # c # s) =
     [b64_char (byte a div 4), b64_char (byte a mod 4 * 16 + byte b div 16),
      b64_char (byte b mod 16 * 4 + byte c div 64), b64_char (byte c mod 64)] @ b64_encode s"

text \<open>The three bytes of four digits; the trailing bits of a short group are not checked.\<close>

definition byte1 :: "nat \<Rightarrow> nat \<Rightarrow> char" where
  "byte1 w x = char_of (w * 4 + x div 16)"

definition byte2 :: "nat \<Rightarrow> nat \<Rightarrow> char" where
  "byte2 x y = char_of (x mod 16 * 16 + y div 4)"

definition byte3 :: "nat \<Rightarrow> nat \<Rightarrow> char" where
  "byte3 y z = char_of (y mod 4 * 64 + z)"

fun b64_groups :: "string \<Rightarrow> string option" where
  "b64_groups [] = Some []"
| "b64_groups (a # b # c # d # s) =
     (case (b64_val a, b64_val b) of
        (Some w, Some x) \<Rightarrow>
          (if c = CHR ''='' then
             (if d = CHR ''='' \<and> s = [] then Some [byte1 w x] else None)
           else (case b64_val c of
             None \<Rightarrow> None
           | Some y \<Rightarrow>
               (if d = CHR ''='' then (if s = [] then Some [byte1 w x, byte2 x y] else None)
                else (case b64_val d of
                  None \<Rightarrow> None
                | Some z \<Rightarrow> map_option (\<lambda>r. [byte1 w x, byte2 x y, byte3 y z] @ r) (b64_groups s)))))
      | _ \<Rightarrow> None)"
| "b64_groups _ = None"

definition base64Decode :: "string \<Rightarrow> string option" where
  "base64Decode s = b64_groups (filter (\<lambda>c. c \<noteq> CHR 0x0A \<and> c \<noteq> CHR 0x0D) s)"

section \<open>The decoder inverts the encoder\<close>

lemma b64_table:
  "\<forall>n \<in> set [0..<64]. b64_val (b64_char n) = Some n \<and>
     b64_char n \<notin> {CHR ''='', CHR 0x0A, CHR 0x0D}"
  by code_simp

lemma b64_digit:
  assumes "n < 64"
  shows "b64_val (b64_char n) = Some n" and "b64_char n \<noteq> CHR ''=''"
    and "b64_char n \<noteq> CHR 0x0A" and "b64_char n \<noteq> CHR 0x0D"
  using assms b64_table by auto

lemma byte_bound: "byte c < 256"
  by (fact nat_of_char_less_256)

lemma sextets:
  "byte a div 4 < 64" "byte a mod 4 * 16 < 64" "byte a mod 4 * 16 + byte b div 16 < 64"
  "byte b mod 16 * 4 < 64" "byte b mod 16 * 4 + byte c div 64 < 64" "byte c mod 64 < 64"
  using byte_bound [of a] byte_bound [of b] byte_bound [of c] by linarith+

lemma bytes_of_sextets:
  "byte1 (byte a div 4) (byte a mod 4 * 16) = a"
  "byte1 (byte a div 4) (byte a mod 4 * 16 + byte b div 16) = a"
  "byte2 (byte a mod 4 * 16 + byte b div 16) (byte b mod 16 * 4) = b"
  "byte2 (byte a mod 4 * 16 + byte b div 16) (byte b mod 16 * 4 + byte c div 64) = b"
  "byte3 (byte b mod 16 * 4 + byte c div 64) (byte c mod 64) = c"
proof -
  have ch: "x = char_of (byte x)" for x :: char by simp
  note [simp] = byte_bound
  have b16: "byte b div 16 < 16" and c64: "byte c div 64 < 4"
    using byte_bound [of b] byte_bound [of c] by linarith+
  show "byte1 (byte a div 4) (byte a mod 4 * 16) = a"
    unfolding byte1_def by simp
  show "byte1 (byte a div 4) (byte a mod 4 * 16 + byte b div 16) = a"
    unfolding byte1_def using b16 by simp
  have q: "(byte a mod 4 * 16 + byte b div 16) mod 16 = byte b div 16" using b16 by simp
  show "byte2 (byte a mod 4 * 16 + byte b div 16) (byte b mod 16 * 4) = b"
    unfolding byte2_def q by simp
  show "byte2 (byte a mod 4 * 16 + byte b div 16) (byte b mod 16 * 4 + byte c div 64) = b"
    unfolding byte2_def q using c64 by simp
  have r: "(byte b mod 16 * 4 + byte c div 64) mod 4 = byte c div 64" using c64 by simp
  show "byte3 (byte b mod 16 * 4 + byte c div 64) (byte c mod 64) = c"
    unfolding byte3_def r by simp
qed

lemma b64_groups_encode: "b64_groups (b64_encode s) = Some s"
  by (induction s rule: b64_encode.induct)
    (simp_all add: b64_digit sextets bytes_of_sextets)

lemma b64_encode_no_newlines: "c \<in> set (b64_encode s) \<Longrightarrow> c \<noteq> CHR 0x0A \<and> c \<noteq> CHR 0x0D"
  by (induction s rule: b64_encode.induct) (auto simp: b64_digit sextets)

lemma base64_round_trip: "base64Decode (b64_encode s) = Some s"
proof -
  have "filter (\<lambda>c. c \<noteq> CHR 0x0A \<and> c \<noteq> CHR 0x0D) (b64_encode s) = b64_encode s"
    using b64_encode_no_newlines by (simp add: filter_id_conv)
  then show ?thesis by (simp add: base64Decode_def b64_groups_encode)
qed

end
