(* ===== verification/Http.thy ===== *)
theory Http
  imports Base64 "HOL-Library.AList"
begin

text \<open>
  What the proxies share: HTTP requests and header maps as Go's \<open>net/http\<close> represents them, the
  Basic credential (\<open>parseProxyAuth\<close>, \<open>subtleEqual\<close>, \<open>base64Decode\<close> of \<open>egressproxy.go\<close>) and the
  contract of a filtering proxy: whatever requests the jail sends, in any order, everything the
  proxy sends upstream satisfies its policy.
\<close>

section \<open>Header maps\<close>

type_synonym headers = "(string \<times> string list) list"

definition token_byte :: "char \<Rightarrow> bool" where
  "token_byte c = (c \<in> set ''!#$%&*+-.^_`|~'' \<or> c = CHR 0x27 \<or> is_digit c \<or>
     lower_char c \<noteq> c \<or> upper_char c \<noteq> c)"

fun canon_from :: "bool \<Rightarrow> string \<Rightarrow> string" where
  "canon_from up [] = []"
| "canon_from up (c # cs) = (if up then upper_char c else lower_char c) # canon_from (c = CHR ''-'') cs"

text \<open>\<open>textproto.CanonicalMIMEHeaderKey\<close>: a name with a byte that is no token byte is left alone.\<close>

definition canon_key :: "string \<Rightarrow> string" where
  "canon_key k = (if list_all token_byte k then canon_from True k else k)"

definition h_values :: "headers \<Rightarrow> string \<Rightarrow> string list" where
  "h_values hs k = (case map_of hs (canon_key k) of Some vs \<Rightarrow> vs | None \<Rightarrow> [])"

definition h_get :: "headers \<Rightarrow> string \<Rightarrow> string" where
  "h_get hs k = (case h_values hs k of [] \<Rightarrow> [] | v # _ \<Rightarrow> v)"

definition h_set :: "headers \<Rightarrow> string \<Rightarrow> string \<Rightarrow> headers" where
  "h_set hs k v = AList.update (canon_key k) [v] hs"

definition h_add :: "headers \<Rightarrow> string \<Rightarrow> string \<Rightarrow> headers" where
  "h_add hs k v = AList.update (canon_key k) (h_values hs k @ [v]) hs"

lemma h_values_set: "h_values (h_set hs k v) k' = (if canon_key k' = canon_key k then [v] else h_values hs k')"
  by (simp add: h_values_def h_set_def update_conv')

lemma h_values_add:
  "h_values (h_add hs k v) k' =
     (if canon_key k' = canon_key k then h_values hs k @ [v] else h_values hs k')"
  by (simp add: h_values_def h_add_def update_conv')

section \<open>Requests\<close>

record http_req =
  meth :: string
  urlPath :: string
  requestURI :: string
  reqHost :: string
  header :: headers

section \<open>The Basic credential\<close>

definition parseProxyAuth :: "string \<Rightarrow> (string \<times> string) option" where
  "parseProxyAuth hdr =
     (case cut_prefix hdr ''Basic '' of
        None \<Rightarrow> None
      | Some enc \<Rightarrow> (case base64Decode enc of
          None \<Rightarrow> None
        | Some raw \<Rightarrow> (case cut_at raw (CHR '':'') of (user, pass, ok) \<Rightarrow>
            if ok then Some (user, pass) else None)))"

text \<open>\<open>subtle.ConstantTimeCompare\<close>: lengths, then the disjunction of the byte differences.\<close>

definition subtleEqual :: "string \<Rightarrow> string \<Rightarrow> bool" where
  "subtleEqual a b =
     (length a = length b \<and>
      fold or (map2 (\<lambda>x y. xor (of_nat (of_char x)) (of_nat (of_char y)) :: 8 word) a b) 0 = 0)"

lemma fold_or_zero:
  fixes acc :: "'a :: len word"
  shows "fold or ws acc = 0 \<longleftrightarrow> acc = 0 \<and> (\<forall>w \<in> set ws. w = 0)"
  by (induction ws arbitrary: acc) (auto simp: or_eq_0_iff)

lemma xor_zero_iff: "xor a b = 0 \<longleftrightarrow> a = b" for a b :: "'a :: len word"
proof
  assume "xor a b = 0"
  then have "xor (xor a b) b = b" by simp
  then show "a = b" by (simp add: xor.assoc)
qed simp

lemma byte_word_inject: "(of_nat (of_char x) :: 8 word) = of_nat (of_char y) \<longleftrightarrow> x = y"
proof
  have u: "unat (of_nat (of_char c) :: 8 word) = of_char c" for c :: char
    using nat_of_char_less_256 [of c] by (simp add: unat_of_nat)
  assume "(of_nat (of_char x) :: 8 word) = of_nat (of_char y)"
  then have "(of_char x :: nat) = of_char y" by (metis u)
  then show "x = y" by simp
qed simp

lemma subtleEqual_iff: "subtleEqual a b \<longleftrightarrow> a = b"
proof -
  let ?d = "\<lambda>x y. xor (of_nat (of_char x)) (of_nat (of_char y)) :: 8 word"
  have "(\<forall>w \<in> set (map2 ?d a b). w = 0) \<longleftrightarrow> a = b" if "length a = length b"
    using that by (induction a b rule: list_induct2) (simp_all add: xor_zero_iff byte_word_inject)
  then show ?thesis unfolding subtleEqual_def fold_or_zero by auto
qed

lemma parseProxyAuth_round_trip:
  assumes "CHR '':'' \<notin> set user"
  shows "parseProxyAuth (''Basic '' @ b64_encode (user @ CHR '':'' # pass)) = Some (user, pass)"
proof -
  have "cut_at (user @ CHR '':'' # pass) (CHR '':'') = (user, pass, True)"
    using assms by (simp add: cut_at_found)
  moreover have "cut_prefix (''Basic '' @ e) ''Basic '' = Some e" for e
    by (simp only: cut_prefix_Some)
  ultimately show ?thesis by (simp only: parseProxyAuth_def base64_round_trip option.case prod.case if_True)
qed

section \<open>The per-run token\<close>

definition hex_encode :: "string \<Rightarrow> string" where
  "hex_encode s = concat (map (\<lambda>c. [hex_digit (of_char c div 16), hex_digit (of_char c mod 16)]) s)"

text \<open>\<open>proxyToken\<close>: 32 bytes of randomness (\<open>None\<close>: reading them failed), in hexadecimal.\<close>

definition proxyToken :: "string option \<Rightarrow> string option" where
  "proxyToken rand = map_option hex_encode rand"

section \<open>The contract of a filtering proxy\<close>

locale filtering_proxy =
  fixes handle :: "'s \<Rightarrow> 'req \<Rightarrow> 's \<times> 'up list"
    and inv :: "'s \<Rightarrow> bool"
    and ok :: "'s \<Rightarrow> 'up \<Rightarrow> bool"
  assumes keeps: "inv s \<Longrightarrow> inv (fst (handle s r))"
    and filters: "inv s \<Longrightarrow> u \<in> set (snd (handle s r)) \<Longrightarrow> ok s u"
begin

text \<open>A run: every upstream message with the state it was sent in, and the last state.\<close>

fun run :: "'s \<Rightarrow> 'req list \<Rightarrow> ('s \<times> 'up) list \<times> 's" where
  "run s [] = ([], s)"
| "run s (r # rs) =
     (case handle s r of (s', us) \<Rightarrow> case run s' rs of (tr, t) \<Rightarrow> (map (Pair s) us @ tr, t))"

lemma run_keeps: "inv s \<Longrightarrow> inv (snd (run s rs))"
proof (induction rs arbitrary: s)
  case (Cons r rs)
  obtain s' us where h: "handle s r = (s', us)" by fastforce
  then show ?case using Cons.IH [of s'] keeps [OF Cons.prems, of r] by (auto split: prod.splits)
qed simp

lemma run_filters: "inv s \<Longrightarrow> (t, u) \<in> set (fst (run s rs)) \<Longrightarrow> inv t \<and> ok t u"
proof (induction rs arbitrary: s)
  case (Cons r rs)
  obtain s' us where h: "handle s r = (s', us)" by fastforce
  obtain tr e where r: "run s' rs = (tr, e)" by fastforce
  from Cons.prems(2) h r consider "t = s" "u \<in> set us" | "(t, u) \<in> set tr" by auto
  then show ?case
  proof cases
    case 1
    then show ?thesis using filters [OF Cons.prems(1), of u r] h Cons.prems(1) by simp
  next
    case 2
    then show ?thesis using Cons.IH [of s'] keeps [OF Cons.prems(1), of r] h r by simp
  qed
qed simp

lemma run_append:
  "run s (rs @ rs') = (case run s rs of (tr, t) \<Rightarrow> case run t rs' of (tr', t') \<Rightarrow> (tr @ tr', t'))"
  by (induction rs arbitrary: s) (auto split: prod.splits)

end

end
