(* ===== verification/Broker.thy ===== *)
theory Broker
  imports Http Config
begin

text \<open>
  The credential broker (\<open>credentialbroker.go\<close>): the provider table, the route policy, the start of
  a broker on the host and the handler that replaces the client's credential by the secret.  A
  regular expression of the source has the shape \<open>/suffix$\<close> and is kept as its suffix.  The
  upstream exchange (\<open>http.DefaultClient.Do\<close>) is the parameter \<open>upstream\<close> of the handler, with
  its error text or its response; a redirect that the HTTP client follows is inside it.  The
  upstream URL is a constant and the request URI comes from a parsed request, so building the
  request is not modelled as an error.
\<close>

section \<open>Providers\<close>

record route =
  r_methods :: "string list"
  r_suffix :: string
  r_what :: string

definition route_matches :: "route \<Rightarrow> http_req \<Rightarrow> bool" where
  "route_matches rt req =
     (has_suffix (urlPath req) (r_suffix rt) \<and> list_ex (\<lambda>m. meth req = m) (r_methods rt))"

record provider =
  pv_name :: string
  pv_upstream :: string
  pv_env :: "string list"
  pv_header :: "string \<Rightarrow> string \<times> string"
  pv_allow :: "route list"
  pv_write :: "route list"
  pv_jail :: "string \<Rightarrow> (string \<times> string) list"

definition github :: provider where
  "github = \<lparr>pv_name = ''github'', pv_upstream = ''https://github.com'',
     pv_env = [''GH_TOKEN'', ''GITHUB_TOKEN''],
     pv_header = (\<lambda>secret. (''Authorization'', ''Basic '' @ b64_encode (''x-access-token:'' @ secret))),
     pv_allow = [
       \<lparr>r_methods = [''GET''], r_suffix = ''/info/refs'', r_what = ''ref discovery''\<rparr>,
       \<lparr>r_methods = [''POST''], r_suffix = ''/git-upload-pack'', r_what = ''clone and fetch''\<rparr>],
     pv_write = [\<lparr>r_methods = [''POST''], r_suffix = ''/git-receive-pack'', r_what = ''push''\<rparr>],
     pv_jail = (\<lambda>base. [(''GIT_CONFIG_COUNT'', ''1''),
       (''GIT_CONFIG_KEY_0'', ''url.'' @ base @ ''/.insteadOf''),
       (''GIT_CONFIG_VALUE_0'', ''https://github.com/'')])\<rparr>"

definition providers :: "string \<Rightarrow> provider option" where
  "providers name = (if name = ''github'' then Some github else None)"

section \<open>Starting a broker\<close>

record broker =
  b_addr :: string
  b_port :: nat
  b_token :: string
  b_provider :: provider
  b_secret :: string
  b_allow :: "route list"

datatype broker_error = UnknownProvider string | NoCredential string | NoRandom | ListenFailed

definition startCredentialBroker ::
  "host \<Rightarrow> string option \<Rightarrow> nat option \<Rightarrow> string \<Rightarrow> bool \<Rightarrow> broker_error + broker" where
  "startCredentialBroker h rand port name allowWrites =
     (case providers name of
        None \<Rightarrow> Inl (UnknownProvider name)
      | Some p \<Rightarrow>
          (case find (\<lambda>e. getenv h e \<noteq> []) (pv_env p) of
             None \<Rightarrow> Inl (NoCredential name)
           | Some e \<Rightarrow>
               (case proxyToken rand of
                  None \<Rightarrow> Inl NoRandom
                | Some token \<Rightarrow>
                    (case port of
                       None \<Rightarrow> Inl ListenFailed
                     | Some n \<Rightarrow> Inr \<lparr>b_addr = ''127.0.0.1:'' @ itoa n, b_port = n, b_token = token,
                         b_provider = p, b_secret = getenv h e,
                         b_allow = pv_allow p @ (if allowWrites then pv_write p else [])\<rparr>))))"

definition baseURL :: "broker \<Rightarrow> string" where
  "baseURL b = ''http://azkaban:'' @ b_token b @ ''@'' @ b_addr b"

definition jailEnv :: "broker \<Rightarrow> (string \<times> string) list" where
  "jailEnv b = pv_jail (b_provider b) (baseURL b)"

section \<open>The handler\<close>

text \<open>\<open>strings.Fields\<close> on ASCII white space.\<close>

definition fields :: "string \<Rightarrow> string list" where
  "fields s = fields_func is_space s"

datatype credential_error = NoProviderName | UnknownOption string

definition parseCredentialDirective :: "string \<Rightarrow> credential_error + string \<times> bool" where
  "parseCredentialDirective val =
     (case fields val of
        [] \<Rightarrow> Inl NoProviderName
      | name # opts \<Rightarrow>
          (case find (\<lambda>f. f \<noteq> ''write'') opts of
             Some f \<Rightarrow> Inl (UnknownOption f)
           | None \<Rightarrow> Inr (name, opts \<noteq> [])))"

definition hopByHop :: "string \<Rightarrow> bool" where
  "hopByHop name = (to_lower name \<in> set [''authorization'', ''proxy-authorization'', ''connection'',
     ''keep-alive'', ''proxy-authenticate'', ''te'', ''trailer'', ''transfer-encoding'', ''upgrade''])"

definition basicHeader :: "http_req \<Rightarrow> string" where
  "basicHeader r =
     (let hdr = h_get (header r) ''Authorization'' in
      if hdr \<noteq> [] then hdr else h_get (header r) ''Proxy-Authorization'')"

definition copy_headers :: "headers \<Rightarrow> headers" where
  "copy_headers hs =
     foldl (\<lambda>out (k, vs). if hopByHop k then out else foldl (\<lambda>o' v. h_add o' k v) out vs) [] hs"

record http_resp =
  status :: nat
  rheader :: headers
  body :: string

datatype broker_reply = ErrorReply nat string | Relay http_resp

datatype broker_event =
    BadSessionToken string
  | RouteDenied string string string string
  | UpstreamError string string
  | RouteAllowed string string string string nat

definition em_dash :: string where
  "em_dash = [CHR 0xE2, CHR 0x80, CHR 0x94]"

text \<open>The reason of a refusal; the last write route that matches names itself.\<close>

definition denial_reason :: "broker \<Rightarrow> http_req \<Rightarrow> string" where
  "denial_reason b r =
     foldl (\<lambda>reason rt. if route_matches rt r
         then r_what rt @ '' needs `credential '' @ pv_name (b_provider b) @ '' write` '' @ em_dash @
              '' the default policy is read-only on purpose''
         else reason)
       (meth r @ '' '' @ urlPath r @ '' is not on the broker''@ [CHR 0x27] @ ''s route policy'')
       (pv_write (b_provider b))"

text \<open>The request sent upstream, with the client's credential replaced by the secret.\<close>

definition upstream_request :: "broker \<Rightarrow> http_req \<Rightarrow> http_req" where
  "upstream_request b r =
     (case pv_header (b_provider b) (b_secret b) of (name, value) \<Rightarrow>
        r\<lparr>requestURI := pv_upstream (b_provider b) @ requestURI r,
          reqHost := trim_prefix (pv_upstream (b_provider b)) ''https://'',
          header := h_set (copy_headers (header r)) name value\<rparr>)"

definition matched_route :: "broker \<Rightarrow> http_req \<Rightarrow> string" where
  "matched_route b r = (case find (\<lambda>rt. route_matches rt r) (b_allow b) of
     Some rt \<Rightarrow> r_what rt | None \<Rightarrow> [])"

definition broker_authorized :: "broker \<Rightarrow> http_req \<Rightarrow> bool" where
  "broker_authorized b r = (case parseProxyAuth (basicHeader r) of
     Some (user, pass) \<Rightarrow> subtleEqual pass (b_token b) | None \<Rightarrow> False)"

text \<open>The events, the reply to the jail and the requests sent upstream.\<close>

definition broker_serve ::
  "broker \<Rightarrow> (http_req \<Rightarrow> string + http_resp) \<Rightarrow> http_req \<Rightarrow>
     broker_event list \<times> broker_reply \<times> http_req list" where
  "broker_serve b upstream r =
     (let name = pv_name (b_provider b) in
      if \<not> broker_authorized b r then
        ([BadSessionToken name], ErrorReply 401 ''azkaban credential broker: not authorized'', [])
      else if matched_route b r = [] then
        (let reason = denial_reason b r in
         ([RouteDenied name (meth r) (urlPath r) reason],
          ErrorReply 403 (''azkaban credential broker: '' @ reason), []))
      else (let out = upstream_request b r in
        (case upstream out of
           Inl err \<Rightarrow> ([UpstreamError name err],
             ErrorReply 502 (''azkaban credential broker: upstream: '' @ err), [out])
         | Inr resp \<Rightarrow>
             ([RouteAllowed name (matched_route b r) (meth r) (urlPath r) (status resp)],
              Relay (resp\<lparr>rheader := copy_headers (rheader resp)\<rparr>), [out]))))"

definition broker_handle ::
  "broker \<Rightarrow> broker_event list \<Rightarrow> (http_req \<Rightarrow> string + http_resp) \<times> http_req \<Rightarrow>
     broker_event list \<times> http_req list" where
  "broker_handle b log q = (case q of (upstream, r) \<Rightarrow>
     case broker_serve b upstream r of (evs, reply, ups) \<Rightarrow> (log @ evs, ups))"

section \<open>Headers\<close>

lemma lower_lower: "lower_char (lower_char c) = lower_char c"
  by (simp add: lower_char_def Let_def)

lemma lower_upper: "lower_char (upper_char c) = lower_char c"
  by (auto simp: lower_char_def upper_char_def Let_def)

lemma token_ascii: "token_byte c \<Longrightarrow> ascii [c, lower_char c, upper_char c]"
  by (rule ascii_below_128)
    (auto simp: token_byte_def is_digit_def lower_char_def upper_char_def Let_def split: if_splits)

lemma to_lower_canon: "to_lower (canon_key k) = to_lower k"
proof -
  have "map lower_char (canon_from up k) = map lower_char k" for up
    by (induction up k rule: canon_from.induct) (auto simp: lower_lower lower_upper)
  moreover have "ascii k \<and> ascii (canon_from up k)" if "list_all token_byte k" for up
    using that by (induction up k rule: canon_from.induct) (use token_ascii in \<open>auto\<close>)
  ultimately show ?thesis by (simp add: canon_key_def case_ascii)
qed

lemma hopByHop_canon: "canon_key k = canon_key k' \<Longrightarrow> hopByHop k = hopByHop k'"
  by (metis hopByHop_def to_lower_canon)

lemma h_values_adds:
  "h_values (foldl (\<lambda>o' v. h_add o' k v) out vs) k' =
     h_values out k' @ (if canon_key k' = canon_key k then vs else [])"
proof (induction vs arbitrary: out)
  case (Cons v vs)
  have "canon_key k' = canon_key k \<Longrightarrow> h_values out k = h_values out k'"
    by (simp add: h_values_def)
  with Cons show ?case by (auto simp: h_values_add)
qed simp

lemma copy_headers_from:
  "h_values (foldl (\<lambda>out (k, vs). if hopByHop k then out else foldl (\<lambda>o' v. h_add o' k v) out vs) out hs) k' =
     h_values out k' @
     (if hopByHop k' then [] else concat (map snd (filter (\<lambda>(k, vs). canon_key k = canon_key k') hs)))"
proof (induction hs arbitrary: out)
  case (Cons x hs)
  obtain k vs where x: "x = (k, vs)" by (cases x)
  show ?case
  proof (cases "canon_key k' = canon_key k")
    case True
    then have "hopByHop k = hopByHop k'" using hopByHop_canon by metis
    with True x show ?thesis by (simp add: Cons.IH h_values_adds)
  next
    case False
    with x show ?thesis by (auto simp: Cons.IH h_values_adds)
  qed
qed simp

lemma copy_headers_values:
  "h_values (copy_headers hs) k =
     (if hopByHop k then [] else concat (map snd (filter (\<lambda>(k', vs). canon_key k' = canon_key k) hs)))"
  unfolding copy_headers_def copy_headers_from by (simp add: h_values_def)

section \<open>What reaches the upstream\<close>

definition route_policy :: "broker \<Rightarrow> broker_event list \<Rightarrow> http_req \<Rightarrow> bool" where
  "route_policy b log u = (\<exists>rt \<in> set (b_allow b). route_matches rt u)"

lemma broker_serve_upstream:
  assumes "u \<in> set (snd (snd (broker_serve b upstream r)))"
  shows "broker_authorized b r" and "u = upstream_request b r"
    and "\<exists>rt. rt \<in> set (b_allow b) \<and> route_matches rt r"
proof -
  from assms have a: "broker_authorized b r \<and> u = upstream_request b r \<and> matched_route b r \<noteq> []"
    by (auto simp: broker_serve_def Let_def split: if_splits sum.splits)
  then show "broker_authorized b r" and "u = upstream_request b r" by blast+
  from a obtain rt where "find (\<lambda>rt. route_matches rt r) (b_allow b) = Some rt"
    by (auto simp: matched_route_def split: option.splits)
  then show "\<exists>rt. rt \<in> set (b_allow b) \<and> route_matches rt r"
    by (auto simp: find_Some_iff intro: nth_mem)
qed

lemma upstream_request_route: "route_matches rt (upstream_request b r) = route_matches rt r"
  by (simp add: upstream_request_def route_matches_def split: prod.splits)

interpretation broker_filter: filtering_proxy "broker_handle b" "\<lambda>log. True" "route_policy b"
proof unfold_locales
  fix log q u assume "u \<in> set (snd (broker_handle b log q))"
  then have "u \<in> set (snd (snd (broker_serve b (fst q) (snd q))))"
    by (auto simp: broker_handle_def split: prod.splits)
  then show "route_policy b log u"
    using broker_serve_upstream(2,3) [of u b "fst q" "snd q"] upstream_request_route
    unfolding route_policy_def by fastforce
qed simp

section \<open>Properties\<close>

lemma started_github:
  assumes "startCredentialBroker h rand port name w = Inr b"
  shows "b_provider b = github" and "b_allow b = pv_allow github @ (if w then pv_write github else [])"
    and "\<exists>e. e \<in> {''GH_TOKEN'', ''GITHUB_TOKEN''} \<and> b_secret b = getenv h e \<and> b_secret b \<noteq> []"
proof -
  from assms have n: "name = ''github''"
    by (auto simp: startCredentialBroker_def providers_def split: option.splits if_splits)
  from assms obtain e where e: "find (\<lambda>e. getenv h e \<noteq> []) (pv_env github) = Some e" and
    b: "b_provider b = github" "b_allow b = pv_allow github @ (if w then pv_write github else [])"
      "b_secret b = getenv h e"
    by (auto simp: startCredentialBroker_def providers_def split: option.splits if_splits)
  show "b_provider b = github" and "b_allow b = pv_allow github @ (if w then pv_write github else [])"
    by (fact b)+
  have "e \<in> set (pv_env github) \<and> getenv h e \<noteq> []" using e by (auto simp: find_Some_iff)
  then show "\<exists>e. e \<in> {''GH_TOKEN'', ''GITHUB_TOKEN''} \<and> b_secret b = getenv h e \<and> b_secret b \<noteq> []"
    using b(3) by (auto simp: github_def)
qed

lemma unrelated_suffixes:
  assumes "\<not> suffix a b \<and> \<not> suffix b a"
  shows "\<not> suffix a x \<or> \<not> suffix b x"
  using assms suffix_same_cases by blast

lemma github_routes:
  "(\<exists>rt. rt \<in> set (pv_allow github @ (if w then pv_write github else [])) \<and> route_matches rt u) \<longleftrightarrow>
     meth u = ''GET'' \<and> has_suffix (urlPath u) ''/info/refs'' \<or>
     meth u = ''POST'' \<and> has_suffix (urlPath u) ''/git-upload-pack'' \<or>
     w \<and> meth u = ''POST'' \<and> has_suffix (urlPath u) ''/git-receive-pack''"
proof -
  have lists: "pv_allow github = [
       \<lparr>r_methods = [''GET''], r_suffix = ''/info/refs'', r_what = ''ref discovery''\<rparr>,
       \<lparr>r_methods = [''POST''], r_suffix = ''/git-upload-pack'', r_what = ''clone and fetch''\<rparr>]"
    "pv_write github = [\<lparr>r_methods = [''POST''], r_suffix = ''/git-receive-pack'', r_what = ''push''\<rparr>]"
    by (simp_all add: github_def)
  have ex: "(\<exists>rt. rt \<in> set rts \<and> route_matches rt u) \<longleftrightarrow> list_ex (\<lambda>rt. route_matches rt u) rts" for rts
    by (auto simp: list_ex_iff)
  show ?thesis
    unfolding ex lists by (cases w) (simp_all only: route_matches_def append.simps list_ex_Nil_iff list_ex_Cons_iff list_ex_append
        route.simps if_True if_False simp_thms append_Nil2, blast+)
qed

lemma github_upstream_request:
  assumes "b_provider b = github"
  shows "requestURI (upstream_request b r) = ''https://github.com'' @ requestURI r"
    and "reqHost (upstream_request b r) = ''github.com''"
    and "header (upstream_request b r) =
      h_set (copy_headers (header r)) ''Authorization'' (''Basic '' @ b64_encode (''x-access-token:'' @ b_secret b))"
    and "meth (upstream_request b r) = meth r" and "urlPath (upstream_request b r) = urlPath r"
  using assms by (simp_all add: upstream_request_def github_def trim_prefix_def)

lemma canon_authorization: "canon_key ''Authorization'' = ''Authorization''"
  by code_simp

text \<open>
  C9. A request that the GitHub broker sends upstream comes from a client that presented the
  session token and asks for ref discovery or an upload pack (or, when writes were asked for, a
  receive pack); it goes to github.com with the client's own URI; its Authorization header holds
  exactly one value, built from the host's secret; no other hop-by-hop or credential header
  survives and every remaining header keeps all its values.
\<close>

theorem broker_forwards_only_policy:
  assumes "startCredentialBroker h rand port name w = Inr b"
    and "u \<in> set (snd (snd (broker_serve b upstream r)))"
  shows "(\<exists>user. parseProxyAuth (basicHeader r) = Some (user, b_token b)) \<and>
    (meth u = ''GET'' \<and> has_suffix (urlPath u) ''/info/refs'' \<or>
      meth u = ''POST'' \<and> has_suffix (urlPath u) ''/git-upload-pack'' \<or>
      w \<and> meth u = ''POST'' \<and> has_suffix (urlPath u) ''/git-receive-pack'') \<and>
    (requestURI u = ''https://github.com'' @ requestURI r \<and> reqHost u = ''github.com'') \<and>
    (h_values (header u) k =
      (if canon_key k = ''Authorization'' then [''Basic '' @ b64_encode (''x-access-token:'' @ b_secret b)]
       else if hopByHop k then []
       else concat (map snd (filter (\<lambda>(k', vs). canon_key k' = canon_key k) (header r)))))"
proof (intro conjI)
  note g = started_github [OF assms(1)] and s = broker_serve_upstream [OF assms(2)]
  show "\<exists>user. parseProxyAuth (basicHeader r) = Some (user, b_token b)"
    using s(1) by (auto simp: broker_authorized_def subtleEqual_iff split: option.splits)
  show "meth u = ''GET'' \<and> has_suffix (urlPath u) ''/info/refs'' \<or>
      meth u = ''POST'' \<and> has_suffix (urlPath u) ''/git-upload-pack'' \<or>
      w \<and> meth u = ''POST'' \<and> has_suffix (urlPath u) ''/git-receive-pack''"
    using s(2,3) g(2) github_routes [of w u] by (simp add: upstream_request_route)
  show "requestURI u = ''https://github.com'' @ requestURI r" and "reqHost u = ''github.com''"
    using s(2) github_upstream_request [OF g(1)] by simp_all
  show "h_values (header u) k =
      (if canon_key k = ''Authorization'' then [''Basic '' @ b64_encode (''x-access-token:'' @ b_secret b)]
       else if hopByHop k then []
       else concat (map snd (filter (\<lambda>(k', vs). canon_key k' = canon_key k) (header r))))"
    using s(2) github_upstream_request(3) [OF g(1)]
    by (simp only: h_values_set canon_authorization copy_headers_values)
qed

definition sample_host :: host where
  "sample_host = \<lparr>stat = (\<lambda>p. None), lookup_env = (\<lambda>k. if k = ''GH_TOKEN'' then Some ''s3'' else None),
     read_file = (\<lambda>p. None), eval_symlinks = (\<lambda>p. None), glob = (\<lambda>p. [])\<rparr>"

definition sample_broker :: "broker" where
  "sample_broker = \<lparr>b_addr = ''127.0.0.1:40000'', b_port = 40000, b_token = ''0a'', b_provider = github,
     b_secret = ''s3'', b_allow = pv_allow github\<rparr>"

definition sample_fetch :: http_req where
  "sample_fetch = \<lparr>meth = ''GET'', urlPath = ''/o/r/info/refs'',
     requestURI = ''/o/r/info/refs?service=git-upload-pack'', reqHost = ''127.0.0.1:40000'',
     header = [(''Authorization'', [''Basic '' @ b64_encode (''a'' @ CHR '':'' # ''0a'')]), (''Accept'', [''*/*''])]\<rparr>"

definition sample_upstream :: "http_req \<Rightarrow> string + http_resp" where
  "sample_upstream u = Inr \<lparr>status = 200, rheader = [], body = ''refs''\<rparr>"

lemma sample_start:
  "startCredentialBroker sample_host (Some [CHR 0x0A]) (Some 40000) ''github'' False = Inr sample_broker"
proof -
  have "itoa 40000 = ''40000''" by (simp add: itoa.simps, code_simp)
  moreover have "proxyToken (Some [CHR 0x0A]) = Some ''0a''" by code_simp
  moreover have "find (\<lambda>e. getenv sample_host e \<noteq> []) (pv_env github) = Some ''GH_TOKEN''"
    by (simp add: github_def sample_host_def getenv_def)
  moreover have "getenv sample_host ''GH_TOKEN'' = ''s3''"
    by (simp add: sample_host_def getenv_def)
  moreover have "providers ''github'' = Some github" by (simp add: providers_def)
  ultimately show ?thesis
    unfolding startCredentialBroker_def sample_broker_def
    by (simp only: option.case if_False append_Nil2 append.simps)
qed

lemma sample_sent: "upstream_request sample_broker sample_fetch
    \<in> set (snd (snd (broker_serve sample_broker sample_upstream sample_fetch)))"
proof -
  have "basicHeader sample_fetch = ''Basic '' @ b64_encode (''a'' @ CHR '':'' # ''0a'')"
    by (simp add: basicHeader_def h_get_def h_values_def canon_authorization sample_fetch_def)
  then have "broker_authorized sample_broker sample_fetch"
    unfolding broker_authorized_def using parseProxyAuth_round_trip [of "''a''" "''0a''"]
    by (simp add: sample_broker_def subtleEqual_iff)
  moreover have "has_suffix ''/o/r/info/refs'' ''/info/refs''" by code_simp
  then have "matched_route sample_broker sample_fetch \<noteq> []"
    by (simp add: matched_route_def route_matches_def sample_broker_def sample_fetch_def github_def)
  ultimately show ?thesis by (simp add: broker_serve_def sample_upstream_def Let_def)
qed

theorem broker_forwards_only_policy_witness:
  "h_values (header (upstream_request sample_broker sample_fetch)) ''authorization'' =
     [''Basic '' @ b64_encode (''x-access-token:'' @ ''s3'')]"
proof -
  have "canon_key ''authorization'' = ''Authorization''" by code_simp
  then show ?thesis
    using broker_forwards_only_policy
      [OF sample_start sample_sent, of "''authorization''", THEN conjunct2, THEN conjunct2, THEN conjunct2]
    by (simp add: sample_broker_def)
qed

text \<open>
  A broker started without \<open>write\<close> never sends a push upstream, over any sequence of
  requests and upstream answers.
\<close>

theorem read_only_broker_never_pushes:
  assumes "startCredentialBroker h rand port name False = Inr b"
    and "(log', u) \<in> set (fst (broker_filter.run b log qs))"
  shows "\<not> has_suffix (urlPath u) ''/git-receive-pack''"
proof -
  have "route_policy b log' u" using broker_filter.run_filters [OF TrueI assms(2)] by simp
  then have "has_suffix (urlPath u) ''/info/refs'' \<or> has_suffix (urlPath u) ''/git-upload-pack''"
    using started_github(2) [OF assms(1)] github_routes [of False u] by (auto simp: route_policy_def)
  moreover have "\<not> has_suffix (urlPath u) ''/info/refs'' \<or> \<not> has_suffix (urlPath u) ''/git-receive-pack''"
    "\<not> has_suffix (urlPath u) ''/git-upload-pack'' \<or> \<not> has_suffix (urlPath u) ''/git-receive-pack''"
    by (rule unrelated_suffixes; code_simp)+
  ultimately show ?thesis by blast
qed

theorem read_only_broker_never_pushes_witness:
  "\<not> has_suffix (urlPath (upstream_request sample_broker sample_fetch)) ''/git-receive-pack''"
proof (rule read_only_broker_never_pushes [OF sample_start])
  have "(case broker_serve sample_broker sample_upstream sample_fetch of (evs, reply, ups) \<Rightarrow> ups)
      = [upstream_request sample_broker sample_fetch]"
    using sample_sent by (auto simp: broker_serve_def Let_def split: sum.splits if_splits)
  then show "([], upstream_request sample_broker sample_fetch)
      \<in> set (fst (broker_filter.run sample_broker [] [(sample_upstream, sample_fetch)]))"
    by (auto simp: broker_handle_def split: prod.splits)
qed

text \<open>Brokers started alike on hosts with different credentials differ in their secrets only.\<close>

lemma started_alike:
  assumes "startCredentialBroker h rand port name w = Inr b" and "startCredentialBroker h' rand port name w = Inr b'"
  shows "b' = b\<lparr>b_secret := b_secret b'\<rparr>"
  using assms by (auto simp: startCredentialBroker_def split: option.splits)

text \<open>The secret is read for the Authorization header and nowhere else.\<close>

lemma other_secret:
  fixes b :: "broker" and s :: string
  defines "c \<equiv> b\<lparr>b_secret := s\<rparr>"
  shows "b_token c = b_token b" and "b_allow c = b_allow b" and "b_provider c = b_provider b"
    and "b_addr c = b_addr b" and "jailEnv c = jailEnv b" and "broker_authorized c r = broker_authorized b r"
    and "matched_route c r = matched_route b r" and "denial_reason c r = denial_reason b r"
proof -
  show f: "b_token c = b_token b" "b_allow c = b_allow b" "b_provider c = b_provider b" "b_addr c = b_addr b"
    by (simp_all add: c_def)
  show "jailEnv c = jailEnv b" "broker_authorized c r = broker_authorized b r"
    "matched_route c r = matched_route b r" "denial_reason c r = denial_reason b r"
    by (simp_all only: jailEnv_def baseURL_def broker_authorized_def matched_route_def denial_reason_def f)
qed

lemma other_secret_serve:
  assumes "upstream' (upstream_request (b\<lparr>b_secret := s\<rparr>) r) = upstream (upstream_request b r)"
  shows "fst (broker_serve (b\<lparr>b_secret := s\<rparr>) upstream' r) = fst (broker_serve b upstream r)"
    and "fst (snd (broker_serve (b\<lparr>b_secret := s\<rparr>) upstream' r)) = fst (snd (broker_serve b upstream r))"
  unfolding broker_serve_def Let_def other_secret assms by (simp_all split: sum.split)

text \<open>
  C10. The broker itself tells the jail nothing about the secret: of two brokers started alike on hosts
  with different credentials, the jail gets the same environment; and for a request to which the
  upstreams, whatever they are, give the same answer, it gets the same reply and the audit log the
  same events.  What is sent upstream differs in the values of the Authorization header alone, so
  the secret can come back only in an answer of the upstream itself.
\<close>

theorem broker_hides_secret:
  assumes "startCredentialBroker h rand port name w = Inr b" and "startCredentialBroker h' rand port name w = Inr b'"
    and "upstream' (upstream_request b' r) = upstream (upstream_request b r)"
  shows "jailEnv b' = jailEnv b \<and>
    fst (broker_serve b' upstream' r) = fst (broker_serve b upstream r) \<and>
    fst (snd (broker_serve b' upstream' r)) = fst (snd (broker_serve b upstream r)) \<and>
    (snd (snd (broker_serve b upstream r)), snd (snd (broker_serve b' upstream' r))) \<in>
      {([], []), ([upstream_request b r], [upstream_request b' r])} \<and>
    (upstream_request b' r)\<lparr>header := []\<rparr> = (upstream_request b r)\<lparr>header := []\<rparr> \<and>
    (canon_key k = ''Authorization'' \<or>
      h_values (header (upstream_request b' r)) k = h_values (header (upstream_request b r)) k)"
proof (intro conjI)
  define s where "s = b_secret b'"
  have b': "b' = b\<lparr>b_secret := s\<rparr>" unfolding s_def by (rule started_alike [OF assms(1,2)])
  note same = other_secret [where b = b and s = s, folded b']
    and serve = other_secret_serve [where b = b and s = s and r = r and upstream = upstream and upstream' = upstream', folded b']
  show "jailEnv b' = jailEnv b" by (rule same(5))
  show "fst (broker_serve b' upstream' r) = fst (broker_serve b upstream r)"
    and "fst (snd (broker_serve b' upstream' r)) = fst (snd (broker_serve b upstream r))"
    by (rule serve [OF assms(3)])+
  show "(snd (snd (broker_serve b upstream r)), snd (snd (broker_serve b' upstream' r))) \<in>
      {([], []), ([upstream_request b r], [upstream_request b' r])}"
    unfolding broker_serve_def Let_def same assms(3) by (simp split: sum.split)
  note g = github_upstream_request [OF started_github(1) [OF assms(1)]]
    github_upstream_request [OF started_github(1) [OF assms(2)]]
  show "(upstream_request b' r)\<lparr>header := []\<rparr> = (upstream_request b r)\<lparr>header := []\<rparr>"
    by (rule http_req.equality) (simp_all add: g)
  show "canon_key k = ''Authorization'' \<or>
      h_values (header (upstream_request b' r)) k = h_values (header (upstream_request b r)) k"
    by (simp add: g h_values_set canon_authorization)
qed

definition other_host :: host where
  "other_host = sample_host\<lparr>lookup_env := (\<lambda>k. if k = ''GITHUB_TOKEN'' then Some ''t4'' else None)\<rparr>"

lemma other_start:
  "startCredentialBroker other_host (Some [CHR 0x0A]) (Some 40000) ''github'' False =
     Inr (sample_broker\<lparr>b_secret := ''t4''\<rparr>)"
proof -
  have "itoa 40000 = ''40000''" by (simp add: itoa.simps, code_simp)
  moreover have "proxyToken (Some [CHR 0x0A]) = Some ''0a''" by code_simp
  moreover have "find (\<lambda>e. getenv other_host e \<noteq> []) (pv_env github) = Some ''GITHUB_TOKEN''"
    by (simp add: github_def other_host_def getenv_def)
  moreover have "getenv other_host ''GITHUB_TOKEN'' = ''t4''"
    by (simp add: other_host_def getenv_def)
  moreover have "providers ''github'' = Some github" by (simp add: providers_def)
  ultimately show ?thesis
    unfolding startCredentialBroker_def sample_broker_def
    by (simp only: option.case if_False append_Nil2 append.simps broker.simps)
qed

theorem broker_hides_secret_witness:
  "fst (snd (broker_serve (sample_broker\<lparr>b_secret := ''t4''\<rparr>) sample_upstream sample_fetch)) =
   fst (snd (broker_serve sample_broker sample_upstream sample_fetch))"
  by (rule broker_hides_secret [OF sample_start other_start, THEN conjunct2, THEN conjunct2, THEN conjunct1])
    (simp add: sample_upstream_def)

end
