(* ===== verification/Egress.thy ===== *)
theory Egress
  imports Http
begin

unbundle bit_operations_syntax

text \<open>
  The egress proxy (\<open>egressproxy.go\<close>): who may use it, which hosts and which resolved addresses
  it dials.  The resolver, the dialer and the connection hijack are the record \<open>net_env\<close>, one per
  request, so that two requests may see different answers.  Every request yields at most one
  dial and one audit event.
\<close>

section \<open>The host allowlist\<close>

definition norm_host :: "string \<Rightarrow> string" where
  "norm_host h = to_lower (trim_suffix h ''.'')"

definition entry_allows :: "string \<Rightarrow> string \<Rightarrow> bool" where
  "entry_allows host a =
     (a = host \<or> (case cut_prefix a ''*.'' of
        Some sfx \<Rightarrow> has_suffix host (CHR ''.'' # sfx)
      | None \<Rightarrow> False))"

definition hostAllowed :: "string list \<Rightarrow> string \<Rightarrow> bool" where
  "hostAllowed allow host = list_ex (\<lambda>a. entry_allows (norm_host host) (norm_host a)) allow"

text \<open>Specification over the DNS labels of the names.\<close>

abbreviation labels :: "string \<Rightarrow> string list" where
  "labels h \<equiv> split_on (CHR ''.'') (norm_host h)"

definition label_match :: "string list \<Rightarrow> string list \<Rightarrow> bool" where
  "label_match ent hs = (ent = hs \<or> (\<exists>suf pre. ent = ''*'' # suf \<and> suf \<noteq> [] \<and> pre \<noteq> [] \<and> hs = pre @ suf))"

lemma split_by_append_mid: "P c \<Longrightarrow> split_by P (a @ c # b) = split_by P a @ split_by P b"
  by (induction a) (auto split: list.splits)

lemma split_on_inject: "split_on c a = split_on c b \<longleftrightarrow> a = b"
  by (metis join_split)

lemma split_on_suffix:
  "suffix (c # s) h \<longleftrightarrow> (\<exists>pre. pre \<noteq> [] \<and> split_on c h = pre @ split_on c s)"
proof
  assume "suffix (c # s) h"
  then obtain a where "h = a @ c # s" by (auto simp: suffix_def)
  then have "split_on c h = split_on c a @ split_on c s" by (simp add: split_by_append_mid)
  then show "\<exists>pre. pre \<noteq> [] \<and> split_on c h = pre @ split_on c s" by (metis split_by_not_Nil)
next
  assume "\<exists>pre. pre \<noteq> [] \<and> split_on c h = pre @ split_on c s"
  then obtain pre where pre: "pre \<noteq> []" "split_on c h = pre @ split_on c s" by blast
  have "x \<in> set f \<Longrightarrow> f \<in> set pre \<Longrightarrow> x \<noteq> c" for x f
    using split_by_clean_fields [of f "\<lambda>x. x = c" h x] pre(2) by simp
  then have "split_on c (join_with [c] pre) = pre" using pre(1) by (intro split_join) auto
  then have "split_on c (join_with [c] pre @ c # s) = split_on c h"
    using pre(2) by (simp add: split_by_append_mid)
  then have "h = join_with [c] pre @ c # s" by (metis join_split)
  then show "suffix (c # s) h" by (simp add: suffix_def)
qed

lemma split_wildcard: "split_on (CHR ''.'') (''*.'' @ s) = ''*'' # split_on (CHR ''.'') s"
  by simp

lemma split_wildcard_iff:
  "split_on (CHR ''.'') a = ''*'' # suf \<and> suf \<noteq> [] \<longleftrightarrow>
     (\<exists>s. a = ''*.'' @ s \<and> suf = split_on (CHR ''.'') s)"
proof
  assume h: "split_on (CHR ''.'') a = ''*'' # suf \<and> suf \<noteq> []"
  define s where "s = join_with ''.'' suf"
  have "a = join_with ''.'' (''*'' # suf)" using h join_split [of "CHR ''.''" a] by simp
  then have a: "a = ''*.'' @ s" using h by (simp add: join_with_Cons s_def)
  with h show "\<exists>s. a = ''*.'' @ s \<and> suf = split_on (CHR ''.'') s"
    using split_wildcard [of s] by auto
qed auto

lemma entry_allows_iff:
  "entry_allows host a \<longleftrightarrow> a = host \<or> (\<exists>s. a = ''*.'' @ s \<and> suffix (CHR ''.'' # s) host)"
proof (cases "cut_prefix a ''*.''")
  case None
  then have "a \<noteq> ''*.'' @ s" for s using cut_prefix_Some [of a "''*.''" s] by auto
  with None show ?thesis by (simp add: entry_allows_def)
next
  case (Some s)
  then have "a = ''*.'' @ s" using cut_prefix_Some by blast
  with Some show ?thesis by (simp add: entry_allows_def)
qed

lemma entry_allows_labels:
  "entry_allows host a \<longleftrightarrow> label_match (split_on (CHR ''.'') a) (split_on (CHR ''.'') host)"
proof -
  let ?sp = "split_on (CHR ''.'')"
  have "(\<exists>s. a = ''*.'' @ s \<and> suffix (CHR ''.'' # s) host) \<longleftrightarrow>
      (\<exists>s. a = ''*.'' @ s \<and> (\<exists>pre. pre \<noteq> [] \<and> ?sp host = pre @ ?sp s))"
    unfolding split_on_suffix ..
  also have "\<dots> \<longleftrightarrow> (\<exists>suf. (\<exists>s. a = ''*.'' @ s \<and> suf = ?sp s) \<and> (\<exists>pre. pre \<noteq> [] \<and> ?sp host = pre @ suf))"
    by blast
  also have "\<dots> \<longleftrightarrow> (\<exists>suf. (?sp a = ''*'' # suf \<and> suf \<noteq> []) \<and> (\<exists>pre. pre \<noteq> [] \<and> ?sp host = pre @ suf))"
    unfolding split_wildcard_iff ..
  finally show ?thesis unfolding entry_allows_iff label_match_def split_on_inject by blast
qed

section \<open>Addresses\<close>

text \<open>
  A resolved address: IPv4, or IPv6 with its zone.  The \<open>Is\<close> methods of \<open>netip.Addr\<close> look through
  an IPv4-mapped IPv6 address, except \<open>IsUnspecified\<close>, which compares with the two zero addresses.
\<close>

datatype addr = V4 "32 word" | V6 "128 word" string

definition is4in6 :: "128 word \<Rightarrow> bool" where
  "is4in6 w = (drop_bit 32 w = 0xFFFF)"

fun unmap :: "addr \<Rightarrow> addr" where
  "unmap (V4 w) = V4 w"
| "unmap (V6 w zone) = (if is4in6 w then V4 (ucast w) else V6 w zone)"

definition isLoopback :: "addr \<Rightarrow> bool" where
  "isLoopback a = (case unmap a of V4 w \<Rightarrow> drop_bit 24 w = 127 | V6 w _ \<Rightarrow> w = 1)"

definition isLinkLocalUnicast :: "addr \<Rightarrow> bool" where
  "isLinkLocalUnicast a = (case unmap a of
     V4 w \<Rightarrow> drop_bit 16 w = 0xA9FE
   | V6 w _ \<Rightarrow> drop_bit 112 w AND 0xFFC0 = 0xFE80)"

definition isLinkLocalMulticast :: "addr \<Rightarrow> bool" where
  "isLinkLocalMulticast a = (case unmap a of
     V4 w \<Rightarrow> drop_bit 8 w = 0xE00000
   | V6 w _ \<Rightarrow> drop_bit 112 w AND 0xFF0F = 0xFF02)"

definition isPrivate :: "addr \<Rightarrow> bool" where
  "isPrivate a = (case unmap a of
     V4 w \<Rightarrow> drop_bit 24 w = 10 \<or> drop_bit 20 w = 0xAC1 \<or> drop_bit 16 w = 0xC0A8
   | V6 w _ \<Rightarrow> drop_bit 120 w AND 0xFE = 0xFC)"

definition isUnspecified :: "addr \<Rightarrow> bool" where
  "isUnspecified a = (a = V4 0 \<or> a = V6 0 [])"

definition isMulticast :: "addr \<Rightarrow> bool" where
  "isMulticast a = (case unmap a of
     V4 w \<Rightarrow> drop_bit 28 w = 0xE
   | V6 w _ \<Rightarrow> drop_bit 120 w = 0xFF)"

datatype unroutable_reason = Loopback | LinkLocal | Private | NotUnicast

definition unroutable :: "addr \<Rightarrow> unroutable_reason option" where
  "unroutable a =
     (if isLoopback a then Some Loopback
      else if isLinkLocalUnicast a \<or> isLinkLocalMulticast a then Some LinkLocal
      else if isPrivate a then Some Private
      else if isUnspecified a \<or> isMulticast a then Some NotUnicast
      else None)"

section \<open>Requests\<close>

text \<open>\<open>net.SplitHostPort\<close>.\<close>

definition splitHostPort :: "string \<Rightarrow> (string \<times> string) option" where
  "splitHostPort s =
     (case cut_at (rev s) (CHR '':'') of (rport, rhost, found) \<Rightarrow>
        if \<not> found then None
        else if hd s = CHR 0x5B then
          (case cut_at (tl s) (CHR 0x5D) of (host, after, closed) \<Rightarrow>
            if closed \<and> rev rhost = CHR 0x5B # host @ [CHR 0x5D] \<and> CHR 0x5B \<notin> set (tl s) \<and> CHR 0x5D \<notin> set after
            then Some (host, rev rport) else None)
        else if CHR '':'' \<in> set rhost \<or> CHR 0x5B \<in> set s \<or> CHR 0x5D \<in> set s then None
        else Some (rev rhost, rev rport))"

record net_env =
  lookupNetIP :: "string \<Rightarrow> addr list option"
  dial_ok :: "addr \<Rightarrow> string \<Rightarrow> bool"
  hijack_ok :: bool
  client_ok :: bool

record egress_proxy =
  ep_token :: string
  ep_hosts :: "string list"

text \<open>
  \<open>startEgressProxy\<close>: the proxy and the port it listens on.  \<open>rand\<close> and \<open>port\<close> are what the random
  source and the listener gave (\<open>None\<close>: they failed).
\<close>

definition startEgressProxy :: "string option \<Rightarrow> nat option \<Rightarrow> string list \<Rightarrow> (egress_proxy \<times> nat) option" where
  "startEgressProxy rand port hosts =
     (if hosts = [] then None
      else (case proxyToken rand of
        None \<Rightarrow> None
      | Some token \<Rightarrow> (case port of
          None \<Rightarrow> None
        | Some n \<Rightarrow> Some (\<lparr>ep_token = token, ep_hosts = hosts\<rparr>, n))))"

datatype deny_reason =
    PlainHttp
  | MalformedTarget
  | NotOnAllowlist
  | CannotResolve string
  | ResolvesTo string addr unroutable_reason
  | Unreachable
  | NoHijack

datatype egress_event =
    BadToken
  | Denied string deny_reason
  | AllowedTo string string addr

text \<open>What one request does: the addresses dialled and the audit events.\<close>

type_synonym egress_out = "(addr \<times> string) list \<times> egress_event list"

definition egress_authorized :: "egress_proxy \<Rightarrow> http_req \<Rightarrow> bool" where
  "egress_authorized p r =
     (case parseProxyAuth (h_get (header r) ''Proxy-Authorization'') of
        Some (user, pass) \<Rightarrow> subtleEqual pass (ep_token p)
      | None \<Rightarrow> False)"

definition first_unroutable :: "addr list \<Rightarrow> addr option" where
  "first_unroutable as = find (\<lambda>a. unroutable a \<noteq> None) as"

definition tunnel :: "egress_proxy \<Rightarrow> net_env \<Rightarrow> http_req \<Rightarrow> egress_out" where
  "tunnel p ne r =
     (case splitHostPort (reqHost r) of
        None \<Rightarrow> ([], [Denied (reqHost r) MalformedTarget])
      | Some (host, port) \<Rightarrow>
          if \<not> hostAllowed (ep_hosts p) host then ([], [Denied (reqHost r) NotOnAllowlist])
          else (case lookupNetIP ne host of
            None \<Rightarrow> ([], [Denied (reqHost r) (CannotResolve host)])
          | Some [] \<Rightarrow> ([], [Denied (reqHost r) (CannotResolve host)])
          | Some (target # rest) \<Rightarrow>
              (case first_unroutable (target # rest) of
                 Some a \<Rightarrow> ([], [Denied (reqHost r) (ResolvesTo host a (the (unroutable a)))])
               | None \<Rightarrow>
                   ([(target, port)],
                    if \<not> dial_ok ne target port then [Denied (reqHost r) Unreachable]
                    else if \<not> hijack_ok ne then [Denied (reqHost r) NoHijack]
                    else if \<not> client_ok ne then []
                    else [AllowedTo host port target]))))"

definition egress_serve :: "egress_proxy \<Rightarrow> net_env \<Rightarrow> http_req \<Rightarrow> egress_out" where
  "egress_serve p ne r =
     (if \<not> egress_authorized p r then ([], [BadToken])
      else if meth r \<noteq> ''CONNECT'' then ([], [Denied (reqHost r) PlainHttp])
      else tunnel p ne r)"

text \<open>The handler with the audit log as its state.\<close>

definition egress_handle :: "egress_proxy \<Rightarrow> egress_event list \<Rightarrow> net_env \<times> http_req \<Rightarrow> egress_event list \<times> (addr \<times> string) list" where
  "egress_handle p log q = (case q of (ne, r) \<Rightarrow> case egress_serve p ne r of (dials, evs) \<Rightarrow> (log @ evs, dials))"

section \<open>What is dialled\<close>

lemma first_unroutable_None:
  "first_unroutable as = None \<longleftrightarrow> list_all (\<lambda>b. unroutable b = None) as"
  unfolding first_unroutable_def by (induction as) auto

lemma tunnel_dials:
  assumes "(a, port) \<in> set (fst (tunnel p ne r))"
  shows "unroutable a = None" and "\<exists>host as. splitHostPort (reqHost r) = Some (host, port) \<and>
      hostAllowed (ep_hosts p) host \<and> lookupNetIP ne host = Some (a # as) \<and>
      (\<forall>b \<in> set as. unroutable b = None)"
  using assms unfolding tunnel_def
  by (auto simp: first_unroutable_None list_all_iff split: option.splits prod.splits list.splits if_splits)

definition dial_policy :: "egress_proxy \<Rightarrow> egress_event list \<Rightarrow> addr \<times> string \<Rightarrow> bool" where
  "dial_policy p log d = (unroutable (fst d) = None)"

lemma egress_serve_dials:
  "d \<in> set (fst (egress_serve p ne r)) \<Longrightarrow>
     egress_authorized p r \<and> meth r = ''CONNECT'' \<and> d \<in> set (fst (tunnel p ne r))"
  by (auto simp: egress_serve_def split: if_splits)

interpretation egress_filter: filtering_proxy "egress_handle p" "\<lambda>log. True" "dial_policy p"
proof unfold_locales
  fix log q d assume "d \<in> set (snd (egress_handle p log q))"
  then have "d \<in> set (fst (egress_serve p (fst q) (snd q)))"
    by (auto simp: egress_handle_def split: prod.splits)
  then have "d \<in> set (fst (tunnel p (fst q) (snd q)))" using egress_serve_dials by blast
  then show "dial_policy p log d"
    using tunnel_dials(1) [of "fst d" "snd d"] by (simp add: dial_policy_def)
qed simp

lemma splitHostPort_parts:
  assumes "splitHostPort s = Some (host, port)"
  shows "(s = host @ CHR '':'' # port \<or> s = CHR 0x5B # host @ CHR 0x5D # CHR '':'' # port) \<and>
    CHR '':'' \<notin> set port"
proof -
  obtain rport rhost found where c: "cut_at (rev s) (CHR '':'') = (rport, rhost, found)"
    by (metis prod_cases3)
  with assms have f: "found" by (auto simp: splitHostPort_def split: if_splits)
  with c have "rev s = rport @ CHR '':'' # rhost" and np: "CHR '':'' \<notin> set rport"
    by (simp_all add: cut_at_found)
  then have "rev (rev s) = rev rhost @ CHR '':'' # rev rport" by simp
  then have s: "s = rev rhost @ CHR '':'' # rev rport" by (simp only: rev_rev_ident)
  from assms c f have "port = rev rport \<and> (rev rhost = host \<or> rev rhost = CHR 0x5B # host @ [CHR 0x5D])"
    unfolding splitHostPort_def by (auto split: if_splits prod.splits)
  with s np show ?thesis by auto
qed

section \<open>Which addresses are unroutable\<close>

text \<open>The IPv4 blocks, as intervals of the 32-bit address: first address and size.\<close>

definition v4_blocks :: "(nat \<times> nat) list" where
  "v4_blocks = [(127 * 2 ^ 24, 2 ^ 24), (0xA9FE * 2 ^ 16, 2 ^ 16), (0xE00000 * 2 ^ 8, 2 ^ 8),
     (10 * 2 ^ 24, 2 ^ 24), (0xAC1 * 2 ^ 20, 2 ^ 20), (0xC0A8 * 2 ^ 16, 2 ^ 16),
     (0xE * 2 ^ 28, 2 ^ 28), (0, 1)]"

lemma word_unat_eq: "w = v \<longleftrightarrow> unat w = unat v" for w v :: "'a :: len word"
  by (simp add: word_eq_iff_unsigned)

lemma div_interval: "0 < k \<Longrightarrow> n div k = m \<longleftrightarrow> m * k \<le> n \<and> n < m * k + k" for n m k :: nat
  by (metis add.commute div_nat_eqI dividend_less_times_div less_or_eq_imp_le mult.commute
      mult_Suc_right times_div_less_eq_dividend)

lemma drop_bit_block:
  fixes w v :: "'a :: len word"
  shows "drop_bit n w = v \<longleftrightarrow> unat v * 2 ^ n \<le> unat w \<and> unat w < unat v * 2 ^ n + 2 ^ n"
proof -
  have "unat (drop_bit n w) = unat w div 2 ^ n" by (subst unat_drop_bit_eq) (simp only: drop_bit_eq_div)
  then show ?thesis by (simp only: word_unat_eq [of "drop_bit n w"] div_interval zero_less_power zero_less_numeral)
qed

lemma unroutable_V4:
  "unroutable (V4 w) \<noteq> None \<longleftrightarrow> list_ex (\<lambda>(b, n). b \<le> unat w \<and> unat w < b + n) v4_blocks"
  unfolding unroutable_def isLoopback_def isLinkLocalUnicast_def isLinkLocalMulticast_def
    isPrivate_def isUnspecified_def isMulticast_def
  by (simp add: drop_bit_block v4_blocks_def) (auto simp: word_unat_eq)

definition map4in6 :: "32 word \<Rightarrow> 128 word" where
  "map4in6 w = push_bit 32 0xFFFF OR ucast w"

lemma map4in6_unmap: "unmap (V6 (map4in6 w) zone) = V4 w"
proof -
  have "is4in6 (map4in6 w)"
    unfolding is4in6_def map4in6_def
    by (intro bit_word_eqI) (auto simp: bit_simps dest: bit_imp_le_length)
  moreover have "ucast (push_bit 32 v OR ucast w :: 128 word) = w" for v :: "128 word"
    by (intro bit_word_eqI) (auto simp: bit_simps)
  then have "ucast (map4in6 w) = w" unfolding map4in6_def .
  with calculation show ?thesis by simp
qed

lemma mapped_form:
  assumes "unmap (V6 x zone) = V4 w"
  shows "x = map4in6 w"
proof -
  from assms have "drop_bit 32 x = 0xFFFF" and "w = ucast x" by (auto simp: is4in6_def split: if_splits)
  moreover have "x = push_bit 32 (drop_bit 32 x) OR ucast (ucast x :: 32 word)"
    by (intro bit_word_eqI) (auto simp: bit_simps)
  ultimately show ?thesis by (simp add: map4in6_def)
qed

lemma unroutable_mapped:
  assumes "unmap a = V4 w" and "w \<noteq> 0"
  shows "unroutable a = unroutable (V4 w)"
proof -
  have "a \<noteq> V6 0 []" using assms by (auto simp: is4in6_def)
  then show ?thesis
    using assms by (auto simp: unroutable_def isLoopback_def isLinkLocalUnicast_def
        isLinkLocalMulticast_def isPrivate_def isUnspecified_def isMulticast_def)
qed

section \<open>Properties\<close>

lemma tunnel_dials_iff:
  "(a, port) \<in> set (fst (tunnel p ne r)) \<longleftrightarrow>
     (\<exists>host as. splitHostPort (reqHost r) = Some (host, port) \<and> hostAllowed (ep_hosts p) host \<and>
       lookupNetIP ne host = Some (a # as) \<and> list_all (\<lambda>b. unroutable b = None) (a # as))"
  unfolding first_unroutable_None [symmetric] tunnel_def
  by (auto split: option.splits prod.splits list.splits if_splits)

lemma hostAllowed_iff:
  "hostAllowed allow host \<longleftrightarrow> (\<exists>a. a \<in> set allow \<and> label_match (labels a) (labels host))"
  by (auto simp: hostAllowed_def list_ex_iff entry_allows_labels)

text \<open>
  C7. The egress proxy dials an address exactly when the request carries the run's token in a Basic
  credential, is a CONNECT, names a host that an allowlist entry covers (label by label: the
  entry itself, or a strict subdomain of a wildcard entry), every address the name resolves to is
  routable, and the address dialled is the first of those; the name is not resolved again.
\<close>

theorem egress_dials_exactly:
  "(a, port) \<in> set (fst (egress_serve p ne r)) \<longleftrightarrow>
     (\<exists>user host as ent.
       parseProxyAuth (h_get (header r) ''Proxy-Authorization'') = Some (user, ep_token p) \<and>
       meth r = ''CONNECT'' \<and> splitHostPort (reqHost r) = Some (host, port) \<and>
       ent \<in> set (ep_hosts p) \<and> label_match (labels ent) (labels host) \<and>
       lookupNetIP ne host = Some (a # as) \<and> list_all (\<lambda>b. unroutable b = None) (a # as))"
proof -
  have "egress_authorized p r \<longleftrightarrow>
      (\<exists>user. parseProxyAuth (h_get (header r) ''Proxy-Authorization'') = Some (user, ep_token p))"
    by (auto simp: egress_authorized_def subtleEqual_iff split: option.splits)
  moreover have "(a, port) \<in> set (fst (egress_serve p ne r)) \<longleftrightarrow>
      egress_authorized p r \<and> meth r = ''CONNECT'' \<and> (a, port) \<in> set (fst (tunnel p ne r))"
    by (simp add: egress_serve_def)
  ultimately show ?thesis unfolding tunnel_dials_iff hostAllowed_iff by blast
qed

text \<open>\<open>IsUnspecified\<close> does not look through the mapping, so 0.0.0.0 is refused in one of its forms only.\<close>

lemma mapped_unspecified: "unroutable (V4 0) = Some NotUnicast" "unroutable (V6 (map4in6 0) zone) = None"
proof -
  have "map4in6 0 \<noteq> 0" by code_simp
  then show "unroutable (V6 (map4in6 0) zone) = None"
    unfolding unroutable_def isLoopback_def isLinkLocalUnicast_def isLinkLocalMulticast_def isPrivate_def
      isMulticast_def map4in6_unmap by (simp add: isUnspecified_def)
qed (simp add: unroutable_def isLoopback_def isLinkLocalUnicast_def isLinkLocalMulticast_def isPrivate_def
    isUnspecified_def)

lemma dialled_blocks:
  assumes "unroutable a = None" and "unmap a = V4 w"
  shows "list_ex (\<lambda>(b, n). b \<le> unat w \<and> unat w < b + n) v4_blocks \<longleftrightarrow> (\<exists>zone. a = V6 (map4in6 0) zone)"
proof (cases "w = 0")
  case True
  then have "list_ex (\<lambda>(b, n). b \<le> unat w \<and> unat w < b + n) v4_blocks" by (simp add: v4_blocks_def)
  moreover from assms mapped_unspecified(1) True have "a \<noteq> V4 w" by auto
  with assms(2) mapped_form True have "\<exists>zone. a = V6 (map4in6 0) zone" by (cases a) auto
  ultimately show ?thesis by blast
next
  case False
  then have "a \<noteq> V6 (map4in6 0) zone" for zone using assms(2) map4in6_unmap [of 0 zone] by auto
  moreover have "unroutable (V4 w) = None" using assms(1) unroutable_mapped [OF assms(2) False] by simp
  ultimately show ?thesis unfolding unroutable_V4 [symmetric] by simp
qed

text \<open>
  C8. Over any sequence of requests, with the resolver and the network answering differently each
  time, an IPv4 address that is dialled, in its own form or mapped into IPv6, lies outside every
  loopback, link-local, private and multicast block and is not 0.0.0.0, with exactly one exception:
  0.0.0.0 written as an IPv6 address (::ffff:0.0.0.0), which the filter lets through.
\<close>

theorem egress_run_never_dials_unroutable:
  assumes "(log', (a, port)) \<in> set (fst (egress_filter.run p log qs))"
    and "unmap a = V4 w"
  shows "list_ex (\<lambda>(b, n). b \<le> unat w \<and> unat w < b + n) v4_blocks \<longleftrightarrow> (\<exists>zone. a = V6 (map4in6 0) zone)"
proof -
  have "dial_policy p log' (a, port)" using egress_filter.run_filters [OF TrueI assms(1)] by simp
  then show ?thesis by (intro dialled_blocks assms(2)) (simp add: dial_policy_def)
qed

definition sample_proxy :: egress_proxy where
  "sample_proxy = \<lparr>ep_token = ''t0'', ep_hosts = [''*.example.com'']\<rparr>"

definition sample_net :: net_env where
  "sample_net = \<lparr>lookupNetIP = (\<lambda>h. Some [V4 0x5DB8D822]), dial_ok = (\<lambda>a p. True),
     hijack_ok = True, client_ok = True\<rparr>"

definition sample_request :: http_req where
  "sample_request = \<lparr>meth = ''CONNECT'', urlPath = [], requestURI = [], reqHost = ''API.example.com:443'',
     header = [(''Proxy-Authorization'', [''Basic YTp0MA==''])]\<rparr>"

lemma sample_serve: "egress_serve sample_proxy sample_net sample_request =
    ([(V4 0x5DB8D822, ''443'')], [AllowedTo ''API.example.com'' ''443'' (V4 0x5DB8D822)])"
  by code_simp

theorem egress_run_never_dials_unroutable_witness:
  "\<not> list_ex (\<lambda>(b, n). b \<le> unat (0x5DB8D822 :: 32 word) \<and> unat (0x5DB8D822 :: 32 word) < b + n) v4_blocks"
proof -
  have "([], V4 0x5DB8D822, ''443'') \<in> set (fst (egress_filter.run sample_proxy [] [(sample_net, sample_request)]))"
    by (simp add: egress_handle_def sample_serve)
  from egress_run_never_dials_unroutable [OF this] show ?thesis by simp
qed

lemma norm_host_fixed:
  assumes "norm_host d = d"
  shows "\<not> suffix ''.'' d" and "to_lower d = d"
proof -
  show nd: "\<not> suffix ''.'' d"
  proof
    assume s: "suffix ''.'' d"
    then have "length (norm_host d) < length d"
      using length_map_letters [of _ _ "trim_suffix d ''.''"]
      by (auto simp: norm_host_def trim_suffix_def to_lower_def suffix_def less_Suc_eq_le)
    with assms show False by simp
  qed
  with assms show "to_lower d = d" by (simp add: norm_host_def trim_suffix_def)
qed

text \<open>
  C18. The allowlist decides by DNS labels and nothing else: a host is allowed exactly when some
  entry, up to case and one trailing dot, has the same labels or is \<open>*.\<close> followed by the labels
  of a parent domain; so a wildcard never covers its own bare domain.
\<close>

theorem hostAllowed_by_labels:
  "(hostAllowed allow host \<longleftrightarrow> (\<exists>a. a \<in> set allow \<and> label_match (labels a) (labels host))) \<and>
   (\<forall>d. norm_host d = d \<and> d \<noteq> [] \<longrightarrow> \<not> hostAllowed [''*.'' @ d] d)"
proof (intro conjI allI impI)
  fix d :: string assume d: "norm_host d = d \<and> d \<noteq> []"
  then have nd: "\<not> suffix ''.'' d" and tl: "to_lower d = d" using norm_host_fixed by blast+
  have "\<not> suffix ''.'' (''*.'' @ d)" using nd d by (auto simp: suffix_Cons)
  then have "norm_host (''*.'' @ d) = to_lower (''*.'' @ d)"
    by (simp only: norm_host_def trim_suffix_def if_False)
  also have "\<dots> = ''*.'' @ to_lower d" by (simp add: to_lower_Cons lower_char_def)
  also have "\<dots> = ''*.'' @ d" by (simp only: tl)
  finally show "\<not> hostAllowed [''*.'' @ d] d"
    using d unfolding hostAllowed_iff label_match_def by auto
qed (rule hostAllowed_iff)

theorem hostAllowed_by_labels_witness:
  "hostAllowed [''*.Example.com''] ''api.example.COM.'' \<and> \<not> hostAllowed [''*.example.com''] ''example.com''"
proof
  show "hostAllowed [''*.Example.com''] ''api.example.COM.''" by code_simp
  have "norm_host ''example.com'' = ''example.com''" by code_simp
  then show "\<not> hostAllowed [''*.example.com''] ''example.com''"
    using hostAllowed_by_labels [THEN conjunct2] by force
qed

end
