(* ===== verification/Outer.thy ===== *)
theory Outer
  imports Home_Binds Flags Policy_Json Broker Egress
begin

text \<open>
  The outer stage (\<open>outer\<close> of \<open>main.go\<close>, with \<open>writeHosts\<close>, \<open>writeResolv\<close> and \<open>warnTIOCSTI\<close> of
  \<open>helpers.go\<close>) up to the bwrap command line: one definition per section of the function, in its
  order, each taking and returning the plan.  \<open>outer_plan\<close> runs them; \<open>Inl\<close> is
  \<open>fatal(code, ...)\<close>.

  What the process learns from outside is the record \<open>world\<close>.  The proxies' listeners, the temp
  files and the snapshot are fields of it: \<open>None\<close> is the error the source turns
  into a \<open>fatal\<close>.
\<close>

section \<open>The outside\<close>

record world =
  w_host :: host
  w_mktemp :: mktemp
  w_mkdirtemp :: "string \<Rightarrow> nat \<Rightarrow> string option"
  w_help :: string
  w_mkdir_ok :: bool
  w_home :: "string option"
  w_cwd :: "string option"
  w_uid :: nat
  w_resolv_link :: bool
  w_tty_stdin :: bool
  w_docker_proxy :: "string \<Rightarrow> string \<Rightarrow> string option"
  w_agent_ok :: "string \<Rightarrow> bool"
  w_look_path :: "string \<Rightarrow> string option"
  w_snapshot :: "string list \<Rightarrow> string list option"
  w_random :: "nat \<Rightarrow> string option"
  w_listen :: "nat \<Rightarrow> nat option"
  w_self :: "string option"

definition runtimeDir :: "world \<Rightarrow> string" where
  "runtimeDir w = ''/run/user/'' @ itoa (w_uid w)"

section \<open>Before the plan\<close>

definition outer_guards :: "world \<Rightarrow> fatal + string \<times> string" where
  "outer_guards w =
     (case w_home w of
        None \<Rightarrow> Inl (2, NoHome)
      | Some home \<Rightarrow> (case w_cwd w of
          None \<Rightarrow> Inl (2, NoCwd)
        | Some cwd \<Rightarrow>
            if cwd = ''/'' then Inl (2, CwdIsRoot)
            else if cwd = home \<or> has_prefix home (cwd @ ''/'') then Inl (2, CwdContainsHome cwd)
            else Inr (home, cwd)))"

definition merge_conf :: "userConf \<Rightarrow> jailOpts \<Rightarrow> userConf" where
  "merge_conf uc o1 = uc\<lparr>uc_ro := uc_ro uc @ o_ro o1, uc_rw := uc_rw uc @ o_rw o1,
     uc_persist := uc_persist uc @ o_persist o1, uc_net := uc_net uc @ netHost o1,
     uc_credential := uc_credential uc @ credential o1\<rparr>"

definition jailHostname :: string where "jailHostname = ''azkaban''"

definition writeHosts :: "host \<Rightarrow> mktemp \<Rightarrow> plan \<Rightarrow> fatal + string \<times> plan" where
  "writeHosts h mk pl =
     (let out = (case read_file h ''/etc/hosts'' of Some d \<Rightarrow> d | None \<Rightarrow> []);
          out = (if \<not> contains_sub out ('' '' @ jailHostname) \<and> \<not> contains_sub out ([CHR 0x09] @ jailHostname)
                 then out @ [newline] @ ''127.0.0.1 '' @ jailHostname else out)
      in tempWith mk ''azkaban-hosts-'' out pl)"

definition writeResolv :: "host \<Rightarrow> mktemp \<Rightarrow> plan \<Rightarrow> fatal + string \<times> plan" where
  "writeResolv h mk pl =
     (let real = (case eval_symlinks h ''/etc/resolv.conf'' of Some t \<Rightarrow> t | None \<Rightarrow> ''/etc/resolv.conf'')
      in tempWith mk ''azkaban-resolv-'' (case read_file h real of Some d \<Rightarrow> d | None \<Rightarrow> []) pl)"

text \<open>The Landlock allowlists start from the base layout and the working directory.\<close>

definition start_plan :: "string \<Rightarrow> string \<Rightarrow> plan" where
  "start_plan home cwd =
     \<lparr>ops = [],
      llRO = [''/dev'', ''/etc'', ''/opt'', ''/proc'', ''/run'', ''/sys'', ''/usr'', home],
      llROFiles = [],
      llRW = [''/dev/pts'', ''/dev/shm'', ''/tmp'', cwd],
      llRWFiles = [''/dev/full'', ''/dev/null'', ''/dev/ptmx'', ''/dev/random'', ''/dev/tty'',
        ''/dev/urandom'', ''/dev/zero''],
      maskFile = [], temps = [], degraded = []\<rparr>"

section \<open>The base layout\<close>

definition setenv_if_set :: "host \<Rightarrow> string \<Rightarrow> plan \<Rightarrow> plan" where
  "setenv_if_set h k pl = (case lookup_env h k of Some v \<Rightarrow> add (Setenv k v) pl | None \<Rightarrow> pl)"

definition env_phase :: "host \<Rightarrow> bool \<Rightarrow> userConf \<Rightarrow> plan \<Rightarrow> plan" where
  "env_phase h keep uc pl =
     (if keep then pl else fold (setenv_if_set h) (envKeep @ uc_env uc) (add Clearenv pl))"

definition add_all :: "bwrap_op list \<Rightarrow> plan \<Rightarrow> plan" where
  "add_all xs pl = fold add xs pl"

text \<open>A temp file with the given content, bound read-only at \<open>dest\<close>.\<close>

definition bind_text :: "mktemp \<Rightarrow> string \<Rightarrow> string \<Rightarrow> string \<Rightarrow> plan \<Rightarrow> fatal + plan" where
  "bind_text mk pre content dest pl =
     bindR (tempWith mk pre content pl) (\<lambda>(f, pl). Inr (add (RoBind f dest) pl))"

definition sshconf_step :: "host \<Rightarrow> mktemp \<Rightarrow> string \<Rightarrow> plan \<Rightarrow> fatal + plan" where
  "sshconf_step h mk p pl =
     (let p = (case eval_symlinks h p of Some t \<Rightarrow> t | None \<Rightarrow> p) in
      case read_file h p of
        None \<Rightarrow> Inr pl
      | Some d \<Rightarrow> bind_text mk ''azkaban-sshconf-'' d p pl)"

definition root_phase :: "host \<Rightarrow> mktemp \<Rightarrow> string \<Rightarrow> plan \<Rightarrow> fatal + plan" where
  "root_phase h mk hostsFile pl =
     foldR (sshconf_step h mk) (glob h ''/etc/ssh/ssh_config.d/*.conf'')
       (add_all [RoBind ''/usr'' ''/usr'', SymlinkAt ''usr/bin'' ''/bin'', SymlinkAt ''usr/lib'' ''/lib'',
          SymlinkAt ''usr/lib64'' ''/lib64'', SymlinkAt ''usr/sbin'' ''/sbin'',
          RoBind ''/etc'' ''/etc'', RoBind hostsFile ''/etc/hosts''] pl)"

definition resolv_target :: "world \<Rightarrow> string" where
  "resolv_target w =
     (if w_resolv_link w
      then (case eval_symlinks (w_host w) ''/etc/resolv.conf'' of Some t \<Rightarrow> t | None \<Rightarrow> ''/etc/resolv.conf'')
      else ''/etc/resolv.conf'')"

definition kernel_phase :: "world \<Rightarrow> string \<Rightarrow> plan \<Rightarrow> plan" where
  "kernel_phase w resolvFile pl =
     (let pl = (if exists (w_host w) ''/opt'' then add (RoBind ''/opt'' ''/opt'') pl else pl)
      in add_all [RoBind ''/sys'' ''/sys'', MountDev ''/dev'', MountProc ''/proc'', Tmpfs ''/tmp'', Tmpfs ''/run'',
           RoBind resolvFile (resolv_target w)] pl)"

definition proc_step :: "mktemp \<Rightarrow> string \<Rightarrow> plan \<Rightarrow> fatal + plan" where
  "proc_step mk p pl = bindR (maskFileOnce mk pl) (\<lambda>(f, pl). Inr (add (RoBind f (''/proc/'' @ p)) pl))"

definition sys_step :: "host \<Rightarrow> string \<Rightarrow> plan \<Rightarrow> plan" where
  "sys_step h s pl = (if exists h (''/sys/'' @ s) then add (Tmpfs (''/sys/'' @ s)) pl else pl)"

definition gpu_step :: "host \<Rightarrow> string \<Rightarrow> plan \<Rightarrow> plan" where
  "gpu_step h d pl = (if \<not> exists h d then pl else grantRW h d (add (DevBind d d) pl))"

definition gpu_phase :: "host \<Rightarrow> bool \<Rightarrow> plan \<Rightarrow> plan" where
  "gpu_phase h gpuOn pl = (if gpuOn then fold (gpu_step h) (glob h ''/dev/nvidia*'' @ [''/dev/dri'']) pl else pl)"

section \<open>The container socket\<close>

text \<open>\<open>strings.ReplaceAll(cand, "$XDG", runtimeDir)\<close>; the candidates hold it at their start or not at all.\<close>

definition replace_xdg :: "string \<Rightarrow> string \<Rightarrow> string" where
  "replace_xdg dir cand = (case cut_prefix cand ''$XDG'' of Some r \<Rightarrow> dir @ r | None \<Rightarrow> cand)"

definition real_socket :: "world \<Rightarrow> string \<Rightarrow> string option" where
  "real_socket w kind =
     find (exists (w_host w)) (map (replace_xdg (runtimeDir w)) (containerSockets kind))"

definition socket_source :: "world \<Rightarrow> string \<Rightarrow> jailOpts \<Rightarrow> string \<Rightarrow> plan \<Rightarrow> fatal + string \<times> plan" where
  "socket_source w cwd o1 realSock pl =
     (if rawSock o1 then Inr (realSock, degrade ''unfiltered-container-socket'' pl)
      else if \<not> dry o1 then
        (case w_docker_proxy w realSock cwd of
           None \<Rightarrow> Inl (1, ProxyFailed)
         | Some ps \<Rightarrow> Inr (ps, pl))
      else Inr (realSock, pl))"

definition container_phase :: "world \<Rightarrow> string \<Rightarrow> jailOpts \<Rightarrow> plan \<Rightarrow> fatal + plan" where
  "container_phase w cwd o1 pl =
     (if socketKind o1 = [] then Inr pl
      else (case real_socket w (socketKind o1) of
        None \<Rightarrow> Inl (1, NoSocket (socketKind o1))
      | Some realSock \<Rightarrow>
          let pl = (if realSock = ''/var/run/docker.sock'' \<or> realSock = ''/run/podman/podman.sock''
                    then degrade ''rootful-container-socket'' pl else pl) in
          bindR (socket_source w cwd o1 realSock pl) (\<lambda>(src, pl).
            let pl = add (Setenv ''DOCKER_HOST'' (''unix://'' @ realSock)) (add (RwBind src realSock) pl);
                pl = (if socketKind o1 = ''podman''
                      then add (Setenv ''CONTAINER_HOST'' (''unix://'' @ realSock)) pl else pl)
            in Inr (pl\<lparr>llRWFiles := llRWFiles pl @ [realSock]\<rparr>))))"

section \<open>Shared memory and display\<close>

definition bind_same :: "string \<Rightarrow> plan \<Rightarrow> plan" where
  "bind_same m pl = add (RwBind m m) pl"

definition display_phase :: "world \<Rightarrow> bool \<Rightarrow> plan \<Rightarrow> plan" where
  "display_phase w displayOn pl =
     (let h = w_host w; rd = runtimeDir w;
          pl = (if exists h ''/dev/shm'' then add (DevBind ''/dev/shm'' ''/dev/shm'') pl else pl) in
      if \<not> displayOn then pl
      else
        let pl = (if exists h ''/tmp/.X11-unix'' then bind_same ''/tmp/.X11-unix'' pl else pl);
            xa = getenv h ''XAUTHORITY'';
            pl = (if xa \<noteq> [] \<and> exists h xa then add (RoBind xa xa) pl else pl) in
        if \<not> exists h rd then pl
        else
          let pl = add (Tmpfs rd) pl; pl = pl\<lparr>llRW := llRW pl @ [rd]\<rparr>
          in fold bind_same (concat (map (\<lambda>pat. glob h (join_path [rd, pat])) displaySockets)) pl)"

section \<open>The ssh agent and unix sockets\<close>

text \<open>The socket to bind: the agent's own, or the filtering proxy's in a fresh directory.\<close>

definition agent_socket :: "world \<Rightarrow> jailOpts \<Rightarrow> plan \<Rightarrow> fatal + string \<times> plan" where
  "agent_socket w o1 pl =
     (let sock = getenv (w_host w) ''SSH_AUTH_SOCK'' in
      if sock = [] then Inl (1, NoAgent)
      else if \<not> exists (w_host w) sock then Inl (1, NoAgentSocket sock)
      else if \<not> sshAgentRaw o1 \<and> \<not> dry o1 then
        (case w_mkdirtemp w ''azkaban-ssh-'' (length (temps pl)) of
           None \<Rightarrow> Inl (1, AgentProxyFailed)
         | Some d \<Rightarrow>
             if \<not> w_agent_ok w d then Inl (1, AgentProxyFailed)
             else let s = join_path [d, ''agent.sock''] in
               Inr (s, pl\<lparr>temps := temps pl @ [(d, []), (s, [])]\<rparr>))
      else Inr (sock, pl))"

definition agent_phase :: "world \<Rightarrow> string \<Rightarrow> jailOpts \<Rightarrow> plan \<Rightarrow> fatal + plan" where
  "agent_phase w home o1 pl =
     (if \<not> sshAgent o1 then Inr pl
      else bindR (agent_socket w o1 pl) (\<lambda>(sock, pl).
        let pl = add (Setenv ''SSH_AUTH_SOCK'' sock) (add (RwBind sock sock) pl);
            pl = pl\<lparr>llRWFiles := llRWFiles pl @ [sock]\<rparr>;
            kh = join_path [home, ''.ssh'', ''known_hosts''] in
        Inr (if exists (w_host w) kh then (add (RoBind kh kh) pl)\<lparr>llROFiles := llROFiles pl @ [kh]\<rparr> else pl)))"

definition unix_socket_step :: "host \<Rightarrow> string \<Rightarrow> string \<Rightarrow> plan \<Rightarrow> fatal + plan" where
  "unix_socket_step h home s pl =
     (let p = resolve home s in
      if \<not> bindSafe home p then Inl (2, RefusedUnixSocket p)
      else if \<not> exists h p then Inl (1, NoUnixSocket p)
      else Inr ((add (RwBind p p) pl)\<lparr>llRWFiles := llRWFiles pl @ [p]\<rparr>))"

definition unix_socket_dir_step :: "host \<Rightarrow> string \<Rightarrow> string \<Rightarrow> plan \<Rightarrow> fatal + plan" where
  "unix_socket_dir_step h home s pl =
     (let p = resolve home s in
      if \<not> bindSafe home p then Inl (2, RefusedUnixSocketDir p)
      else if \<not> isDir h p then Inl (1, NotADirectory p)
      else Inr ((add (RwBind p p) pl)\<lparr>llRW := llRW pl @ [p]\<rparr>))"

section \<open>The working directory, the target and the isolation\<close>

definition target_phase :: "world \<Rightarrow> string \<Rightarrow> string list \<Rightarrow> plan \<Rightarrow> fatal + string list \<times> plan" where
  "target_phase w cwd cmd pl =
     (let pl = add (Chdir cwd) (add (RwBind cwd cwd) pl) in
      case w_look_path w (hd cmd) of
        None \<Rightarrow> Inl (127, CommandNotFound (hd cmd))
      | Some bin \<Rightarrow>
          let bin = (case eval_symlinks (w_host w) bin of Some r \<Rightarrow> r | None \<Rightarrow> bin)
          in Inr (bin # tl cmd, (add (RoBind bin bin) pl)\<lparr>llROFiles := llROFiles pl @ [bin]\<rparr>))"

definition warnTIOCSTI :: "world \<Rightarrow> plan \<Rightarrow> plan" where
  "warnTIOCSTI w pl =
     (case read_file (w_host w) ''/proc/sys/dev/tty/legacy_tiocsti'' of
        Some b \<Rightarrow> if trim_space b = ''0'' \<or> \<not> w_tty_stdin w then pl else degrade ''tiocsti-permissive'' pl
      | None \<Rightarrow> if \<not> w_tty_stdin w then pl else degrade ''tiocsti-permissive'' pl)"

definition isolation_phase :: "world \<Rightarrow> jailOpts \<Rightarrow> plan \<Rightarrow> plan" where
  "isolation_phase w o1 pl =
     (let pl = add_all (map Switch [''--die-with-parent'', ''--unshare-pid'', ''--unshare-uts'', ''--unshare-ipc'',
            ''--unshare-cgroup-try'']) pl;
          pl = (if \<not> allowUserns o1 \<and> bwrapHas (w_help w) ''--disable-userns''
                then add_all [Switch ''--unshare-user'', Switch ''--disable-userns''] pl else pl);
          pl = (if netIsolate o1 then add (Switch ''--unshare-net'') pl else pl);
          pl = (if \<not> dry o1 then warnTIOCSTI w pl else pl)
      in add (Hostname jailHostname) pl)"

definition display_env :: "world \<Rightarrow> bool \<Rightarrow> plan \<Rightarrow> plan" where
  "display_env w displayOn pl =
     (let h = w_host w;
          pl = (if \<not> displayOn then pl else
            let d = getenv h ''DISPLAY'';
                pl = add (Setenv ''DISPLAY'' (if d \<noteq> [] then d else '':0'')) pl;
                xa = getenv h ''XAUTHORITY'';
                pl = (if xa \<noteq> [] then add (Setenv ''XAUTHORITY'' xa) pl else pl);
                wd = getenv h ''WAYLAND_DISPLAY'';
                pl = (if wd \<noteq> [] then add (Setenv ''WAYLAND_DISPLAY'' wd) pl else pl)
            in add (Setenv ''XDG_RUNTIME_DIR'' (runtimeDir w)) pl)
      in add (Setenv ''PS1'' (''(jail) '' @ [CHR 0x5C] @ ''w '' @ [CHR 0x5C] @ ''$ '')) pl)"

section \<open>Snapshot, credentials and egress\<close>

definition rollback_phase :: "world \<Rightarrow> string \<Rightarrow> userConf \<Rightarrow> jailOpts \<Rightarrow> plan \<Rightarrow> fatal + plan" where
  "rollback_phase w home uc o1 pl =
     (if \<not> rollback o1 \<or> dry o1 then Inr pl
      else (case w_snapshot w (presentUnder (w_host w) home (rwPaths @ uc_rw uc)) of
        None \<Rightarrow> Inl (1, SnapshotFailed)
      | Some skipped \<Rightarrow> Inr (fold (\<lambda>s. degrade ''rollback-skipped'') skipped pl)))"

definition setenvs :: "(string \<times> string) list \<Rightarrow> plan \<Rightarrow> plan" where
  "setenvs kvs pl = fold (\<lambda>(k, v). add (Setenv k v)) kvs pl"

text \<open>The \<open>n\<close>-th listener of a run serves the \<open>n\<close>-th broker, the next one the egress proxy.\<close>

definition credential_step :: "world \<Rightarrow> string \<Rightarrow> jailOpts \<times> plan \<Rightarrow> fatal + jailOpts \<times> plan" where
  "credential_step w directive st = (case st of (o1, pl) \<Rightarrow>
     (case parseCredentialDirective directive of
        Inl e \<Rightarrow> Inl (2, BadCredential directive)
      | Inr (name, wr) \<Rightarrow>
          if dry o1 then
            Inr (o1, add (Setenv (''AZKABAN_CREDENTIAL_'' @ to_upper name) ''<brokered at 127.0.0.1:<port>>'') pl)
          else let n = length (brokerPorts o1) in
            (case startCredentialBroker (w_host w) (w_random w n) (w_listen w n) name wr of
               Inl e \<Rightarrow> Inl (1, BrokerFailed name)
             | Inr b \<Rightarrow> Inr (o1\<lparr>brokerPorts := brokerPorts o1 @ [itoa (b_port b)]\<rparr>, setenvs (jailEnv b) pl))))"

definition proxy_env :: "string \<Rightarrow> (string \<times> string) list" where
  "proxy_env url =
     map (\<lambda>k. (k, url)) [''HTTP_PROXY'', ''HTTPS_PROXY'', ''http_proxy'', ''https_proxy''] @
     [(''NO_PROXY'', ''localhost,127.0.0.1''), (''no_proxy'', ''localhost,127.0.0.1'')]"

definition proxy_url :: "string \<Rightarrow> string \<Rightarrow> string" where
  "proxy_url token address = ''http://azkaban:'' @ token @ ''@'' @ address"

definition egress_phase :: "world \<Rightarrow> userConf \<Rightarrow> jailOpts \<times> plan \<Rightarrow> fatal + jailOpts \<times> plan" where
  "egress_phase w uc st = (case st of (o1, pl) \<Rightarrow>
     if uc_net uc = [] then Inr (o1, pl)
     else if \<not> landlockOn o1 then Inl (2, NetNeedsLandlock)
     else if netIsolate o1 then Inl (2, NetContradiction)
     else if dry o1 then
       Inr (o1\<lparr>netPorts := ''<proxy port>'', egressHosts := uc_net uc\<rparr>,
            setenvs (proxy_env (proxy_url ''<per-run token>'' ''127.0.0.1:<port>'')) pl)
     else let n = length (brokerPorts o1) in
       (case startEgressProxy (w_random w n) (w_listen w n) (uc_net uc) of
          None \<Rightarrow> Inl (1, EgressFailed)
        | Some (ep, port) \<Rightarrow>
            Inr (o1\<lparr>netPorts := itoa port, egressHosts := uc_net uc\<rparr>,
                 setenvs (proxy_env (proxy_url (ep_token ep) (''127.0.0.1:'' @ itoa port))) pl)))"

definition broker_ports :: "jailOpts \<Rightarrow> jailOpts" where
  "broker_ports o1 =
     (if brokerPorts o1 = [] then o1
      else if netPorts o1 = [] \<and> \<not> netIsolate o1 then o1\<lparr>brokerPorts := []\<rparr>
      else o1\<lparr>netPorts := join_with '','' (portFields (netPorts o1) @ brokerPorts o1)\<rparr>)"

section \<open>The inner command and the jail's description\<close>

definition elevateFDEnv :: string where "elevateFDEnv = ''AZKABAN_ELEVATE_FD''"
definition elevateSockFD :: nat where "elevateSockFD = 4"

definition ll_setenv :: "string \<Rightarrow> string list \<Rightarrow> plan \<Rightarrow> fatal + plan" where
  "ll_setenv name paths pl =
     (case llJoin paths of Inl p \<Rightarrow> Inl (2, ChannelInjection p) | Inr v \<Rightarrow> Inr (add (Setenv name v) pl))"

definition self_path :: "world \<Rightarrow> string \<Rightarrow> string" where
  "self_path w self = (case eval_symlinks (w_host w) self of Some r \<Rightarrow> r | None \<Rightarrow> self)"

text \<open>The four allowlists, then the ports and the supervisor's descriptor.\<close>

definition ll_channel :: "plan \<Rightarrow> fatal + plan" where
  "ll_channel pl =
     bindR (ll_setenv llEnvRO (llRO pl) pl) (\<lambda>pl.
     bindR (ll_setenv llEnvROFiles (llROFiles pl) pl) (\<lambda>pl.
     bindR (ll_setenv llEnvRW (llRW pl) pl) (\<lambda>pl.
     ll_setenv llEnvRWFiles (llRWFiles pl) pl)))"

definition port_channel :: "jailOpts \<Rightarrow> plan \<Rightarrow> plan" where
  "port_channel o1 pl =
     (let ps = portFields (netPorts o1);
          pl = (if ps \<noteq> [] then add (Setenv llEnvPorts (join_with [newline] ps)) pl else pl)
      in if elevate o1 then add (Setenv elevateFDEnv (itoa elevateSockFD)) pl else pl)"

definition inner_phase :: "world \<Rightarrow> jailOpts \<Rightarrow> string list \<Rightarrow> plan \<Rightarrow> fatal + string list \<times> plan" where
  "inner_phase w o1 cmd pl =
     (if \<not> landlockOn o1 then Inr (cmd, pl)
      else (case w_self w of
        None \<Rightarrow> Inl (1, CannotLocateSelf)
      | Some self \<Rightarrow>
          bindR (ll_channel (add (RoBind (self_path w self) selfInJail) pl)) (\<lambda>pl.
            Inr ([selfInJail, landlockExecFlag, ''--''] @ cmd, port_channel o1 pl))))"

definition policy_of :: "world \<Rightarrow> string \<Rightarrow> string \<Rightarrow> userConf \<Rightarrow> jailOpts \<Rightarrow> jailPolicy" where
  "policy_of w home cwd uc o1 =
     jail_policy (w_host w) home cwd uc (overlay o1) (landlockOn o1) (netIsolate o1) (netPorts o1) (egressHosts o1)"

definition bind_self :: "world \<Rightarrow> plan \<Rightarrow> plan" where
  "bind_self w pl = (case w_self w of
     Some self \<Rightarrow> add (RoBind (self_path w self) guidanceBinPath) pl | None \<Rightarrow> pl)"

definition guidance_phase :: "world \<Rightarrow> string \<Rightarrow> string \<Rightarrow> userConf \<Rightarrow> jailOpts \<Rightarrow> plan \<Rightarrow> fatal + plan" where
  "guidance_phase w home cwd uc o1 pl =
     (if noGuidance o1 then Inr pl
      else let jp = policy_of w home cwd uc o1; mk = w_mktemp w in
        bindR (bind_text mk ''azkaban-policy-'' (policy_text jp) guidancePolicyPath pl) (\<lambda>pl.
        bindR (bind_text mk ''azkaban-readme-'' (guidanceText jp) guidanceReadmePath pl) (\<lambda>pl.
        bindR (bind_text mk ''azkaban-hook-'' (text_of claudeHook) (guidanceDir @ ''/claude-hook.sh'') pl) (\<lambda>pl.
          Inr (setenvs [(''AZKABAN_JAIL'', ''1''), (''AZKABAN_POLICY'', guidancePolicyPath)] (bind_self w pl))))))"

section \<open>The whole plan\<close>

record launch =
  l_opts :: jailOpts
  l_conf :: userConf
  l_cmd :: "string list"
  l_inner :: "string list"
  l_plan :: plan

text \<open>The mounts below \<open>$HOME\<close> and everything before them.\<close>

definition base_plan :: "world \<Rightarrow> string \<Rightarrow> string \<Rightarrow> userConf \<Rightarrow> jailOpts \<Rightarrow> fatal + plan" where
  "base_plan w home cwd uc o1 =
     (let h = w_host w; mk = w_mktemp w in
      bindR (writeHosts h mk (start_plan home cwd)) (\<lambda>(hostsFile, pl).
      bindR (writeResolv h mk pl) (\<lambda>(resolvFile, pl).
      bindR (root_phase h mk hostsFile (env_phase h (keepEnv o1) uc pl)) (\<lambda>pl.
      bindR (foldR (proc_step mk) procMask (kernel_phase w resolvFile pl)) (\<lambda>pl.
        let pl = gpu_phase h (gpu o1) (fold (sys_step h) sysMask pl) in
      bindR (container_phase w cwd o1 pl) (\<lambda>pl. Inr (display_phase w (display o1) pl)))))))"

text \<open>The grants bound on top of the masks.\<close>

definition grant_plan ::
  "world \<Rightarrow> string \<Rightarrow> string \<Rightarrow> userConf \<Rightarrow> jailOpts \<Rightarrow> string list \<Rightarrow> plan \<Rightarrow> fatal + string list \<times> plan" where
  "grant_plan w home cwd uc o1 cmd pl =
     bindR (agent_phase w home o1 pl) (\<lambda>pl.
     bindR (foldR (unix_socket_step (w_host w) home) (unixSocket o1 @ uc_unixSocket uc) pl) (\<lambda>pl.
     bindR (foldR (unix_socket_dir_step (w_host w) home) (unixSocketDir o1 @ uc_unixSocketDir uc) pl) (\<lambda>pl.
     target_phase w cwd cmd pl)))"

text \<open>From the options to the finished plan, once the guards have passed.\<close>

definition build_plan ::
  "world \<Rightarrow> string \<Rightarrow> string \<Rightarrow> userConf \<Rightarrow> jailOpts \<Rightarrow> string list \<Rightarrow> fatal + launch" where
  "build_plan w home cwd uc o1 cmd =
     bindR (base_plan w home cwd uc o1) (\<lambda>pl.
     bindR (home_binds (w_host w) (w_mktemp w) (w_help w) (w_mkdir_ok w) home uc (overlay o1) pl) (\<lambda>(h, ov, pl).
       let w = w\<lparr>w_host := h\<rparr>; o1 = o1\<lparr>overlay := ov\<rparr> in
     bindR (grant_plan w home cwd uc o1 cmd pl) (\<lambda>(cmd, pl).
     bindR (rollback_phase w home uc o1 (display_env w (display o1) (isolation_phase w o1 pl))) (\<lambda>pl.
     bindR (foldR (credential_step w) (uc_credential uc) (o1, pl)) (\<lambda>st.
     bindR (egress_phase w uc st) (\<lambda>(o1, pl).
       let o1 = broker_ports o1 in
     bindR (inner_phase w o1 cmd pl) (\<lambda>(inner, pl).
     bindR (guidance_phase w home cwd uc o1 pl) (\<lambda>pl.
       Inr \<lparr>l_opts = o1, l_conf = uc, l_cmd = cmd, l_inner = inner, l_plan = pl\<rparr>))))))))"

definition bwrapBin :: string where "bwrapBin = ''/usr/bin/bwrap''"

definition full_command :: "launch \<Rightarrow> string list" where
  "full_command l = bwrapBin # bwrap_args (ops (l_plan l)) @ ''--'' # l_inner l"

datatype outer_result =
    Helped
  | Usage usage_error
  | Refused nat refusal
  | Launch launch

definition outer_plan :: "world \<Rightarrow> string list \<Rightarrow> outer_result" where
  "outer_plan w argv =
     (case parseFlags (getenv (w_host w) ''SHELL'') argv of
        Inl e \<Rightarrow> Usage e
      | Inr None \<Rightarrow> Helped
      | Inr (Some (o1, cmd)) \<Rightarrow>
          (case outer_guards w of
             Inl (code, r) \<Rightarrow> Refused code r
           | Inr (home, cwd) \<Rightarrow>
               (case build_plan w home cwd (merge_conf (loadUserBinds (w_host w) home) o1) o1 cmd of
                  Inl (code, r) \<Rightarrow> Refused code r
                | Inr l \<Rightarrow> Launch l)))"

end
