(* ===== verification/Outer_Correct.thy ===== *)
theory Outer_Correct
  imports Outer
begin

text \<open>
  What every plan that \<open>outer\<close> finishes satisfies.  \<open>plan_inv\<close> is kept by each section: a writable
  mount is always also granted to Landlock, and a variable is only set if its name is on the
  allowlist or is one of azkaban's own.  The second half follows the mounts below \<open>$HOME\<close>: the
  frozen config directory is read-only in the finished plan unless an explicit grant that is
  bound later covers it.
\<close>

section \<open>The invariant\<close>

definition granted :: "string list \<Rightarrow> string list \<Rightarrow> string \<Rightarrow> bool" where
  "granted rw rwf d \<longleftrightarrow> (\<exists>r \<in> set rw. under d r) \<or> d \<in> set rwf"

text \<open>
  What an option may be: a variable's name is in \<open>N\<close>; a mount the jail can write is granted to
  Landlock, or is a memory file system at a place in \<open>M\<close>, or is bwrap's \<open>/dev\<close> or \<open>/proc\<close>.
\<close>

fun okop :: "string set \<Rightarrow> string set \<Rightarrow> string list \<Rightarrow> string list \<Rightarrow> bwrap_op \<Rightarrow> bool" where
  "okop M N rw rwf (Setenv k v) = (k \<in> N)"
| "okop M N rw rwf (RwBind s d) = granted rw rwf d"
| "okop M N rw rwf (DevBind s d) = granted rw rwf d"
| "okop M N rw rwf (TmpOverlay d) = granted rw rwf d"
| "okop M N rw rwf (Tmpfs d) = (d \<in> M \<or> granted rw rwf d)"
| "okop M N rw rwf (MountDev d) = (d = ''/dev'')"
| "okop M N rw rwf (MountProc d) = (d = ''/proc'')"
| "okop M N rw rwf _ = True"

definition plan_inv :: "string set \<Rightarrow> string set \<Rightarrow> string set \<Rightarrow> plan \<Rightarrow> bool" where
  "plan_inv C M N pl \<longleftrightarrow> (\<forall>op \<in> set (ops pl). okop M N (llRW pl) (llRWFiles pl) op) \<and> C \<subseteq> set (llRW pl)"

lemma under_refl [simp]: "under d d"
  by (simp add: under_def)

lemma granted_mono:
  "granted rw rwf d \<Longrightarrow> set rw \<subseteq> set rw' \<Longrightarrow> set rwf \<subseteq> set rwf' \<Longrightarrow> granted rw' rwf' d"
  unfolding granted_def by blast

lemma okop_mono:
  "okop M N rw rwf op \<Longrightarrow> set rw \<subseteq> set rw' \<Longrightarrow> set rwf \<subseteq> set rwf' \<Longrightarrow> okop M N rw' rwf' op"
  by (cases op) (auto intro: granted_mono)

lemma grantedI [intro]: "d \<in> set rw \<Longrightarrow> granted rw rwf d" "d \<in> set rwf \<Longrightarrow> granted rw rwf d"
  using under_refl [of d] unfolding granted_def by blast+

lemma granted_simps [simp]: "granted (rw @ [d]) rwf d" "granted rw (rwf @ [d]) d"
  by (rule grantedI; simp)+

text \<open>A plan that grows by allowed options and by grants keeps the invariant.\<close>

lemma inv_grow:
  assumes "plan_inv C M N pl" and "ops pl' = ops pl @ xs"
    and "set (llRW pl) \<subseteq> set (llRW pl')" and "set (llRWFiles pl) \<subseteq> set (llRWFiles pl')"
    and "\<And>x. x \<in> set xs \<Longrightarrow> okop M N (llRW pl') (llRWFiles pl') x"
  shows "plan_inv C M N pl'"
  using assms unfolding plan_inv_def by (auto intro: okop_mono)

lemma inv_add_iff [simp]:
  "plan_inv C M N (add op pl) \<longleftrightarrow> okop M N (llRW pl) (llRWFiles pl) op \<and> plan_inv C M N pl"
  by (auto simp: plan_inv_def)

lemma inv_add: "plan_inv C M N pl \<Longrightarrow> okop M N (llRW pl) (llRWFiles pl) op \<Longrightarrow> plan_inv C M N (add op pl)"
  by (erule inv_grow [where xs = "[op]"]) simp_all

lemma inv_add_all:
  "plan_inv C M N pl \<Longrightarrow> (\<And>op. op \<in> set xs \<Longrightarrow> okop M N (llRW pl) (llRWFiles pl) op) \<Longrightarrow>
     plan_inv C M N (add_all xs pl)"
  unfolding add_all_def by (induction xs arbitrary: pl) (simp_all add: inv_add)

lemma inv_degrade [simp]: "plan_inv C M N (degrade x pl) = plan_inv C M N pl"
  by (simp add: plan_inv_def)

lemma inv_simps [simp]:
  "plan_inv C M N (pl\<lparr>temps := ts\<rparr>) = plan_inv C M N pl"
  "plan_inv C M N (pl\<lparr>maskFile := f\<rparr>) = plan_inv C M N pl"
  "plan_inv C M N (pl\<lparr>llRO := xs\<rparr>) = plan_inv C M N pl"
  "plan_inv C M N (pl\<lparr>llROFiles := xs\<rparr>) = plan_inv C M N pl"
  by (simp_all add: plan_inv_def)

lemma inv_grantRO [simp]: "plan_inv C M N (grantRO h p pl) = plan_inv C M N pl"
  by (simp add: grantRO_def)

lemma inv_bind_grant:
  assumes "plan_inv C M N pl" and "op = RwBind s p \<or> op = DevBind s p \<or> op = TmpOverlay p"
  shows "plan_inv C M N (grantRW h p (add op pl))"
  by (rule inv_grow [OF assms(1), where xs = "[op]"]) (use assms(2) in \<open>auto simp: grantRW_def\<close>)

lemma inv_tempWith: "tempWith mk pre d pl = Inr (f, pl') \<Longrightarrow> plan_inv C M N pl \<Longrightarrow> plan_inv C M N pl'"
  by (auto simp: tempWith_Inr)

lemma inv_bind_text: "bind_text mk pre c d pl = Inr pl' \<Longrightarrow> plan_inv C M N pl \<Longrightarrow> plan_inv C M N pl'"
  by (auto simp: bind_text_def tempWith_Inr)

lemma inv_maskFileOnce: "maskFileOnce mk pl = Inr (f, pl') \<Longrightarrow> plan_inv C M N pl \<Longrightarrow> plan_inv C M N pl'"
  by (auto simp: maskFileOnce_def tempWith_Inr split: if_splits)

lemma inv_fold:
  "plan_inv C M N pl \<Longrightarrow> (\<And>x pl. x \<in> set xs \<Longrightarrow> plan_inv C M N pl \<Longrightarrow> plan_inv C M N (f x pl)) \<Longrightarrow>
     plan_inv C M N (fold f xs pl)"
  by (induction xs arbitrary: pl) auto

lemma inv_foldR:
  "foldR f xs pl = Inr pl' \<Longrightarrow> plan_inv C M N pl \<Longrightarrow>
     (\<And>x s t. x \<in> set xs \<Longrightarrow> f x s = Inr t \<Longrightarrow> plan_inv C M N s \<Longrightarrow> plan_inv C M N t) \<Longrightarrow> plan_inv C M N pl'"
  using foldR_invariant [of f xs pl pl' "plan_inv C M N"] by blast

section \<open>Every section keeps it\<close>

text \<open>The names azkaban sets on its own.\<close>

definition own_names :: "string set" where
  "own_names = {''DOCKER_HOST'', ''CONTAINER_HOST'', ''SSH_AUTH_SOCK'', ''DISPLAY'', ''XAUTHORITY'',
     ''WAYLAND_DISPLAY'', ''XDG_RUNTIME_DIR'', ''PS1'', ''HTTP_PROXY'', ''HTTPS_PROXY'', ''http_proxy'',
     ''https_proxy'', ''NO_PROXY'', ''no_proxy'', ''GIT_CONFIG_COUNT'', ''GIT_CONFIG_KEY_0'',
     ''GIT_CONFIG_VALUE_0'', llEnvRO, llEnvROFiles, llEnvRW, llEnvRWFiles, llEnvPorts, elevateFDEnv,
     ''AZKABAN_JAIL'', ''AZKABAN_POLICY''} \<union> {n. has_prefix n ''AZKABAN_CREDENTIAL_''}"

definition env_names :: "userConf \<Rightarrow> string set" where
  "env_names uc = set envKeep \<union> set (uc_env uc) \<union> own_names"

text \<open>The writable directories every run starts with.\<close>

definition base_rw :: "string \<Rightarrow> string set" where
  "base_rw cwd = {''/dev/pts'', ''/dev/shm'', ''/tmp'', cwd}"

text \<open>The memory file systems that no allowlist names.\<close>

definition memory_dirs :: "string \<Rightarrow> userConf \<Rightarrow> string set" where
  "memory_dirs home uc = {''/run'', home} \<union> (\<lambda>s. ''/sys/'' @ s) ` set sysMask \<union>
     resolve home ` set (maskPaths @ uc_mask uc)"

lemma own_name [intro]: "k \<in> own_names \<Longrightarrow> k \<in> env_names uc"
  by (simp add: env_names_def)

lemma start_inv: "plan_inv (base_rw cwd) M N (start_plan home cwd)"
  by (simp add: plan_inv_def start_plan_def base_rw_def)

lemma env_phase_inv:
  assumes "plan_inv C M (env_names uc) pl"
  shows "plan_inv C M (env_names uc) (env_phase h keep uc pl)"
proof -
  have "plan_inv C M (env_names uc) (setenv_if_set h k pl)"
    if "k \<in> set (envKeep @ uc_env uc)" "plan_inv C M (env_names uc) pl" for k pl
    using that by (auto simp: setenv_if_set_def env_names_def intro: inv_add split: option.splits)
  then show ?thesis
    unfolding env_phase_def by (auto simp del: fold_append intro!: inv_fold inv_add assms)
qed

lemma root_phase_inv:
  "root_phase h mk f pl = Inr pl' \<Longrightarrow> plan_inv C M N pl \<Longrightarrow> plan_inv C M N pl'"
  unfolding root_phase_def
  by (erule inv_foldR)
    (auto simp: sshconf_step_def Let_def intro: inv_bind_text intro!: inv_add_all split: option.splits)

lemma kernel_phase_inv:
  assumes "plan_inv (base_rw cwd) M N pl" and "''/run'' \<in> M"
  shows "plan_inv (base_rw cwd) M N (kernel_phase w f pl)"
proof -
  have "''/tmp'' \<in> set (llRW pl)" using assms(1) by (auto simp: plan_inv_def base_rw_def)
  then have "granted (llRW pl) rwf ''/tmp''" for rwf by blast
  then show ?thesis using assms by (auto simp: kernel_phase_def Let_def intro!: inv_add_all inv_add)
qed

lemma proc_step_inv: "proc_step mk p pl = Inr pl' \<Longrightarrow> plan_inv C M N pl \<Longrightarrow> plan_inv C M N pl'"
  by (auto simp: proc_step_def intro!: inv_add dest: inv_maskFileOnce)

lemma sys_gpu_inv:
  assumes "plan_inv C M N pl" and "(\<lambda>s. ''/sys/'' @ s) ` set sysMask \<subseteq> M"
  shows "plan_inv C M N (gpu_phase h g (fold (sys_step h) sysMask pl))"
proof -
  have "plan_inv C M N (fold (sys_step h) sysMask pl)"
    using assms(1) by (rule inv_fold) (use assms(2) in \<open>auto simp: sys_step_def intro: inv_add\<close>)
  then show ?thesis
    by (auto simp: gpu_phase_def gpu_step_def intro!: inv_fold inv_bind_grant)
qed

lemma socket_source_inv:
  "socket_source w cwd o1 rs pl = Inr (src, pl') \<Longrightarrow> plan_inv C M N pl \<Longrightarrow> plan_inv C M N pl'"
  by (auto simp: socket_source_def split: if_splits option.splits)

lemma container_phase_inv:
  assumes "container_phase w cwd o1 pl = Inr pl'" and "plan_inv C M (env_names uc) pl"
  shows "plan_inv C M (env_names uc) pl'"
proof (cases "socketKind o1 = []")
  case False
  with assms(1) obtain rs where rs: "real_socket w (socketKind o1) = Some rs"
    by (auto simp: container_phase_def split: option.splits)
  let ?pl = "if rs = ''/var/run/docker.sock'' \<or> rs = ''/run/podman/podman.sock''
      then degrade ''rootful-container-socket'' pl else pl"
  from assms(1) False rs obtain src p1 where s: "socket_source w cwd o1 rs ?pl = Inr (src, p1)"
    by (auto simp: container_phase_def Let_def)
  have p1: "plan_inv C M (env_names uc) p1" using socket_source_inv [OF s] assms(2) by simp
  from assms(1) False rs s have eq: "ops pl' = ops p1 @ [RwBind src rs, Setenv ''DOCKER_HOST'' (''unix://'' @ rs)] @
      (if socketKind o1 = ''podman'' then [Setenv ''CONTAINER_HOST'' (''unix://'' @ rs)] else [])"
    and rw: "llRW pl' = llRW p1" "llRWFiles pl' = llRWFiles p1 @ [rs]"
    by (auto simp: container_phase_def Let_def)
  show ?thesis
    by (rule inv_grow [OF p1 eq]) (auto simp: rw env_names_def own_names_def split: if_splits)
qed (use assms in \<open>simp add: container_phase_def\<close>)

text \<open>Documented behaviour of \<open>filepath.Glob\<close>: what \<open>dir/pattern\<close> matches lies in \<open>dir\<close>.\<close>

definition glob_inside :: "world \<Rightarrow> bool" where
  "glob_inside w \<longleftrightarrow> (\<forall>pat m. m \<in> set (glob (w_host w) (join_path [runtimeDir w, pat])) \<longrightarrow> under m (runtimeDir w))"

lemma base_rw_granted:
  "plan_inv (base_rw cwd) M N pl \<Longrightarrow> granted (llRW pl) rwf ''/dev/shm''"
  "plan_inv (base_rw cwd) M N pl \<Longrightarrow> granted (llRW pl) rwf ''/tmp/.X11-unix''"
  "plan_inv (base_rw cwd) M N pl \<Longrightarrow> granted (llRW pl) rwf cwd"
proof -
  assume i: "plan_inv (base_rw cwd) M N pl"
  then have s: "''/dev/shm'' \<in> set (llRW pl)" "''/tmp'' \<in> set (llRW pl)" "cwd \<in> set (llRW pl)"
    by (auto simp: plan_inv_def base_rw_def)
  then show "granted (llRW pl) rwf ''/dev/shm''" and "granted (llRW pl) rwf cwd" by (auto intro: grantedI)
  have "under ''/tmp/.X11-unix'' ''/tmp''" by code_simp
  with s(2) show "granted (llRW pl) rwf ''/tmp/.X11-unix''" by (auto simp: granted_def)
qed

lemma bind_sames_inv:
  assumes "plan_inv C M N pl" and "\<And>m. m \<in> set ms \<Longrightarrow> under m d" and "d \<in> set (llRW pl)"
  shows "plan_inv C M N (fold bind_same ms pl)"
proof -
  have "plan_inv C M N (fold bind_same ms pl) \<and> d \<in> set (llRW (fold bind_same ms pl))"
    using assms
  proof (induction ms arbitrary: pl)
    case (Cons m ms)
    have "plan_inv C M N (bind_same m pl)"
      unfolding bind_same_def using Cons.prems by (intro inv_add) (auto simp: granted_def)
    with Cons show ?case by (simp add: bind_same_def)
  qed simp
  then show ?thesis ..
qed

lemma display_phase_inv:
  assumes "plan_inv (base_rw cwd) M N pl" and "glob_inside w"
  shows "plan_inv (base_rw cwd) M N (display_phase w on pl)"
proof -
  let ?h = "w_host w" and ?rd = "runtimeDir w"
  define p1 where "p1 = (if exists ?h ''/dev/shm'' then add (DevBind ''/dev/shm'' ''/dev/shm'') pl else pl)"
  define p2 where "p2 = (if exists ?h ''/tmp/.X11-unix'' then bind_same ''/tmp/.X11-unix'' p1 else p1)"
  define xa where "xa = getenv ?h ''XAUTHORITY''"
  define p3 where "p3 = (if xa \<noteq> [] \<and> exists ?h xa then add (RoBind xa xa) p2 else p2)"
  have i1: "plan_inv (base_rw cwd) M N p1"
    using assms(1) base_rw_granted(1) [OF assms(1)] by (simp add: p1_def inv_add)
  then have "plan_inv (base_rw cwd) M N p2"
    using base_rw_granted(2) [OF i1] by (simp add: p2_def bind_same_def inv_add)
  then have i3: "plan_inv (base_rw cwd) M N p3" by (simp add: p3_def inv_add)
  let ?p4 = "(add (Tmpfs ?rd) p3)\<lparr>llRW := llRW p3 @ [?rd]\<rparr>"
  have i4: "plan_inv (base_rw cwd) M N ?p4"
    by (rule inv_grow [OF i3, where xs = "[Tmpfs ?rd]"]) auto
  have "plan_inv (base_rw cwd) M N
      (fold bind_same (concat (map (\<lambda>pat. glob ?h (join_path [?rd, pat])) displaySockets)) ?p4)"
    by (rule bind_sames_inv [OF i4, where d = ?rd]) (use assms(2) in \<open>auto simp: glob_inside_def\<close>)
  with i1 i3 show ?thesis
    unfolding display_phase_def Let_def p1_def [symmetric] p2_def [symmetric] xa_def [symmetric] p3_def [symmetric]
    by simp
qed

lemma home_steps_inv:
  "ro_step h home e s = Inr t \<Longrightarrow> plan_inv C M N s \<Longrightarrow> plan_inv C M N t"
  "persist_step h home e s = Inr t \<Longrightarrow> plan_inv C M N s \<Longrightarrow> plan_inv C M N t"
  "freeze_step h home e s = Inr t \<Longrightarrow> plan_inv C M N s \<Longrightarrow> plan_inv C M N t"
  "mask_step h mk home uc e s = Inr t \<Longrightarrow> resolve home e \<in> M \<Longrightarrow> plan_inv C M N s \<Longrightarrow> plan_inv C M N t"
  by (auto simp: ro_step_def persist_step_def freeze_step_def mask_step_def Let_def
      intro: inv_add inv_bind_grant dest: inv_maskFileOnce split: if_splits)

lemma rw_step_inv: "rw_step h mk home ov e s = Inr t \<Longrightarrow> plan_inv C M N s \<Longrightarrow> plan_inv C M N t"
proof -
  assume st: "rw_step h mk home ov e s = Inr t" and i: "plan_inv C M N s"
  let ?p = "resolve home e"
  consider "t = s" | op src where "t = grantRW h ?p (add op s)" "op = RwBind src ?p \<or> op = TmpOverlay ?p"
    | cp u where "tempCopy h mk ?p s = Inr (cp, u)" "t = grantRW h ?p (add (RwBind cp ?p) u)"
    using st by (auto simp: rw_step_def Let_def split: if_splits)
  then show ?thesis
  proof cases
    case 2
    with inv_bind_grant [OF i, of op src ?p h] show ?thesis by auto
  next
    case 3
    then have "plan_inv C M N u" using i by (auto simp: tempCopy_Inr)
    with inv_bind_grant [of C M N u "RwBind cp ?p" cp ?p h] 3 show ?thesis by auto
  qed (use i in simp)
qed

lemma home_binds_inv:
  assumes "home_binds h mk help ok home uc ov0 pl = Inr (h', ov, pl')" and "plan_inv C M N pl"
    and "insert home (resolve home ` set (maskPaths @ uc_mask uc)) \<subseteq> M"
  shows "plan_inv C M N pl'"
proof -
  obtain p1 p2 p3 p4 p5 where
    1: "foldR (ro_step h home) (roPaths @ uc_ro uc) (add (Tmpfs home) pl) = Inr p1" and
    2: "settle_overlay help ov0 p1 = (ov, p2)" and
    3: "foldR (rw_step h mk home ov) (rwPaths @ uc_rw uc) p2 = Inr p3" and
    4: "foldR (persist_step h home) (uc_persist uc) p3 = Inr p4" and
    5: "foldR (freeze_step h' home) roFreeze p4 = Inr p5" and
    6: "foldR (mask_step h' mk home uc) (maskPaths @ uc_mask uc) p5 = Inr pl'"
    using home_binds_stages [OF assms(1)] by metis
  have "plan_inv C M N (add (Tmpfs home) pl)" using assms(2,3) by (simp add: inv_add)
  then have "plan_inv C M N p1" using inv_foldR [OF 1] home_steps_inv(1) by blast
  then have "plan_inv C M N p2" using 2 by (auto simp: settle_overlay_def split: if_splits)
  then have "plan_inv C M N p3" using inv_foldR [OF 3] rw_step_inv by blast
  then have "plan_inv C M N p4" using inv_foldR [OF 4] home_steps_inv(2) by blast
  then have "plan_inv C M N p5" using inv_foldR [OF 5] home_steps_inv(3) by blast
  moreover have "resolve home e \<in> M" if "e \<in> set (maskPaths @ uc_mask uc)" for e using assms(3) that by blast
  ultimately show ?thesis using inv_foldR [OF 6] home_steps_inv(4) by blast
qed

lemma inv_add_all_iff [simp]:
  "plan_inv C M N (add_all xs pl) \<longleftrightarrow> (\<forall>op \<in> set xs. okop M N (llRW pl) (llRWFiles pl) op) \<and> plan_inv C M N pl"
  unfolding add_all_def by (induction xs arbitrary: pl) auto

lemma inv_setenvs: "plan_inv C M N pl \<Longrightarrow> set (map fst kvs) \<subseteq> N \<Longrightarrow> plan_inv C M N (setenvs kvs pl)"
  unfolding setenvs_def by (rule inv_fold) auto

text \<open>A bind of a socket or directory that is granted right after it.\<close>

lemma inv_bind_rwfiles:
  "plan_inv C M N pl \<Longrightarrow> plan_inv C M N ((add (RwBind s d) pl)\<lparr>llRWFiles := llRWFiles pl @ [d]\<rparr>)"
  by (rule inv_grow [where xs = "[RwBind s d]"]) auto

lemma inv_bind_rw:
  "plan_inv C M N pl \<Longrightarrow> plan_inv C M N ((add (RwBind s d) pl)\<lparr>llRW := llRW pl @ [d]\<rparr>)"
  by (rule inv_grow [where xs = "[RwBind s d]"]) auto

lemma agent_socket_inv: "agent_socket w o1 pl = Inr (s, pl') \<Longrightarrow> plan_inv C M N pl \<Longrightarrow> plan_inv C M N pl'"
  by (auto simp: agent_socket_def Let_def split: if_splits option.splits)

lemma agent_phase_inv:
  assumes "agent_phase w home o1 pl = Inr pl'" and "plan_inv C M (env_names uc) pl"
  shows "plan_inv C M (env_names uc) pl'"
proof (cases "sshAgent o1")
  case True
  with assms(1) obtain s p1 where s: "agent_socket w o1 pl = Inr (s, p1)"
    by (auto simp: agent_phase_def)
  have p1: "plan_inv C M (env_names uc) p1" using agent_socket_inv [OF s assms(2)] .
  let ?p2 = "(add (Setenv ''SSH_AUTH_SOCK'' s) (add (RwBind s s) p1))\<lparr>llRWFiles := llRWFiles p1 @ [s]\<rparr>"
  have "plan_inv C M (env_names uc) ?p2"
    by (rule inv_grow [OF p1, where xs = "[RwBind s s, Setenv ''SSH_AUTH_SOCK'' s]"])
      (auto simp: env_names_def own_names_def)
  then show ?thesis
    using assms(1) True s by (auto simp: agent_phase_def Let_def split: if_splits)
qed (use assms in \<open>simp add: agent_phase_def\<close>)

lemma unix_steps_inv:
  "unix_socket_step h home x s = Inr t \<Longrightarrow> plan_inv C M N s \<Longrightarrow> plan_inv C M N t"
  "unix_socket_dir_step h home x s = Inr t \<Longrightarrow> plan_inv C M N s \<Longrightarrow> plan_inv C M N t"
  by (auto simp: unix_socket_step_def unix_socket_dir_step_def Let_def
      intro: inv_bind_rwfiles inv_bind_rw split: if_splits)

lemma target_phase_inv:
  "target_phase w cwd cmd pl = Inr (cmd', pl') \<Longrightarrow> plan_inv (base_rw cwd) M N pl \<Longrightarrow> plan_inv (base_rw cwd) M N pl'"
  using base_rw_granted(3)
  by (auto simp: target_phase_def Let_def split: option.splits)

lemma isolation_phase_inv: "plan_inv C M N pl \<Longrightarrow> plan_inv C M N (isolation_phase w o1 pl)"
  by (auto simp: isolation_phase_def warnTIOCSTI_def Let_def split: option.splits)

lemma display_env_inv:
  "plan_inv C M (env_names uc) pl \<Longrightarrow> plan_inv C M (env_names uc) (display_env w on pl)"
  by (auto simp: display_env_def Let_def env_names_def own_names_def)

lemma rollback_phase_inv: "rollback_phase w home uc o1 pl = Inr pl' \<Longrightarrow> plan_inv C M N pl \<Longrightarrow> plan_inv C M N pl'"
  by (auto simp: rollback_phase_def intro!: inv_fold split: if_splits option.splits)

lemma credential_name: "''AZKABAN_CREDENTIAL_'' @ n \<in> env_names uc"
  by (simp add: env_names_def own_names_def)

lemma credential_step_inv:
  assumes "credential_step w d st = Inr st'" and "plan_inv C M (env_names uc) (snd st)"
  shows "plan_inv C M (env_names uc) (snd st')"
proof -
  obtain o1 pl where st: "st = (o1, pl)" by (cases st)
  obtain name wr where d: "parseCredentialDirective d = Inr (name, wr)"
    using assms(1) st by (cases "parseCredentialDirective d") (auto simp: credential_step_def)
  show ?thesis
  proof (cases "dry o1")
    case True
    with assms st d show ?thesis by (auto simp: credential_step_def credential_name [simplified])
  next
    case False
    with assms(1) st d obtain b where b: "startCredentialBroker (w_host w) (w_random w (length (brokerPorts o1)))
        (w_listen w (length (brokerPorts o1))) name wr = Inr b" and st': "snd st' = setenvs (jailEnv b) pl"
      by (auto simp: credential_step_def Let_def split: sum.splits)
    have "set (map fst (jailEnv b)) \<subseteq> env_names uc"
      using started_github(1) [OF b] by (simp add: jailEnv_def github_def env_names_def own_names_def)
    then show ?thesis using assms(2) st st' by (simp add: inv_setenvs)
  qed
qed

lemma proxy_env_names: "set (map fst (proxy_env url)) \<subseteq> env_names uc"
  by (simp add: proxy_env_def env_names_def own_names_def)

lemma egress_phase_inv:
  assumes "egress_phase w uc st = Inr st'" and "plan_inv C M (env_names uc) (snd st)"
  shows "plan_inv C M (env_names uc) (snd st')"
proof -
  consider "snd st' = snd st" | url where "snd st' = setenvs (proxy_env url) (snd st)"
    using assms(1) by (cases st) (auto simp: egress_phase_def Let_def split: if_splits option.splits)
  then show ?thesis by cases (use assms(2) inv_setenvs proxy_env_names in auto)
qed

lemma ll_setenv_inv:
  "ll_setenv n ps pl = Inr pl' \<Longrightarrow> n \<in> N \<Longrightarrow> plan_inv C M N pl \<Longrightarrow> plan_inv C M N pl'"
  by (auto simp: ll_setenv_def split: sum.splits)

lemma ll_channel_inv: "ll_channel pl = Inr pl' \<Longrightarrow> plan_inv C M (env_names uc) pl \<Longrightarrow> plan_inv C M (env_names uc) pl'"
proof -
  have nm: "{llEnvRO, llEnvROFiles, llEnvRW, llEnvRWFiles} \<subseteq> env_names uc"
    by (simp add: env_names_def own_names_def)
  assume "ll_channel pl = Inr pl'" and i: "plan_inv C M (env_names uc) pl"
  then obtain p1 p2 p3 where
    1: "ll_setenv llEnvRO (llRO pl) pl = Inr p1" and
    2: "ll_setenv llEnvROFiles (llROFiles p1) p1 = Inr p2" and
    3: "ll_setenv llEnvRW (llRW p2) p2 = Inr p3" and
    4: "ll_setenv llEnvRWFiles (llRWFiles p3) p3 = Inr pl'"
    by (auto simp: ll_channel_def)
  have "plan_inv C M (env_names uc) p1" using ll_setenv_inv [OF 1] nm i by simp
  then have "plan_inv C M (env_names uc) p2" using ll_setenv_inv [OF 2] nm by simp
  then have "plan_inv C M (env_names uc) p3" using ll_setenv_inv [OF 3] nm by simp
  then show "plan_inv C M (env_names uc) pl'" using ll_setenv_inv [OF 4] nm by simp
qed

lemma inner_phase_inv:
  "inner_phase w o1 cmd pl = Inr (inner, pl') \<Longrightarrow> plan_inv C M (env_names uc) pl \<Longrightarrow> plan_inv C M (env_names uc) pl'"
  by (auto simp: inner_phase_def port_channel_def Let_def env_names_def own_names_def
      dest!: ll_channel_inv [where C = C and uc = uc] split: if_splits option.splits)

lemma guidance_phase_inv:
  assumes "guidance_phase w home cwd uc o1 pl = Inr pl'" and "plan_inv C M (env_names uc) pl"
  shows "plan_inv C M (env_names uc) pl'"
proof (cases "noGuidance o1")
  case False
  with assms(1) obtain p1 p2 p3 c1 c2 c3 d1 d2 d3 where
    1: "bind_text (w_mktemp w) ''azkaban-policy-'' c1 d1 pl = Inr p1" and
    2: "bind_text (w_mktemp w) ''azkaban-readme-'' c2 d2 p1 = Inr p2" and
    3: "bind_text (w_mktemp w) ''azkaban-hook-'' c3 d3 p2 = Inr p3" and
    4: "pl' = setenvs [(''AZKABAN_JAIL'', ''1''), (''AZKABAN_POLICY'', guidancePolicyPath)] (bind_self w p3)"
    by (auto simp: guidance_phase_def Let_def)
  have "plan_inv C M (env_names uc) p3"
    using inv_bind_text [OF 3] inv_bind_text [OF 2] inv_bind_text [OF 1] assms(2) by blast
  then have "plan_inv C M (env_names uc) (bind_self w p3)" by (simp add: bind_self_def split: option.split)
  then show ?thesis unfolding 4 by (rule inv_setenvs) (simp add: env_names_def own_names_def)
qed (use assms in \<open>simp add: guidance_phase_def\<close>)

section \<open>The whole plan\<close>

lemma base_plan_inv:
  assumes "base_plan w home cwd uc o1 = Inr pl'" and "glob_inside w" and "memory_dirs home uc \<subseteq> M"
  shows "plan_inv (base_rw cwd) M (env_names uc) pl'"
proof -
  let ?I = "plan_inv (base_rw cwd) M (env_names uc)"
  have run: "''/run'' \<in> M" and sys: "(\<lambda>s. ''/sys/'' @ s) ` set sysMask \<subseteq> M"
    using assms(3) by (auto simp: memory_dirs_def)
  from assms(1) obtain f p1 g p2 p3 p4 p5 where
    1: "writeHosts (w_host w) (w_mktemp w) (start_plan home cwd) = Inr (f, p1)" and
    2: "writeResolv (w_host w) (w_mktemp w) p1 = Inr (g, p2)" and
    3: "root_phase (w_host w) (w_mktemp w) f (env_phase (w_host w) (keepEnv o1) uc p2) = Inr p3" and
    4: "foldR (proc_step (w_mktemp w)) procMask (kernel_phase w g p3) = Inr p4" and
    5: "container_phase w cwd o1 (gpu_phase (w_host w) (gpu o1) (fold (sys_step (w_host w)) sysMask p4)) = Inr p5" and
    6: "pl' = display_phase w (display o1) p5"
    by (auto simp: base_plan_def Let_def)
  have "?I p2" using 1 2 start_inv by (auto simp: writeHosts_def writeResolv_def Let_def tempWith_Inr)
  then have "?I p3" using root_phase_inv [OF 3] env_phase_inv by blast
  then have "?I (kernel_phase w g p3)" using run by (rule kernel_phase_inv)
  then have "?I p4" using inv_foldR [OF 4] proc_step_inv by blast
  then have "?I p5" using container_phase_inv [OF 5] sys_gpu_inv sys by blast
  then show ?thesis using display_phase_inv assms(2) 6 by blast
qed

lemma grant_plan_inv:
  assumes "grant_plan w home cwd uc o1 cmd pl = Inr (cmd', pl')" and "plan_inv (base_rw cwd) M (env_names uc') pl"
  shows "plan_inv (base_rw cwd) M (env_names uc') pl'"
proof -
  from assms(1) obtain p1 p2 p3 where
    1: "agent_phase w home o1 pl = Inr p1" and
    2: "foldR (unix_socket_step (w_host w) home) (unixSocket o1 @ uc_unixSocket uc) p1 = Inr p2" and
    3: "foldR (unix_socket_dir_step (w_host w) home) (unixSocketDir o1 @ uc_unixSocketDir uc) p2 = Inr p3" and
    4: "target_phase w cwd cmd p3 = Inr (cmd', pl')"
    by (auto simp: grant_plan_def)
  have "plan_inv (base_rw cwd) M (env_names uc') p1" using agent_phase_inv [OF 1 assms(2)] .
  then have "plan_inv (base_rw cwd) M (env_names uc') p2" using inv_foldR [OF 2] unix_steps_inv(1) by blast
  then have "plan_inv (base_rw cwd) M (env_names uc') p3" using inv_foldR [OF 3] unix_steps_inv(2) by blast
  then show ?thesis using target_phase_inv [OF 4] by blast
qed

text \<open>The plans between the sections of a successful run.\<close>

lemma build_plan_stages:
  assumes "build_plan w home cwd uc o1 cmd = Inr l"
  obtains pb h ov ph cmd' pg pr st o2 pe o3 pi inner where
    "base_plan w home cwd uc o1 = Inr pb" and
    "home_binds (w_host w) (w_mktemp w) (w_help w) (w_mkdir_ok w) home uc (overlay o1) pb = Inr (h, ov, ph)" and
    "grant_plan (w\<lparr>w_host := h\<rparr>) home cwd uc (o1\<lparr>overlay := ov\<rparr>) cmd ph = Inr (cmd', pg)" and
    "rollback_phase (w\<lparr>w_host := h\<rparr>) home uc (o1\<lparr>overlay := ov\<rparr>)
       (display_env (w\<lparr>w_host := h\<rparr>) (display o1)
         (isolation_phase (w\<lparr>w_host := h\<rparr>) (o1\<lparr>overlay := ov\<rparr>) pg)) = Inr pr" and
    "foldR (credential_step (w\<lparr>w_host := h\<rparr>)) (uc_credential uc) (o1\<lparr>overlay := ov\<rparr>, pr) = Inr st" and
    "egress_phase (w\<lparr>w_host := h\<rparr>) uc st = Inr (o2, pe)" and
    "o3 = broker_ports o2" and
    "inner_phase (w\<lparr>w_host := h\<rparr>) o3 cmd' pe = Inr (inner, pi)" and
    "guidance_phase (w\<lparr>w_host := h\<rparr>) home cwd uc o3 pi = Inr (l_plan l)" and
    "l_opts l = o3" and "l_conf l = uc" and "l_cmd l = cmd'" and "l_inner l = inner"
  using assms by (auto simp: build_plan_def Let_def)

lemma build_plan_inv:
  assumes "build_plan w home cwd uc o1 cmd = Inr l" and "glob_inside w"
  shows "plan_inv (base_rw cwd) (memory_dirs home uc) (env_names uc) (l_plan l)"
  using assms(1)
proof (rule build_plan_stages)
  let ?I = "plan_inv (base_rw cwd) (memory_dirs home uc) (env_names uc)"
  have masks: "insert home (resolve home ` set (maskPaths @ uc_mask uc)) \<subseteq> memory_dirs home uc"
    by (auto simp: memory_dirs_def)
  fix pb h ov ph cmd' pg pr st o2 pe o3 pi inner
  assume b: "base_plan w home cwd uc o1 = Inr pb"
    and hb: "home_binds (w_host w) (w_mktemp w) (w_help w) (w_mkdir_ok w) home uc (overlay o1) pb = Inr (h, ov, ph)"
    and g: "grant_plan (w\<lparr>w_host := h\<rparr>) home cwd uc (o1\<lparr>overlay := ov\<rparr>) cmd ph = Inr (cmd', pg)"
    and r: "rollback_phase (w\<lparr>w_host := h\<rparr>) home uc (o1\<lparr>overlay := ov\<rparr>)
       (display_env (w\<lparr>w_host := h\<rparr>) (display o1)
         (isolation_phase (w\<lparr>w_host := h\<rparr>) (o1\<lparr>overlay := ov\<rparr>) pg)) = Inr pr"
    and c: "foldR (credential_step (w\<lparr>w_host := h\<rparr>)) (uc_credential uc) (o1\<lparr>overlay := ov\<rparr>, pr) = Inr st"
    and e: "egress_phase (w\<lparr>w_host := h\<rparr>) uc st = Inr (o2, pe)"
    and i: "inner_phase (w\<lparr>w_host := h\<rparr>) o3 cmd' pe = Inr (inner, pi)"
    and gu: "guidance_phase (w\<lparr>w_host := h\<rparr>) home cwd uc o3 pi = Inr (l_plan l)"
  have "?I ph" using home_binds_inv [OF hb _ masks] base_plan_inv [OF b assms(2) order_refl] by blast
  then have "?I pg" using grant_plan_inv [OF g] by blast
  then have "?I pr" using rollback_phase_inv [OF r] display_env_inv isolation_phase_inv by blast
  then have "?I (snd st)"
    using foldR_invariant [OF c, of "\<lambda>st. ?I (snd st)"] credential_step_inv by fastforce
  then have "?I pe" using egress_phase_inv [OF e] by simp
  then have "?I pi" using inner_phase_inv [OF i] by blast
  then show ?thesis using guidance_phase_inv [OF gu] by blast
qed

section \<open>What is bound after the home section\<close>

text \<open>\<open>pl'\<close> appends options to \<open>pl\<close>, all of them with \<open>P\<close>.\<close>

definition extends :: "(bwrap_op \<Rightarrow> bool) \<Rightarrow> plan \<Rightarrow> plan \<Rightarrow> bool" where
  "extends P pl pl' \<longleftrightarrow> (\<exists>xs. ops pl' = ops pl @ xs \<and> list_all P xs)"

lemma extends_refl [simp]: "ops pl' = ops pl \<Longrightarrow> extends P pl pl'"
  by (simp add: extends_def)

lemma extends_trans [trans]: "extends P a b \<Longrightarrow> extends P b c \<Longrightarrow> extends P a c"
  unfolding extends_def by fastforce

lemma extends_by: "ops pl' = ops pl @ xs \<Longrightarrow> list_all P xs \<Longrightarrow> extends P pl pl'"
  by (auto simp: extends_def)

lemma extends_add: "P op \<Longrightarrow> extends P pl (add op pl)"
  by (rule extends_by [where xs = "[op]"]) auto

lemma extends_add_all: "list_all P xs \<Longrightarrow> extends P pl (add_all xs pl)"
proof -
  have "ops (add_all xs pl) = ops pl @ xs" unfolding add_all_def by (induction xs arbitrary: pl) auto
  then show "list_all P xs \<Longrightarrow> ?thesis" by (rule extends_by)
qed

lemma extends_foldR:
  assumes "foldR f xs pl = Inr pl'" and "\<And>x s t. x \<in> set xs \<Longrightarrow> f x s = Inr t \<Longrightarrow> extends P s t"
  shows "extends P pl pl'"
  using foldR_invariant [of f xs pl pl' "extends P pl"] assms extends_trans by (metis extends_refl)

lemma extends_fold:
  "(\<And>x s. x \<in> set xs \<Longrightarrow> extends P s (f x s)) \<Longrightarrow> extends P pl (fold f xs pl)"
proof (induction xs arbitrary: pl)
  case (Cons x xs)
  then show ?case using extends_trans [of P pl "f x pl"] by simp
qed simp

text \<open>No mount whose writes reach beyond a memory file system, except at a destination in \<open>A\<close>.\<close>

definition writes_at :: "string set \<Rightarrow> bwrap_op \<Rightarrow> bool" where
  "writes_at A op = (case mount_view op of Some (d, v) \<Rightarrow> reaches_host v \<longrightarrow> d \<in> A | None \<Rightarrow> True)"

lemma writes_at_simps [simp]:
  "writes_at A (Setenv k v)" "writes_at A (RoBind s d)" "writes_at A (Tmpfs d)" "writes_at A (Switch f)"
  "writes_at A (Hostname n)" "writes_at A (Chdir d)"
  "writes_at A (RwBind s d) \<longleftrightarrow> d \<in> A"
  by (simp_all add: writes_at_def reaches_host_def)

text \<open>
  The socket \<open>--ssh-agent\<close> binds: the agent's own with \<open>--ssh-agent-raw\<close> or in a dry run, otherwise
  the proxy's in a directory that \<open>os.MkdirTemp\<close> made.
\<close>

definition agent_targets :: "world \<Rightarrow> jailOpts \<Rightarrow> string set" where
  "agent_targets w o1 =
     (if \<not> sshAgent o1 then {}
      else if sshAgentRaw o1 \<or> dry o1 then {getenv (w_host w) ''SSH_AUTH_SOCK''}
      else {join_path [d, ''agent.sock''] | d. \<exists>n. w_mkdirtemp w ''azkaban-ssh-'' n = Some d})"

text \<open>The explicit grants: the sockets named by flags and config, the agent's, and the project.\<close>

definition explicit_grants :: "world \<Rightarrow> string \<Rightarrow> string \<Rightarrow> userConf \<Rightarrow> jailOpts \<Rightarrow> string set" where
  "explicit_grants w home cwd uc o1 =
     insert cwd (agent_targets w o1 \<union> resolve home ` set (unixSocket o1 @ uc_unixSocket uc) \<union>
       resolve home ` set (unixSocketDir o1 @ uc_unixSocketDir uc))"

lemma extends_mono: "extends (writes_at A) pl pl' \<Longrightarrow> A \<subseteq> B \<Longrightarrow> extends (writes_at B) pl pl'"
  by (fastforce simp: extends_def list_all_iff writes_at_def split: option.splits)

lemma agent_phase_extends:
  assumes "agent_phase w home o1 pl = Inr pl'"
  shows "extends (writes_at (agent_targets w o1)) pl pl'"
proof (cases "sshAgent o1")
  case True
  with assms obtain s p1 where s: "agent_socket w o1 pl = Inr (s, p1)" by (auto simp: agent_phase_def)
  then have "ops p1 = ops pl" and "s \<in> agent_targets w o1"
    using True by (auto simp: agent_socket_def agent_targets_def Let_def split: if_splits option.splits)
  with assms True s show ?thesis
    by (intro extends_by [where xs = "drop (length (ops pl)) (ops pl')"])
      (auto simp: agent_phase_def Let_def split: if_splits)
qed (use assms in \<open>simp add: agent_phase_def\<close>)

lemma grant_plan_extends:
  assumes "grant_plan w home cwd uc o1 cmd pl = Inr (cmd', pl')"
  shows "extends (writes_at (explicit_grants w home cwd uc o1)) pl pl'"
proof -
  let ?P = "writes_at (explicit_grants w home cwd uc o1)"
  from assms obtain p1 p2 p3 where
    1: "agent_phase w home o1 pl = Inr p1" and
    2: "foldR (unix_socket_step (w_host w) home) (unixSocket o1 @ uc_unixSocket uc) p1 = Inr p2" and
    3: "foldR (unix_socket_dir_step (w_host w) home) (unixSocketDir o1 @ uc_unixSocketDir uc) p2 = Inr p3" and
    4: "target_phase w cwd cmd p3 = Inr (cmd', pl')"
    by (auto simp: grant_plan_def)
  have "extends ?P pl p1"
    by (rule extends_mono [OF agent_phase_extends [OF 1]]) (auto simp: explicit_grants_def)
  also have "extends ?P p1 p2"
    by (rule extends_foldR [OF 2])
      (auto simp: unix_socket_step_def explicit_grants_def Let_def split: if_splits
        intro!: extends_by [where xs = "[RwBind _ _]"])
  also have "extends ?P p2 p3"
    by (rule extends_foldR [OF 3])
      (auto simp: unix_socket_dir_step_def explicit_grants_def Let_def split: if_splits
        intro!: extends_by [where xs = "[RwBind _ _]"])
  also have "extends ?P p3 pl'"
    using 4 by (auto simp: target_phase_def Let_def explicit_grants_def split: option.splits
        intro!: extends_by [where xs = "[RwBind _ _, Chdir _, RoBind _ _]"])
  finally show ?thesis .
qed

text \<open>
  The sections after the grants set variables, pass switches and bind azkaban's own files
  read-only; what holds for such options holds for all they append.
\<close>

definition own_paths :: "string set" where
  "own_paths = {selfInJail, guidancePolicyPath, guidanceReadmePath, guidanceDir @ ''/claude-hook.sh'', guidanceBinPath}"

locale own_options =
  fixes P :: "bwrap_op \<Rightarrow> bool"
  assumes P_setenv: "P (Setenv k v)"
    and P_switch: "P (Switch f)"
    and P_hostname: "P (Hostname n)"
    and P_own: "d \<in> own_paths \<Longrightarrow> P (RoBind s d)"
begin

lemma setenvs_ok: "extends P pl (setenvs kvs pl)"
  unfolding setenvs_def by (rule extends_fold) (auto intro: extends_add P_setenv)

lemma bind_text_ok: "bind_text mk pre c d pl = Inr pl' \<Longrightarrow> d \<in> own_paths \<Longrightarrow> extends P pl pl'"
  by (auto simp: bind_text_def tempWith_Inr intro!: extends_by [where xs = "[RoBind _ _]"] P_own)

lemma isolation_ok: "extends P pl (isolation_phase w o1 pl)"
proof -
  let ?p1 = "add_all (map Switch [''--die-with-parent'', ''--unshare-pid'', ''--unshare-uts'',
    ''--unshare-ipc'', ''--unshare-cgroup-try'']) pl"
  define p2 where "p2 = (if \<not> allowUserns o1 \<and> bwrapHas (w_help w) ''--disable-userns''
      then add_all [Switch ''--unshare-user'', Switch ''--disable-userns''] ?p1 else ?p1)"
  define p3 where "p3 = (if netIsolate o1 then add (Switch ''--unshare-net'') p2 else p2)"
  define p4 where "p4 = (if \<not> dry o1 then warnTIOCSTI w p3 else p3)"
  have "extends P pl ?p1" by (rule extends_add_all) (simp add: P_switch)
  also have "extends P ?p1 p2" unfolding p2_def by (auto intro!: extends_add_all simp: P_switch)
  also have "extends P p2 p3" unfolding p3_def by (auto intro: extends_add P_switch)
  also have "extends P p3 p4"
    unfolding p4_def by (auto simp: warnTIOCSTI_def split: option.splits)
  also have "extends P p4 (add (Hostname jailHostname) p4)" by (rule extends_add) (rule P_hostname)
  finally show ?thesis
    unfolding isolation_phase_def Let_def p2_def [symmetric] p3_def [symmetric] p4_def [symmetric] .
qed

lemma display_env_ok: "extends P pl (display_env w on pl)"
  by (rule extends_by [where xs = "drop (length (ops pl)) (ops (display_env w on pl))"])
    (auto simp: display_env_def Let_def P_setenv)

lemma rollback_ok: "rollback_phase w home uc o1 pl = Inr pl' \<Longrightarrow> extends P pl pl'"
  by (auto simp: rollback_phase_def intro!: extends_fold split: if_splits option.splits)

lemma credential_ok: "credential_step w d st = Inr st' \<Longrightarrow> extends P (snd st) (snd st')"
  by (cases st) (auto simp: credential_step_def Let_def intro!: setenvs_ok extends_add P_setenv
      split: sum.splits prod.splits if_splits)

lemma egress_ok: "egress_phase w uc st = Inr st' \<Longrightarrow> extends P (snd st) (snd st')"
  by (cases st) (auto simp: egress_phase_def Let_def intro!: setenvs_ok
      split: option.splits prod.splits if_splits)

lemma ll_setenv_ok: "ll_setenv n ps pl = Inr pl' \<Longrightarrow> extends P pl pl'"
  by (auto simp: ll_setenv_def intro!: extends_add P_setenv split: sum.splits)

lemma ll_channel_ok: "ll_channel pl = Inr pl' \<Longrightarrow> extends P pl pl'"
  unfolding ll_channel_def by (auto dest!: ll_setenv_ok intro: extends_trans)

lemma inner_ok:
  assumes "inner_phase w o1 cmd pl = Inr (inner, pl')"
  shows "extends P pl pl'"
proof (cases "landlockOn o1")
  case True
  with assms obtain self p4 where
    4: "ll_channel (add (RoBind (self_path w self) selfInJail) pl) = Inr p4" and 5: "pl' = port_channel o1 p4"
    unfolding inner_phase_def by (auto split: option.splits)
  have "extends P pl (add (RoBind (self_path w self) selfInJail) pl)"
    by (rule extends_add) (rule P_own, simp add: own_paths_def)
  also note ll_channel_ok [OF 4]
  also have "extends P p4 pl'"
    unfolding 5
    by (rule extends_by [where xs = "drop (length (ops p4)) (ops (port_channel o1 p4))"])
      (auto simp: port_channel_def Let_def P_setenv)
  finally show ?thesis .
qed (use assms in \<open>simp add: inner_phase_def\<close>)

lemma guidance_ok:
  assumes "guidance_phase w home cwd uc o1 pl = Inr pl'"
  shows "extends P pl pl'"
proof (cases "noGuidance o1")
  case False
  let ?jp = "policy_of w home cwd uc o1"
  from False assms obtain p1 p2 p3 where
    1: "bind_text (w_mktemp w) ''azkaban-policy-'' (policy_text ?jp) guidancePolicyPath pl = Inr p1" and
    2: "bind_text (w_mktemp w) ''azkaban-readme-'' (guidanceText ?jp) guidanceReadmePath p1 = Inr p2" and
    3: "bind_text (w_mktemp w) ''azkaban-hook-'' (text_of claudeHook) (guidanceDir @ ''/claude-hook.sh'') p2 = Inr p3" and
    4: "pl' = setenvs [(''AZKABAN_JAIL'', ''1''), (''AZKABAN_POLICY'', guidancePolicyPath)] (bind_self w p3)"
    by (auto simp: guidance_phase_def Let_def)
  have "extends P pl p1" by (rule bind_text_ok [OF 1]) (simp add: own_paths_def)
  also have "extends P p1 p2" by (rule bind_text_ok [OF 2]) (simp add: own_paths_def)
  also have "extends P p2 p3" by (rule bind_text_ok [OF 3]) (simp add: own_paths_def)
  also have "extends P p3 (bind_self w p3)"
    by (auto simp: bind_self_def own_paths_def intro!: extends_add P_own split: option.splits)
  also have "extends P (bind_self w p3) pl'" unfolding 4 by (rule setenvs_ok)
  finally show ?thesis .
qed (use assms in \<open>simp add: guidance_phase_def\<close>)

text \<open>All the sections after the grants.\<close>

lemma after_grants:
  assumes "build_plan w home cwd uc o1 cmd = Inr l"
  shows "\<exists>pb h ov ph cmd' pg. base_plan w home cwd uc o1 = Inr pb \<and>
    home_binds (w_host w) (w_mktemp w) (w_help w) (w_mkdir_ok w) home uc (overlay o1) pb = Inr (h, ov, ph) \<and>
    grant_plan (w\<lparr>w_host := h\<rparr>) home cwd uc (o1\<lparr>overlay := ov\<rparr>) cmd ph = Inr (cmd', pg) \<and>
    l_cmd l = cmd' \<and> extends P pg (l_plan l)"
  using assms
proof (rule build_plan_stages)
  fix pb h ov ph cmd' pg pr st o2 pe o3 pi inner
  let ?w = "w\<lparr>w_host := h\<rparr>" and ?o = "o1\<lparr>overlay := ov\<rparr>"
  assume b: "base_plan w home cwd uc o1 = Inr pb"
    and hb: "home_binds (w_host w) (w_mktemp w) (w_help w) (w_mkdir_ok w) home uc (overlay o1) pb = Inr (h, ov, ph)"
    and g: "grant_plan ?w home cwd uc ?o cmd ph = Inr (cmd', pg)"
    and r: "rollback_phase ?w home uc ?o (display_env ?w (display o1) (isolation_phase ?w ?o pg)) = Inr pr"
    and c: "foldR (credential_step ?w) (uc_credential uc) (?o, pr) = Inr st"
    and e: "egress_phase ?w uc st = Inr (o2, pe)"
    and i: "inner_phase ?w o3 cmd' pe = Inr (inner, pi)"
    and gu: "guidance_phase ?w home cwd uc o3 pi = Inr (l_plan l)"
    and lc: "l_cmd l = cmd'"
  have "extends P pg (isolation_phase ?w ?o pg)" by (rule isolation_ok)
  also have "extends P (isolation_phase ?w ?o pg) (display_env ?w (display o1) (isolation_phase ?w ?o pg))"
    by (rule display_env_ok)
  also have "extends P (display_env ?w (display o1) (isolation_phase ?w ?o pg)) pr"
    by (rule rollback_ok [OF r])
  also have "extends P pr (snd st)"
    using foldR_invariant [OF c, of "\<lambda>st. extends P pr (snd st)"] credential_ok extends_trans
    by (metis extends_refl snd_conv)
  also have "extends P (snd st) pe" using egress_ok [OF e] by simp
  also have "extends P pe pi" by (rule inner_ok [OF i])
  also have "extends P pi (l_plan l)" by (rule guidance_ok [OF gu])
  finally show ?thesis using b hb g lc by blast
qed

end

interpretation own_writes: own_options "writes_at A"
  by unfold_locales simp_all

lemma after_home_extends:
  assumes "build_plan w home cwd uc o1 cmd = Inr l"
  shows "\<exists>pb h ov ph. base_plan w home cwd uc o1 = Inr pb \<and>
    home_binds (w_host w) (w_mktemp w) (w_help w) (w_mkdir_ok w) home uc (overlay o1) pb = Inr (h, ov, ph) \<and>
    extends (writes_at (explicit_grants w home cwd uc o1)) ph (l_plan l)"
proof -
  from own_writes.after_grants [OF assms] obtain pb h ov ph cmd' pg where
    b: "base_plan w home cwd uc o1 = Inr pb" and
    hb: "home_binds (w_host w) (w_mktemp w) (w_help w) (w_mkdir_ok w) home uc (overlay o1) pb = Inr (h, ov, ph)" and
    g: "grant_plan (w\<lparr>w_host := h\<rparr>) home cwd uc (o1\<lparr>overlay := ov\<rparr>) cmd ph = Inr (cmd', pg)" and
    e: "extends (writes_at {}) pg (l_plan l)"
    by blast
  have "h = mkdir_all (w_host w) (join_path [home, azkabanCfgDir])" using home_binds_stages [OF hb] by metis
  then have "getenv h x = getenv (w_host w) x" for x by (simp add: getenv_def mkdir_all_def)
  let ?G = "explicit_grants w home cwd uc o1"
  have "explicit_grants (w\<lparr>w_host := h\<rparr>) home cwd uc (o1\<lparr>overlay := ov\<rparr>) = ?G"
    by (simp add: explicit_grants_def agent_targets_def \<open>\<And>x. getenv h x = getenv (w_host w) x\<close>)
  then have "extends (writes_at ?G) ph pg" using grant_plan_extends [OF g] by simp
  also have "extends (writes_at ?G) pg (l_plan l)" by (rule extends_mono [OF e]) simp
  finally show ?thesis using b hb by blast
qed

section \<open>The frozen directory\<close>

lemma cfg_relative: "resolve home azkabanCfgDir = join_path [home, azkabanCfgDir]"
proof -
  have "\<not> is_abs azkabanCfgDir" by code_simp
  then show ?thesis by (simp add: resolve_def)
qed

lemma home_binds_freeze:
  assumes "home_binds h mk help ok home uc ov0 pl = Inr (h', ov, pl')"
  shows "\<exists>p4. extends (writes_at {}) (add (RoBind (resolve home azkabanCfgDir) (resolve home azkabanCfgDir)) p4) pl'"
proof -
  let ?cfg = "resolve home azkabanCfgDir"
  obtain p4 p5 where
    5: "foldR (freeze_step h' home) roFreeze p4 = Inr p5" and
    6: "foldR (mask_step h' mk home uc) (maskPaths @ uc_mask uc) p5 = Inr pl'" and
    h: "h' = mkdir_all h (join_path [home, azkabanCfgDir])"
    using home_binds_stages [OF assms] by metis
  have "?cfg \<noteq> []" 
    unfolding cfg_relative join_path_def by (simp add: azkabanCfgDir_def split: list.splits)
  then have ex: "exists h' ?cfg" by (simp add: h mkdir_all_def exists_def cfg_relative)
  let ?q = "(add (RoBind ?cfg ?cfg) p4)\<lparr>llRO := llRO p4 @ [?cfg]\<rparr>"
  have fz: "extends (writes_at {}) s t" if "freeze_step h' home e s = Inr t" for e s t
    using that by (auto simp: freeze_step_def Let_def intro!: extends_by [where xs = "[RoBind _ _]"] split: if_splits)
  have mk': "extends (writes_at {}) s t" if "mask_step h' mk home uc e s = Inr t" for e s t
    using that
    by (auto simp: mask_step_def Let_def maskFileOnce_def tempWith_Inr extends_def split: if_splits)
  have "foldR (freeze_step h' home) (tl roFreeze) ?q = Inr p5"
    using 5 ex by (simp add: roFreeze_def freeze_step_def Let_def)
  then have "extends (writes_at {}) ?q p5" by (rule extends_foldR) (use fz in blast)
  also have "extends (writes_at {}) p5 pl'" by (rule extends_foldR [OF 6]) (use mk' in blast)
  finally have "extends (writes_at {}) (add (RoBind ?cfg ?cfg) p4) pl'" by (auto simp: extends_def)
  then show ?thesis ..
qed

lemma views_writes_at: "list_all (writes_at A) xs \<Longrightarrow> (d, v) \<in> set (views xs) \<Longrightarrow> reaches_host v \<Longrightarrow> d \<in> A"
  by (induction xs) (auto simp: writes_at_def split: option.splits)

lemma last_cover_member: "last_cover vs c = Some (d, v) \<Longrightarrow> (d, v) \<in> set vs \<and> under c d"
  unfolding last_cover_def by (drule last_such_Some) simp

lemma last_cover_after:
  assumes "extends (writes_at A) pl pl'" and "last_cover (views (ops pl)) c = Some (d, v)" and "\<not> reaches_host v"
    and "\<And>a. a \<in> A \<Longrightarrow> \<not> under c a"
  shows "\<exists>d' v'. last_cover (views (ops pl')) c = Some (d', v') \<and> \<not> reaches_host v'"
proof -
  obtain xs where xs: "ops pl' = ops pl @ xs" "list_all (writes_at A) xs"
    using assms(1) by (auto simp: extends_def)
  show ?thesis
  proof (cases "last_cover (views xs) c")
    case None
    then show ?thesis using assms(2,3) xs(1) by (simp add: last_cover_append)
  next
    case (Some dv)
    obtain d' v' where dv: "dv = (d', v')" by (cases dv)
    have "\<not> reaches_host v'"
      using last_cover_member Some dv views_writes_at [OF xs(2)] assms(4) by blast
    then show ?thesis using Some dv xs(1) by (simp add: last_cover_append)
  qed
qed

lemma config_frozen:
  assumes "build_plan w home cwd uc o1 cmd = Inr l" and "under c (resolve home azkabanCfgDir)"
    and "\<And>a. a \<in> explicit_grants w home cwd uc o1 \<Longrightarrow> \<not> under c a"
  shows "\<exists>d v. last_cover (views (ops (l_plan l))) c = Some (d, v) \<and> \<not> reaches_host v"
proof -
  let ?cfg = "resolve home azkabanCfgDir"
  obtain pb h ov ph where
    hb: "home_binds (w_host w) (w_mktemp w) (w_help w) (w_mkdir_ok w) home uc (overlay o1) pb = Inr (h, ov, ph)" and
    e: "extends (writes_at (explicit_grants w home cwd uc o1)) ph (l_plan l)"
    using after_home_extends [OF assms(1)] by blast
  obtain p4 where f: "extends (writes_at {}) (add (RoBind ?cfg ?cfg) p4) ph"
    using home_binds_freeze [OF hb] by blast
  have "last_cover (views (ops (add (RoBind ?cfg ?cfg) p4))) c = Some (?cfg, ReadOnly)"
    using assms(2) by (simp add: last_cover_append) (simp add: last_cover_def)
  from last_cover_after [OF f this] obtain d v where
    "last_cover (views (ops ph)) c = Some (d, v)" and "\<not> reaches_host v"
    by (auto simp: reaches_host_def)
  from last_cover_after [OF e this assms(3)] show ?thesis .
qed

section \<open>The project directory\<close>

definition mounts_at :: "string set \<Rightarrow> bwrap_op \<Rightarrow> bool" where
  "mounts_at B op = (case mount_view op of Some (d, v) \<Rightarrow> d \<in> B | None \<Rightarrow> True)"

lemma mounts_at_simps [simp]:
  "mounts_at B (Setenv k v)" "mounts_at B (Switch f)" "mounts_at B (Hostname n)" "mounts_at B (Chdir p)"
  "mounts_at B (RoBind s d) \<longleftrightarrow> d \<in> B" "mounts_at B (RwBind s d) \<longleftrightarrow> d \<in> B"
  by (simp_all add: mounts_at_def)

interpretation own_mounts: own_options "mounts_at own_paths"
  by unfold_locales simp_all

lemma last_cover_missed:
  assumes "list_all (mounts_at B) xs" and "\<And>b. b \<in> B \<Longrightarrow> \<not> under c b"
  shows "last_cover (views xs) c = None"
  using assms
  by (induction xs) (auto simp: last_cover_def mounts_at_def split: option.splits)

text \<open>The last mount on a path below the working directory is the working directory itself.\<close>

lemma project_is_real:
  assumes "build_plan w home cwd uc o1 cmd = Inr l" and "under c cwd"
    and "\<not> under c (hd (l_cmd l))" and "\<And>q. q \<in> own_paths \<Longrightarrow> \<not> under c q"
  shows "last_cover (views (ops (l_plan l))) c = Some (cwd, RealWrite)"
proof -
  from own_mounts.after_grants [OF assms(1)] obtain h ov ph pg where
    g: "grant_plan (w\<lparr>w_host := h\<rparr>) home cwd uc (o1\<lparr>overlay := ov\<rparr>) cmd ph = Inr (l_cmd l, pg)" and
    e: "extends (mounts_at own_paths) pg (l_plan l)"
    by blast
  obtain p3 where "target_phase (w\<lparr>w_host := h\<rparr>) cwd cmd p3 = Inr (l_cmd l, pg)"
    using g by (auto simp: grant_plan_def)
  then have "ops pg = ops p3 @ [RwBind cwd cwd, Chdir cwd, RoBind (hd (l_cmd l)) (hd (l_cmd l))]"
    by (auto simp: target_phase_def Let_def split: option.splits dest!: sym [where t = "l_cmd l"])
  then have p: "last_cover (views (ops pg)) c = Some (cwd, RealWrite)"
    using assms(2,3) by (simp add: last_cover_append) (simp add: last_cover_def)
  obtain xs where "ops (l_plan l) = ops pg @ xs" and "list_all (mounts_at own_paths) xs"
    using e by (auto simp: extends_def)
  then show ?thesis using p last_cover_missed [of own_paths xs c] assms(4) by (simp add: last_cover_append)
qed

section \<open>Everything mounted over the home section\<close>

definition later_mounts :: "world \<Rightarrow> string \<Rightarrow> string \<Rightarrow> userConf \<Rightarrow> jailOpts \<Rightarrow> string \<Rightarrow> string set" where
  "later_mounts w home cwd uc o1 bin =
     explicit_grants w home cwd uc o1 \<union> (if sshAgent o1 then {join_path [home, ''.ssh'', ''known_hosts'']} else {}) \<union>
     insert bin own_paths"

lemma mounts_mono: "extends (mounts_at A) pl pl' \<Longrightarrow> A \<subseteq> B \<Longrightarrow> extends (mounts_at B) pl pl'"
  by (fastforce simp: extends_def list_all_iff mounts_at_def split: option.splits)

lemma agent_phase_mounts:
  assumes "agent_phase w home o1 pl = Inr pl'"
  shows "extends (mounts_at (later_mounts w home cwd uc o1 bin)) pl pl'"
proof (cases "sshAgent o1")
  case True
  with assms obtain s p1 where s: "agent_socket w o1 pl = Inr (s, p1)" by (auto simp: agent_phase_def)
  then have "ops p1 = ops pl" and "s \<in> agent_targets w o1"
    using True by (auto simp: agent_socket_def agent_targets_def Let_def split: if_splits option.splits)
  with assms True s show ?thesis
    by (intro extends_by [where xs = "drop (length (ops pl)) (ops pl')"])
      (auto simp: agent_phase_def later_mounts_def explicit_grants_def Let_def split: if_splits)
qed (use assms in \<open>simp add: agent_phase_def\<close>)

lemma grant_plan_mounts:
  assumes "grant_plan w home cwd uc o1 cmd pl = Inr (cmd', pl')"
  shows "extends (mounts_at (later_mounts w home cwd uc o1 (hd cmd'))) pl pl'"
proof -
  let ?P = "mounts_at (later_mounts w home cwd uc o1 (hd cmd'))"
  from assms obtain p1 p2 p3 where
    1: "agent_phase w home o1 pl = Inr p1" and
    2: "foldR (unix_socket_step (w_host w) home) (unixSocket o1 @ uc_unixSocket uc) p1 = Inr p2" and
    3: "foldR (unix_socket_dir_step (w_host w) home) (unixSocketDir o1 @ uc_unixSocketDir uc) p2 = Inr p3" and
    4: "target_phase w cwd cmd p3 = Inr (cmd', pl')"
    by (auto simp: grant_plan_def)
  have "extends ?P pl p1" by (rule agent_phase_mounts [OF 1])
  also have "extends ?P p1 p2"
    by (rule extends_foldR [OF 2])
      (auto simp: unix_socket_step_def later_mounts_def explicit_grants_def Let_def split: if_splits
        intro!: extends_by [where xs = "[RwBind _ _]"])
  also have "extends ?P p2 p3"
    by (rule extends_foldR [OF 3])
      (auto simp: unix_socket_dir_step_def later_mounts_def explicit_grants_def Let_def split: if_splits
        intro!: extends_by [where xs = "[RwBind _ _]"])
  also have "extends ?P p3 pl'"
    using 4 by (auto simp: target_phase_def Let_def later_mounts_def explicit_grants_def split: option.splits
        intro!: extends_by [where xs = "[RwBind _ _, Chdir _, RoBind _ _]"])
  finally show ?thesis .
qed

text \<open>Below none of those the finished plan shows what the home section left on top.\<close>

lemma home_section_stays:
  assumes "build_plan w home cwd uc o1 cmd = Inr l" and "config_made (w_host w) home"
    and "\<And>q. q \<in> later_mounts w home cwd uc o1 (hd (l_cmd l)) \<Longrightarrow> \<not> under c q"
  shows "\<exists>pb ov ph. base_plan w home cwd uc o1 = Inr pb \<and>
    home_binds (w_host w) (w_mktemp w) (w_help w) (w_mkdir_ok w) home uc (overlay o1) pb = Inr (w_host w, ov, ph) \<and>
    last_cover (views (ops (l_plan l))) c = last_cover (views (ops ph)) c"
proof -
  from own_mounts.after_grants [OF assms(1)] obtain pb h ov ph pg where
    b: "base_plan w home cwd uc o1 = Inr pb" and
    hb: "home_binds (w_host w) (w_mktemp w) (w_help w) (w_mkdir_ok w) home uc (overlay o1) pb = Inr (h, ov, ph)" and
    g: "grant_plan (w\<lparr>w_host := h\<rparr>) home cwd uc (o1\<lparr>overlay := ov\<rparr>) cmd ph = Inr (l_cmd l, pg)" and
    e: "extends (mounts_at own_paths) pg (l_plan l)"
    by blast
  have "h = mkdir_all (w_host w) (join_path [home, azkabanCfgDir])" using home_binds_stages [OF hb] by metis
  then have h: "h = w_host w" using assms(2) by (simp add: config_made_def)
  let ?B = "later_mounts w home cwd uc o1 (hd (l_cmd l))"
  have "later_mounts (w\<lparr>w_host := h\<rparr>) home cwd uc (o1\<lparr>overlay := ov\<rparr>) (hd (l_cmd l)) = ?B"
    by (simp add: h later_mounts_def explicit_grants_def agent_targets_def)
  then have "extends (mounts_at ?B) ph pg" using grant_plan_mounts [OF g] by simp
  also have "extends (mounts_at ?B) pg (l_plan l)" by (rule mounts_mono [OF e]) (auto simp: later_mounts_def)
  finally obtain xs where "ops (l_plan l) = ops ph @ xs" and "list_all (mounts_at ?B) xs"
    by (auto simp: extends_def)
  with last_cover_missed [of ?B xs c] assms(3)
  have "last_cover (views (ops (l_plan l))) c = last_cover (views (ops ph)) c"
    by (simp add: last_cover_append)
  with b hb h show ?thesis by blast
qed

text \<open>The overlay decision is taken in the home section and never revised.\<close>

lemma credential_step_overlay: "credential_step w d st = Inr st' \<Longrightarrow> overlay (fst st') = overlay (fst st)"
  by (cases st) (auto simp: credential_step_def Let_def split: sum.splits prod.splits if_splits)

lemma egress_phase_overlay: "egress_phase w uc st = Inr st' \<Longrightarrow> overlay (fst st') = overlay (fst st)"
  by (cases st) (auto simp: egress_phase_def Let_def split: option.splits prod.splits if_splits)

lemma launch_overlay:
  assumes "build_plan w home cwd uc o1 cmd = Inr l" and "base_plan w home cwd uc o1 = Inr pb"
    and "home_binds (w_host w) (w_mktemp w) (w_help w) (w_mkdir_ok w) home uc (overlay o1) pb = Inr (h, ov, ph)"
  shows "overlay (l_opts l) = ov"
  using assms(1)
proof (rule build_plan_stages)
  fix pb' h' ov' ph' cmd' pg pr st o2 pe o3 pi inner
  assume "base_plan w home cwd uc o1 = Inr pb'"
    "home_binds (w_host w) (w_mktemp w) (w_help w) (w_mkdir_ok w) home uc (overlay o1) pb' = Inr (h', ov', ph')"
    and c: "foldR (credential_step (w\<lparr>w_host := h'\<rparr>)) (uc_credential uc) (o1\<lparr>overlay := ov'\<rparr>, pr) = Inr st"
    and e: "egress_phase (w\<lparr>w_host := h'\<rparr>) uc st = Inr (o2, pe)" and o: "o3 = broker_ports o2" "l_opts l = o3"
  then have "ov' = ov" using assms(2,3) by simp
  moreover have "overlay (fst st) = ov'"
    using foldR_invariant [OF c, of "\<lambda>st. overlay (fst st) = ov'"] credential_step_overlay by fastforce
  ultimately show ?thesis using egress_phase_overlay [OF e] by (simp add: o broker_ports_def)
qed

text \<open>The mask file of the base layout is a fresh temp file.\<close>

lemma base_mask_ok:
  assumes "base_plan w home cwd uc o1 = Inr pl'" and "fresh_temps (w_mktemp w) h"
  shows "mask_ok h pl'"
proof -
  from assms(1) obtain f p1 g p2 p3 p4 p5 where
    1: "writeHosts (w_host w) (w_mktemp w) (start_plan home cwd) = Inr (f, p1)" and
    2: "writeResolv (w_host w) (w_mktemp w) p1 = Inr (g, p2)" and
    3: "root_phase (w_host w) (w_mktemp w) f (env_phase (w_host w) (keepEnv o1) uc p2) = Inr p3" and
    4: "foldR (proc_step (w_mktemp w)) procMask (kernel_phase w g p3) = Inr p4" and
    5: "container_phase w cwd o1 (gpu_phase (w_host w) (gpu o1) (fold (sys_step (w_host w)) sysMask p4)) = Inr p5" and
    6: "pl' = display_phase w (display o1) p5"
    by (auto simp: base_plan_def Let_def)
  have same: "maskFile (fold k xs p) = maskFile p" if "\<And>x p. maskFile (k x p) = maskFile p" for k and xs :: "'a list" and p
    using that by (induction xs arbitrary: p) simp_all
  have m2: "maskFile p2 = []" using 1 2 by (auto simp: writeHosts_def writeResolv_def Let_def tempWith_Inr start_plan_def)
  have "maskFile (env_phase (w_host w) (keepEnv o1) uc p2) = []"
    using m2 by (auto simp: env_phase_def same setenv_if_set_def simp del: fold_append split: option.split)
  then have "maskFile (add_all xs (env_phase (w_host w) (keepEnv o1) uc p2)) = []" for xs
    unfolding add_all_def by (simp add: same)
  then have "maskFile p3 = []"
    by (intro foldR_invariant [OF 3 [unfolded root_phase_def], where P = "\<lambda>p. maskFile p = []"])
      (auto simp: sshconf_step_def bind_text_def tempWith_Inr Let_def split: option.splits)
  then have "mask_ok h (kernel_phase w g p3)"
    by (simp add: mask_ok_def kernel_phase_def Let_def add_all_def same)
  then have "mask_ok h p4"
    by (rule foldR_invariant [OF 4])
      (use assms(2) in \<open>auto simp: proc_step_def mask_ok_def maskFileOnce_def tempWith_Inr fresh_temps_def split: if_splits\<close>)
  then have "mask_ok h (gpu_phase (w_host w) (gpu o1) (fold (sys_step (w_host w)) sysMask p4))"
    by (auto simp: mask_ok_def gpu_phase_def same sys_step_def gpu_step_def simp del: fold_append)
  then have "mask_ok h p5"
    using 5 by (auto simp: mask_ok_def container_phase_def socket_source_def Let_def split: option.splits if_splits)
  then show ?thesis
    by (auto simp: 6 mask_ok_def display_phase_def Let_def same bind_same_def)
qed

end
