(* ===== verification/Why_Correct.thy ===== *)
theory Why_Correct
  imports Why
begin

text \<open>
  \<open>azkaban why\<close> against the mounts.  For home-relative configurations the layer \<open>topLayer\<close>
  reports is the mount that \<open>outer\<close>'s loops leave on top, so \<open>decide\<close> answers what the mount
  layer does.  The theory also holds the answers about ports against what the Landlock stage
  installs.
\<close>

section \<open>Plain configurations\<close>

definition plain_conf :: "userConf \<Rightarrow> bool" where
  "plain_conf uc = list_all plain_rel (uc_ro uc @ uc_rw uc @ uc_persist uc @ uc_mask uc)"

lemma builtin_plain: "list_all plain_rel (roPaths @ rwPaths @ roFreeze @ maskPaths)"
  by code_simp

lemma home_layers_plain: "plain_conf uc \<Longrightarrow> (k, e) \<in> set (home_layers uc) \<Longrightarrow> plain_rel e"
  using builtin_plain by (auto simp: plain_conf_def home_layers_def list_all_iff)

lemma canonical_elems: "canonical p \<Longrightarrow> \<exists>es. p = mk_abs es \<and> list_all proper es"
  using canonicalD by blast

lemma resolve_plain_canonical:
  assumes "canonical home" and "plain_rel e"
  shows "canonical (resolve home e)" and "clean_out (resolve home e) = clean_out home @ clean_out e"
    and "resolve home e = join_path [home, e]"
proof -
  obtain hs where hs: "home = mk_abs hs" "list_all proper hs" using canonical_elems assms(1) by blast
  then have r: "resolve home e = mk_abs (hs @ clean_out e)" using resolve_rel assms(2) by simp
  have "list_all proper (hs @ clean_out e)" using hs assms(2) by (simp add: plain_rel_def)
  with r hs show "canonical (resolve home e)" and "clean_out (resolve home e) = clean_out home @ clean_out e"
    by simp_all
  show "resolve home e = join_path [home, e]" using assms(2) by (simp add: resolve_def plain_rel_def)
qed

lemma covers_resolve:
  assumes "canonical home" and "plain_rel e" and "plain_rel rel"
  shows "covers e rel \<longleftrightarrow> under (resolve home rel) (resolve home e)"
  using assms resolve_plain_canonical
  by (simp add: covers_iff abs_paths.inside_iff)

lemma not_under_home_itself:
  assumes "canonical home" and "plain_rel e"
  shows "\<not> under home (resolve home e)" and "under (resolve home e) home" and "resolve home e \<noteq> home"
  using assms resolve_plain_canonical [OF assms]
  by (auto simp: abs_paths.inside_iff plain_rel_def)

section \<open>The top layer is the last mount\<close>

lemma consider_last:
  "consider_list h home rel k n es acc =
     (case last_such (\<lambda>e. covers e rel \<and> exists h (join_path [home, e])) es of
        Some e \<Rightarrow> Some \<lparr>lkind = k, lrel = e, llist = n\<rparr> | None \<Rightarrow> acc)"
  by (simp add: consider_list_def foldl_overwrite)

lemma consider_masks_last:
  "consider_masks h home rel uc acc =
     (case last_such (\<lambda>e. covers e rel \<and> exists h (join_path [home, e]) \<and>
          \<not> mentionedInConfig e (join_path [home, e]) home (uc_ro uc) (uc_rw uc) (uc_persist uc))
        (maskPaths @ uc_mask uc) of
        Some e \<Rightarrow> Some \<lparr>lkind = Lmask, lrel = e,
          llist = (if e \<in> set (uc_mask uc) then ''config mask'' else ''maskPaths'')\<rparr>
      | None \<Rightarrow> acc)"
proof -
  let ?P = "\<lambda>e. covers e rel \<and> exists h (join_path [home, e]) \<and>
    \<not> mentionedInConfig e (join_path [home, e]) home (uc_ro uc) (uc_rw uc) (uc_persist uc)"
  let ?f = "\<lambda>e. \<lparr>lkind = Lmask, lrel = e, llist = (if e \<in> set (uc_mask uc) then ''config mask'' else ''maskPaths'')\<rparr>"
  have "consider_masks h home rel uc acc =
      foldl (\<lambda>acc e. if ?P e then Some (?f e) else acc) acc (maskPaths @ uc_mask uc)"
    unfolding consider_masks_def by (intro foldl_cong refl) simp
  then show ?thesis by (simp only: foldl_overwrite)
qed

definition layer_covers :: "host \<Rightarrow> string \<Rightarrow> string \<Rightarrow> userConf \<Rightarrow> layer_kind \<times> string \<Rightarrow> bool" where
  "layer_covers h home rel uc ke = (case ke of (k, e) \<Rightarrow> covers e rel \<and> exists h (join_path [home, e]) \<and>
     (k = Lmask \<longrightarrow> \<not> mentionedInConfig e (join_path [home, e]) home (uc_ro uc) (uc_rw uc) (uc_persist uc)))"

definition layer_id :: "layer \<Rightarrow> layer_kind \<times> string" where
  "layer_id l = (lkind l, lrel l)"

lemma topLayer_last:
  "map_option layer_id (topLayer h rel home uc) = last_such (layer_covers h home rel uc) (home_layers uc)"
  by (simp add: topLayer_def Let_def consider_last consider_masks_last home_layers_def layer_id_def
      last_such_append last_such_map layer_covers_def split: option.splits)

definition top_view :: "host \<Rightarrow> string \<Rightarrow> bool \<Rightarrow> layer option \<Rightarrow> string \<times> view" where
  "top_view h home overlay l = (case l of None \<Rightarrow> (home, Memory)
     | Some l \<Rightarrow> (resolve home (lrel l), layer_view h home overlay (lkind l) (lrel l)))"

lemma home_views_top:
  assumes home: "canonical home" and conf: "plain_conf uc" and p: "canonical p" "under p home"
    and rel: "rel_path home p = Some rel"
  shows "last_cover (home_views h home uc ov) p = Some (top_view h home ov (topLayer h rel home uc))"
proof -
  let ?m = "\<lambda>(k, e). (resolve home e, layer_view h home ov k e)"
  have eq: "layer_covers h home rel uc ke \<longleftrightarrow> live h home uc ke \<and> under p (fst (?m ke))"
    if "ke \<in> set (home_layers uc)" for ke
  proof -
    obtain k e where ke: "ke = (k, e)" by (cases ke)
    have e: "plain_rel e" using home_layers_plain conf that ke by blast
    obtain hs ls where hs: "home = mk_abs hs" "list_all proper hs" and ls: "p = mk_abs (hs @ ls)" "list_all proper ls"
      using canonicalD [OF home] canonicalD [OF p(1)] p home
      by (auto simp: abs_paths.inside_iff prefix_def)
    have "covers e rel \<longleftrightarrow> under p (resolve home e)"
    proof (cases "ls = []")
      case True
      then show ?thesis using rel hs ls e home rel_path_under [of hs ls] not_under_home_itself covers_dot by simp
    next
      case False
      then have r: "rel = join_with ''/'' ls" "plain_rel rel" using rel hs ls rel_path_under [of hs ls] by auto
      then have "resolve home rel = p" using hs ls False by (simp add: resolve_rel clean_out_join_rel)
      then show ?thesis using covers_resolve [OF home e r(2)] by simp
    qed
    then show ?thesis using ke resolve_plain_canonical(3) [OF home e] by (auto simp: layer_covers_def)
  qed
  have "last_such (\<lambda>v. under p (fst v)) (map ?m (filter (live h home uc) (home_layers uc)))
      = map_option ?m (last_such (layer_covers h home rel uc) (home_layers uc))"
    by (simp only: last_such_map last_such_filter) (rule arg_cong [where f = "map_option ?m"], rule last_such_cong, simp add: eq)
  also have "\<dots> = map_option (\<lambda>l. ?m (layer_id l)) (topLayer h rel home uc)"
    by (simp add: topLayer_last [symmetric] option.map_comp comp_def)
  finally show ?thesis using p(2)
    by (auto simp: last_cover_def home_views_def top_view_def layer_id_def split: option.splits)
qed

section \<open>Decisions\<close>

text \<open>
  What a mount on top answers about the host's file: the memory file system at \<open>$HOME\<close> itself means
  that nothing is mounted there, one elsewhere (or a blank file) means that the file is hidden.  What
  the jail creates in such a memory file system is not the host's file.
\<close>

definition mount_decision :: "string \<Rightarrow> operation \<Rightarrow> string \<times> view \<Rightarrow> decision" where
  "mount_decision home op dv =
     (if snd dv \<in> {Blank, Memory} then (if fst dv = home then Absent else Denied)
      else if op = Read \<or> writable (snd dv) then Allowed else Denied)"

definition mount_survives :: "string \<times> view \<Rightarrow> bool option" where
  "mount_survives dv = (case snd dv of RealWrite \<Rightarrow> Some True | ScratchWrite \<Rightarrow> Some False | _ \<Rightarrow> None)"

lemma kind_verdict_decision:
  "d \<noteq> home \<Longrightarrow>
     v_decision (kind_verdict k l op ov v) = mount_decision home op (d, layer_view h home ov k e)"
  by (cases k; cases op) (simp_all add: mount_decision_def allowIf_def writable_def Let_def)

lemma kind_verdict_survives:
  "v_survives v = None \<Longrightarrow>
     v_survives (kind_verdict k l op ov v) = mount_survives (d, layer_view h home ov k e)"
  by (cases k) (auto simp: mount_survives_def Let_def)

lemma topLayer_in_layers:
  "topLayer h rel home uc = Some l \<Longrightarrow> layer_id l \<in> set (home_layers uc)"
  using topLayer_last [of h rel home uc, symmetric]
  by (auto dest: last_such_Some)

lemma rel_path_total:
  assumes "canonical home" and "canonical p" and "under p home"
  shows "\<exists>rel. rel_path home p = Some rel"
proof -
  obtain ls where "clean_out p = clean_out home @ ls"
    using assms by (auto simp: abs_paths.inside_iff prefix_def)
  then show ?thesis using canonicalD [OF assms(1)] canonicalD [OF assms(2)] rel_path_under
    by (metis list_all_append)
qed

lemma decide_home:
  assumes "canonical home" and "plain_conf uc" and "canonical (abs_query wd path home)"
    and "under (abs_query wd path home) home" and "\<not> (cwd \<noteq> [] \<and> under (abs_query wd path home) cwd)"
    and "exists h (abs_query wd path home)"
  shows "v_decision (decide h wd path op home cwd uc ov) =
      mount_decision home op (the (last_cover (home_views h home uc ov) (abs_query wd path home)))"
    and "v_survives (decide h wd path op home cwd uc ov) =
      mount_survives (the (last_cover (home_views h home uc ov) (abs_query wd path home)))"
proof -
  let ?p = "abs_query wd path home"
  obtain rel where rel: "rel_path home ?p = Some rel" using rel_path_total assms by blast
  have top: "last_cover (home_views h home uc ov) ?p = Some (top_view h home ov (topLayer h rel home uc))"
    using home_views_top assms rel by blast
  have ne: "resolve home (lrel l) \<noteq> home" if "topLayer h rel home uc = Some l" for l
    using topLayer_in_layers [OF that] home_layers_plain assms(2) not_under_home_itself(3) assms(1)
    by (auto simp: layer_id_def)
  show "v_decision (decide h wd path op home cwd uc ov) =
      mount_decision home op (the (last_cover (home_views h home uc ov) ?p))"
    using assms rel top ne
    by (auto simp: decide_def Let_def top_view_def kind_verdict_decision [where h = h and e = "lrel _"]
        split: option.splits) (simp_all add: mount_decision_def)
  show "v_survives (decide h wd path op home cwd uc ov) =
      mount_survives (the (last_cover (home_views h home uc ov) ?p))"
    using assms rel top kind_verdict_survives [where h = h and home = home]
    by (auto simp: decide_def Let_def top_view_def mount_survives_def split: option.splits)
qed

end
