(* ===== verification/Outer_Properties.thy ===== *)
theory Outer_Properties
  imports Outer_Correct Why_Correct
begin

text \<open>
  The properties of the outer stage as a whole, each with the smallest run it applies to: a host on
  which nothing exists, a project outside \<open>$HOME\<close>, no Landlock stage.
\<close>

section \<open>The sample run\<close>

definition quiet_env :: "string \<Rightarrow> string option" where
  "quiet_env k = (if k = ''TERM'' then Some ''xterm'' else None)"

definition quiet_host :: host where
  "quiet_host = \<lparr>stat = (\<lambda>p. None), lookup_env = quiet_env, read_file = (\<lambda>p. None),
     eval_symlinks = (\<lambda>p. None), glob = (\<lambda>p. [])\<rparr>"

definition sample_world :: world where
  "sample_world = \<lparr>w_host = quiet_host, w_mktemp = (\<lambda>pre n. Some (''/tmp/'' @ replicate n (CHR ''i'') @ CHR ''.'' # pre)),
     w_mkdirtemp = (\<lambda>pre n. None),
     w_help = [], w_mkdir_ok = True, w_home = Some ''/h'', w_cwd = Some ''/p'', w_uid = 7,
     w_resolv_link = False, w_tty_stdin = False, w_docker_proxy = (\<lambda>s c. None), w_agent_ok = (\<lambda>d. False),
     w_look_path = (\<lambda>c. Some ''/usr/bin/sh''), w_snapshot = (\<lambda>r. None), w_random = (\<lambda>n. None),
     w_listen = (\<lambda>n. None), w_self = Some ''/usr/bin/azkaban''\<rparr>"

definition sample_opts :: jailOpts where
  "sample_opts =
     \<lparr>gpu = False, overlay = False, landlockOn = False, rlimits = True, display = False, netIsolate = False,
      sshAgent = False, keepEnv = False, dry = False, allowUserns = False, rawSock = False, memMax = [],
      netPorts = [], socketKind = [], o_ro = [], o_rw = [], o_persist = [], noAudit = False, noGuidance = True,
      rollback = False, elevate = False, sshAgentRaw = False, sshAgentConfirm = False, unixSocket = [],
      unixSocketDir = [], egressHosts = [], brokerPorts = [], netHost = [], credential = [], persistAll = True\<rparr>"

abbreviation sample_build :: "string \<Rightarrow> fatal + launch" where
  "sample_build cwd \<equiv> build_plan sample_world ''/h'' cwd empty_conf sample_opts [''sh'']"

lemma foldR_skip: "(\<And>x. x \<in> set xs \<Longrightarrow> f x s = Inr s) \<Longrightarrow> foldR f xs s = Inr s"
  by (induction xs) auto

lemma foldR_total: "(\<And>x s. x \<in> set xs \<Longrightarrow> \<exists>t. f x s = Inr t) \<Longrightarrow> \<exists>t. foldR f xs s = Inr t"
proof (induction xs arbitrary: s)
  case (Cons x xs)
  then obtain t where "f x s = Inr t" by fastforce
  with Cons show ?case by simp
qed simp

lemma sample_temp: "\<exists>f pl'. tempWith (w_mktemp sample_world) pre c pl = Inr (f, pl')"
  by (simp add: tempWith_def sample_world_def)

lemma sample_mask: "\<exists>f pl'. maskFileOnce (w_mktemp sample_world) pl = Inr (f, pl')"
  using sample_temp [of "''azkaban-mask-''" "[]" pl] by (auto simp: maskFileOnce_def)

lemma sample_base_at:
  assumes "w_mktemp w = w_mktemp sample_world" and "glob (w_host w) = (\<lambda>p. [])"
  shows "\<exists>pl. base_plan w ''/h'' cwd empty_conf sample_opts = Inr pl"
proof -
  let ?h = "w_host w" and ?mk = "w_mktemp sample_world"
  obtain f p1 where 1: "writeHosts ?h ?mk (start_plan ''/h'' cwd) = Inr (f, p1)"
    using sample_temp unfolding writeHosts_def Let_def by blast
  obtain g p2 where 2: "writeResolv ?h ?mk p1 = Inr (g, p2)"
    using sample_temp unfolding writeResolv_def Let_def by blast
  obtain p3 where 3: "root_phase ?h ?mk f (env_phase ?h (keepEnv sample_opts) empty_conf p2) = Inr p3"
    by (simp add: root_phase_def assms(2))
  have "\<exists>p4. foldR (proc_step ?mk) procMask (kernel_phase w g p3) = Inr p4"
    by (rule foldR_total) (use sample_mask in \<open>fastforce simp: proc_step_def\<close>)
  then obtain p4 where 4: "foldR (proc_step ?mk) procMask (kernel_phase w g p3) = Inr p4" ..
  have 5: "container_phase w cwd sample_opts p = Inr p" for p
    by (simp add: container_phase_def sample_opts_def)
  show ?thesis by (simp add: base_plan_def Let_def assms(1) 1 2 3 4 5)
qed

lemma sample_base: "\<exists>pl. base_plan sample_world ''/h'' cwd empty_conf sample_opts = Inr pl"
  by (rule sample_base_at) (simp_all add: sample_world_def quiet_host_def)

lemma sample_home:
  "\<exists>h ov pl'. home_binds (w_host sample_world) (w_mktemp sample_world) (w_help sample_world)
     (w_mkdir_ok sample_world) ''/h'' empty_conf (overlay sample_opts) pl = Inr (h, ov, pl') \<and>
     lookup_env h = quiet_env \<and> eval_symlinks h = (\<lambda>p. None) \<and> read_file h = (\<lambda>p. None)"
proof -
  let ?h = "w_host sample_world" and ?mk = "w_mktemp sample_world"
  let ?h' = "mkdir_all ?h (join_path [''/h'', azkabanCfgDir])"
  have ne: "\<not> exists ?h p" for p by (simp add: sample_world_def quiet_host_def exists_def)
  have 1: "foldR (ro_step ?h ''/h'') es s = Inr s" and 2: "foldR (rw_step ?h ?mk ''/h'' False) es s = Inr s" for es s
    by (rule foldR_skip; simp add: ro_step_def rw_step_def ne Let_def)+
  have 3: "\<exists>t. foldR (freeze_step ?h' ''/h'') es s = Inr t" for es s
    by (rule foldR_total) (simp add: freeze_step_def Let_def)
  have 4: "\<exists>t. foldR (mask_step ?h' ?mk ''/h'' empty_conf) es s = Inr t" for es s
    by (rule foldR_total) (use sample_mask in \<open>fastforce simp: mask_step_def Let_def\<close>)
  obtain p5 where 5: "foldR (freeze_step ?h' ''/h'') roFreeze (add (Tmpfs ''/h'') pl) = Inr p5" using 3 by blast
  obtain p6 where 6: "foldR (mask_step ?h' ?mk ''/h'' empty_conf) (maskPaths @ uc_mask empty_conf) p5 = Inr p6"
    using 4 by blast
  have s: "settle_overlay (w_help sample_world) (overlay sample_opts) q = (False, q)" for q
    by (simp add: settle_overlay_def sample_opts_def)
  have "home_binds ?h ?mk (w_help sample_world) (w_mkdir_ok sample_world) ''/h'' empty_conf (overlay sample_opts) pl
      = Inr (?h', False, p6)"
    unfolding home_binds_def s 1 bindR.simps prod.case 2 using 5 6
    by (simp add: Let_def empty_conf_def sample_world_def)
  moreover have "lookup_env ?h' = quiet_env" "eval_symlinks ?h' = (\<lambda>p. None)" "read_file ?h' = (\<lambda>p. None)"
    by (simp_all add: mkdir_all_def sample_world_def quiet_host_def)
  ultimately show ?thesis by blast
qed

text \<open>A run with the sample options succeeds once its home section has.\<close>

lemma sample_launch:
  assumes b: "base_plan w ''/h'' cwd empty_conf sample_opts = Inr pb"
    and hb: "home_binds (w_host w) (w_mktemp w) (w_help w) (w_mkdir_ok w) ''/h'' empty_conf (overlay sample_opts) pb =
      Inr (h, ov, ph)"
    and env: "lookup_env h = quiet_env" "eval_symlinks h = (\<lambda>p. None)" "read_file h = (\<lambda>p. None)"
    and look: "w_look_path w = (\<lambda>c. Some ''/usr/bin/sh'')"
  shows "\<exists>l. build_plan w ''/h'' cwd empty_conf sample_opts [''sh''] = Inr l \<and> l_cmd l = [''/usr/bin/sh'']"
proof -
  let ?w = "w\<lparr>w_host := h\<rparr>" and ?o = "sample_opts\<lparr>overlay := ov\<rparr>"
  have lists: "unixSocket ?o = []" "unixSocketDir ?o = []" "uc_unixSocket empty_conf = []"
    "uc_unixSocketDir empty_conf = []" "uc_credential empty_conf = []" "uc_net empty_conf = []"
    by (simp_all add: sample_opts_def empty_conf_def)
  have off: "\<not> sshAgent ?o" "\<not> landlockOn ?o" "noGuidance ?o" "\<not> rollback ?o" "brokerPorts ?o = []"
    by (simp_all add: sample_opts_def)
  have t: "\<exists>pg. target_phase ?w cwd [''sh''] ph = Inr ([''/usr/bin/sh''], pg)"
    by (simp add: target_phase_def Let_def env look)
  then obtain pg where g: "grant_plan ?w ''/h'' cwd empty_conf ?o [''sh''] ph = Inr ([''/usr/bin/sh''], pg)"
    by (auto simp: grant_plan_def lists agent_phase_def off)
  show ?thesis
    unfolding build_plan_def b hb bindR.simps Let_def prod.case g
    by (simp add: rollback_phase_def off lists egress_phase_def broker_ports_def inner_phase_def guidance_phase_def)
qed

lemma sample_runs: "\<exists>l. sample_build cwd = Inr l \<and> l_cmd l = [''/usr/bin/sh'']"
proof -
  obtain pb where b: "base_plan sample_world ''/h'' cwd empty_conf sample_opts = Inr pb"
    using sample_base by blast
  obtain h ov ph where hb: "home_binds (w_host sample_world) (w_mktemp sample_world) (w_help sample_world)
     (w_mkdir_ok sample_world) ''/h'' empty_conf (overlay sample_opts) pb = Inr (h, ov, ph)"
    and env: "lookup_env h = quiet_env" "eval_symlinks h = (\<lambda>p. None)" "read_file h = (\<lambda>p. None)"
    using sample_home by blast
  show ?thesis by (rule sample_launch [OF b hb env]) (simp add: sample_world_def)
qed

lemma sample_glob: "glob_inside sample_world"
  by (simp add: glob_inside_def sample_world_def quiet_host_def)

lemma sample_no_sockets:
  "unixSocket sample_opts @ uc_unixSocket empty_conf @ unixSocketDir sample_opts @ uc_unixSocketDir empty_conf = []"
  "\<not> sshAgent sample_opts" "\<not> keepEnv sample_opts"
  by (simp_all add: sample_opts_def empty_conf_def)

section \<open>Mounts, variables and the frozen directory\<close>

text \<open>
  C3. The trusted config directory is frozen: in every finished plan the mount on top of a path at or
  below \<open>~/.config/azkaban\<close> is read-only, blank or an empty memory file system, so that no write of the
  jail reaches the host's files there or a layer over them.  The exceptions are paths at or below the
  working directory, a unix socket or socket directory the user named, or the socket that
  \<open>--ssh-agent\<close> binds (\<open>agent_targets\<close>: the agent's own in raw mode, else the proxy's in its fresh directory).
\<close>

theorem config_dir_stays_frozen:
  assumes "build_plan w home cwd uc o1 cmd = Inr l" and "under c (resolve home azkabanCfgDir)"
    and "\<not> under c cwd" and "\<not> (\<exists>a. a \<in> agent_targets w o1 \<and> under c a)"
    and "list_all (\<lambda>s. \<not> under c (resolve home s))
      (unixSocket o1 @ uc_unixSocket uc @ unixSocketDir o1 @ uc_unixSocketDir uc)"
  shows "\<exists>d v. last_cover (views (ops (l_plan l))) c = Some (d, v) \<and> v \<in> {ReadOnly, Blank, Memory}"
proof -
  from assms(3-5) have "\<not> under c a" if "a \<in> explicit_grants w home cwd uc o1" for a
    using that by (auto simp: explicit_grants_def list_all_iff)
  from config_frozen [OF assms(1,2) this] show ?thesis by (auto simp: reaches_host_def)
qed

theorem config_dir_stays_frozen_witness:
  "\<exists>l. sample_build ''/p'' = Inr l \<and>
     (\<exists>d v. last_cover (views (ops (l_plan l))) ''/h/.config/azkaban/config'' = Some (d, v) \<and>
       v \<in> {ReadOnly, Blank, Memory})"
proof -
  obtain l where l: "sample_build ''/p'' = Inr l" using sample_runs by blast
  have "under ''/h/.config/azkaban/config'' (resolve ''/h'' azkabanCfgDir)"
    and "\<not> under ''/h/.config/azkaban/config'' ''/p''" by code_simp+
  from config_dir_stays_frozen [OF l this] l show ?thesis
    by (simp add: sample_no_sockets agent_targets_def)
qed

text \<open>
  C17. The project directory is the real one: in every finished plan the mount on top of a path below
  the working directory is the writable bind of the working directory, except at the target binary
  and azkaban's own files.
\<close>

theorem project_dir_is_bound_last:
  assumes "build_plan w home cwd uc o1 cmd = Inr l" and "under c cwd"
    and "\<not> under c (hd (l_cmd l))" and "\<not> (\<exists>q. q \<in> own_paths \<and> under c q)"
  shows "last_cover (views (ops (l_plan l))) c = Some (cwd, RealWrite)"
  using project_is_real [OF assms(1-3)] assms(4) by blast

text \<open>
  A working directory above the config directory is accepted, and then the jail can rewrite the
  trusted configuration: the freeze is bound before the project directory.
\<close>

lemma own_paths_elsewhere: "\<not> (\<exists>q. q \<in> own_paths \<and> under ''/h/.config/azkaban/config'' q)"
proof -
  have "list_all (\<lambda>q. \<not> under ''/h/.config/azkaban/config'' q)
    [selfInJail, guidancePolicyPath, guidanceReadmePath, guidanceDir @ ''/claude-hook.sh'', guidanceBinPath]"
    by code_simp
  then show ?thesis by (auto simp: own_paths_def)
qed

theorem project_dir_is_bound_last_witness:
  "\<exists>l. sample_build ''/h/.config'' = Inr l \<and>
     last_cover (views (ops (l_plan l))) ''/h/.config/azkaban/config'' = Some (''/h/.config'', RealWrite)"
proof -
  obtain l where l: "sample_build ''/h/.config'' = Inr l" "l_cmd l = [''/usr/bin/sh'']" using sample_runs by blast
  have "under ''/h/.config/azkaban/config'' ''/h/.config''"
    and "\<not> under ''/h/.config/azkaban/config'' ''/usr/bin/sh''" by code_simp+
  with project_dir_is_bound_last [OF l(1) _ _ own_paths_elsewhere] l show ?thesis by simp
qed

lemma config_as_project_is_accepted:
  "outer_guards (sample_world\<lparr>w_cwd := Some ''/h/.config''\<rparr>) = Inr (''/h'', ''/h/.config'')"
  by (simp add: outer_guards_def sample_world_def)

lemma mount_op:
  "(d, v) \<in> set (views xs) \<Longrightarrow> writable v \<Longrightarrow>
     (v \<in> {RealWrite, ScratchWrite} \<and> (\<exists>s. RwBind s d \<in> set xs \<or> DevBind s d \<in> set xs \<or> TmpOverlay d \<in> set xs)) \<or>
     (v = Memory \<and> Tmpfs d \<in> set xs) \<or> (v = DevTree \<and> MountDev d \<in> set xs) \<or> (v = ProcTree \<and> MountProc d \<in> set xs)"
proof (induction xs)
  case (Cons x xs)
  then show ?case by (cases x) (auto simp: writable_def split: if_splits)
qed simp

text \<open>
  C1. Every mount of a finished plan that the jail can write is accounted for.  One through which
  a write reaches a host file or its scratch layer is granted to Landlock, being at or below a granted
  directory or a granted file.  A memory file system is granted too, or it is one of those that the
  allowlists leave out on purpose: \<open>/run\<close>, \<open>$HOME\<close> itself, the \<open>/sys\<close> masks and the credential masks,
  which the mounts would let the jail write and only Landlock closes.  The only other writable mounts
  are bwrap's own \<open>/dev\<close> and \<open>/proc\<close>.
\<close>

theorem writable_mounts_are_granted:
  assumes "build_plan w home cwd uc o1 cmd = Inr l" and "glob_inside w"
    and "(d, v) \<in> set (views (ops (l_plan l)))" and "writable v"
  shows "(v \<in> {RealWrite, ScratchWrite} \<and> granted (llRW (l_plan l)) (llRWFiles (l_plan l)) d) \<or>
    (v = Memory \<and> granted (llRW (l_plan l)) (llRWFiles (l_plan l)) d) \<or>
    (v = Memory \<and> d \<in> {''/run'', home} \<union> (\<lambda>s. ''/sys/'' @ s) ` set sysMask \<union>
      resolve home ` set (maskPaths @ uc_mask uc)) \<or>
    (v = DevTree \<and> d = ''/dev'') \<or> (v = ProcTree \<and> d = ''/proc'')"
proof -
  have "plan_inv (base_rw cwd) (memory_dirs home uc) (env_names uc) (l_plan l)"
    by (rule build_plan_inv [OF assms(1,2)])
  then have ok: "okop (memory_dirs home uc) (env_names uc) (llRW (l_plan l)) (llRWFiles (l_plan l)) op"
    if "op \<in> set (ops (l_plan l))" for op
    using that by (simp add: plan_inv_def)
  from mount_op [OF assms(3,4)] show ?thesis
    by (auto dest!: ok simp: memory_dirs_def)
qed

theorem writable_mounts_are_granted_witness:
  "\<exists>l. sample_build ''/p'' = Inr l \<and> granted (llRW (l_plan l)) (llRWFiles (l_plan l)) ''/p''"
proof -
  obtain l where l: "sample_build ''/p'' = Inr l" "l_cmd l = [''/usr/bin/sh'']" using sample_runs by blast
  have "under ''/p'' ''/p''" "\<not> under ''/p'' ''/usr/bin/sh''" by code_simp+
  moreover have "list_all (\<lambda>q. \<not> under ''/p'' q)
    [selfInJail, guidancePolicyPath, guidanceReadmePath, guidanceDir @ ''/claude-hook.sh'', guidanceBinPath]"
    by code_simp
  ultimately have "last_cover (views (ops (l_plan l))) ''/p'' = Some (''/p'', RealWrite)"
    by (intro project_is_real [OF l(1)]) (auto simp: own_paths_def l(2))
  then have "(''/p'', RealWrite) \<in> set (views (ops (l_plan l)))" using last_cover_member by blast
  from writable_mounts_are_granted [OF l(1) sample_glob this] l(1) show ?thesis
    by (auto simp: writable_def)
qed

section \<open>The environment\<close>

lemma any_extends:
  "tempWith mk pre d pl = Inr (f, pl') \<Longrightarrow> extends (\<lambda>x. True) pl pl'"
  "maskFileOnce mk pl = Inr (f, pl') \<Longrightarrow> extends (\<lambda>x. True) pl pl'"
  "extends (\<lambda>x. True) pl (add op pl)"
  "extends (\<lambda>x. True) pl (add_all xs pl)"
  "extends (\<lambda>x. True) pl (grantRW h p (add op pl))"
  "extends (\<lambda>x. True) pl (grantRO h p (add op pl))"
  by (auto simp: tempWith_Inr maskFileOnce_def extends_def split: if_splits)
    (use extends_add_all [of "\<lambda>x. True" xs pl] in \<open>simp add: extends_def list_all_iff\<close>)

lemma ops_bind_sames: "ops (fold bind_same ms s) = ops s @ map (\<lambda>m. RwBind m m) ms"
  by (induction ms arbitrary: s) (simp_all add: bind_same_def)

lemma display_phase_grows: "extends (\<lambda>x. True) pl (display_phase w on pl)"
  by (auto simp: display_phase_def Let_def ops_bind_sames extends_def list_all_iff) (auto simp: bind_same_def)

text \<open>The environment comes first: every later option is appended to it.\<close>

lemma base_extends_env:
  assumes "base_plan w home cwd uc o1 = Inr pl'"
  shows "\<exists>p2. ops p2 = [] \<and> extends (\<lambda>x. True) (env_phase (w_host w) (keepEnv o1) uc p2) pl'"
proof -
  let ?T = "\<lambda>x :: bwrap_op. True"
  from assms obtain f p1 g p2 p3 p4 p5 where
    1: "writeHosts (w_host w) (w_mktemp w) (start_plan home cwd) = Inr (f, p1)" and
    2: "writeResolv (w_host w) (w_mktemp w) p1 = Inr (g, p2)" and
    3: "root_phase (w_host w) (w_mktemp w) f (env_phase (w_host w) (keepEnv o1) uc p2) = Inr p3" and
    4: "foldR (proc_step (w_mktemp w)) procMask (kernel_phase w g p3) = Inr p4" and
    5: "container_phase w cwd o1 (gpu_phase (w_host w) (gpu o1) (fold (sys_step (w_host w)) sysMask p4)) = Inr p5" and
    6: "pl' = display_phase w (display o1) p5"
    by (auto simp: base_plan_def Let_def)
  have o2: "ops p2 = []" using 1 2 by (auto simp: writeHosts_def writeResolv_def Let_def tempWith_Inr start_plan_def)
  have st: "extends ?T s t" if "sshconf_step (w_host w) (w_mktemp w) x s = Inr t" for x s t
    using that by (auto simp: sshconf_step_def bind_text_def Let_def tempWith_Inr extends_def split: option.splits)
  have b: "extends ?T (env_phase (w_host w) (keepEnv o1) uc p2) p3"
    by (rule extends_trans [OF any_extends(4) extends_foldR [OF 3 [unfolded root_phase_def] st]])
  have c: "extends ?T p3 (kernel_phase w g p3)"
    by (auto simp: kernel_phase_def Let_def intro: any_extends(3-6) extends_trans)
  have d: "extends ?T (kernel_phase w g p3) p4"
    by (rule extends_foldR [OF 4])
      (auto simp: proc_step_def intro: extends_trans [OF any_extends(2) any_extends(3)])
  have e: "extends ?T p4 (fold (sys_step (w_host w)) sysMask p4)"
    by (rule extends_fold) (auto simp: sys_step_def intro: any_extends(3))
  have gp: "extends ?T q (gpu_phase h on q)" for h on q
    unfolding gpu_phase_def by (auto simp: gpu_step_def simp del: fold_append intro!: extends_fold any_extends(5))
  have k: "extends ?T q p5" if "container_phase w cwd o1 q = Inr p5" for q
    using that
    by (auto simp: container_phase_def socket_source_def Let_def extends_def split: option.splits if_splits)
  have m: "extends ?T p5 pl'" unfolding 6 by (rule display_phase_grows)
  note b also note c also note d also note e also note gp also note k [OF 5] also note m
  finally show ?thesis using o2 by blast
qed

lemma env_phase_grows: "\<not> keep \<Longrightarrow> extends (\<lambda>x. True) (add Clearenv pl) (env_phase h keep uc pl)"
  by (auto simp: env_phase_def setenv_if_set_def simp del: fold_append
      intro!: extends_fold any_extends(3-6) split: option.splits)

lemma base_starts_with_clearenv:
  assumes "base_plan w home cwd uc o1 = Inr pl'" and "\<not> keepEnv o1"
  shows "\<exists>xs. ops pl' = Clearenv # xs"
proof -
  obtain p2 where o: "ops p2 = []" and e: "extends (\<lambda>x. True) (env_phase (w_host w) (keepEnv o1) uc p2) pl'"
    using base_extends_env [OF assms(1)] by blast
  from extends_trans [OF env_phase_grows [OF assms(2)] e] o show ?thesis by (auto simp: extends_def)
qed

lemma env_phase_forwards:
  assumes "\<not> keep" and "k \<in> set (envKeep @ uc_env uc)" and "lookup_env h k = Some v"
  shows "Setenv k v \<in> set (ops (env_phase h keep uc pl))"
proof -
  have keep: "set (ops p) \<subseteq> set (ops (fold (setenv_if_set h) ks p))" for ks p
  proof (induction ks arbitrary: p)
    case (Cons x ks)
    have "set (ops p) \<subseteq> set (ops (setenv_if_set h x p))" by (auto simp: setenv_if_set_def split: option.splits)
    with Cons.IH [of "setenv_if_set h x p"] show ?case by simp
  qed simp
  have "Setenv k v \<in> set (ops (fold (setenv_if_set h) ks p))" if "k \<in> set ks" for ks p
    using that
  proof (induction ks arbitrary: p)
    case (Cons x ks)
    show ?case
    proof (cases "x = k")
      case True
      then have "Setenv k v \<in> set (ops (setenv_if_set h x p))" using assms(3) by (simp add: setenv_if_set_def)
      with keep show ?thesis by auto
    qed (use Cons in simp)
  qed simp
  from this [OF assms(2)] show ?thesis using assms(1) by (simp only: env_phase_def if_False)
qed

lemma home_binds_grows:
  assumes "home_binds h mk help ok home uc ov0 pl = Inr (h', ov, pl')"
  shows "extends (\<lambda>x. True) pl pl'"
proof -
  let ?T = "\<lambda>x :: bwrap_op. True"
  obtain p1 p2 p3 p4 p5 where
    1: "foldR (ro_step h home) (roPaths @ uc_ro uc) (add (Tmpfs home) pl) = Inr p1" and
    2: "settle_overlay help ov0 p1 = (ov, p2)" and
    3: "foldR (rw_step h mk home ov) (rwPaths @ uc_rw uc) p2 = Inr p3" and
    4: "foldR (persist_step h home) (uc_persist uc) p3 = Inr p4" and
    5: "foldR (freeze_step h' home) roFreeze p4 = Inr p5" and
    6: "foldR (mask_step h' mk home uc) (maskPaths @ uc_mask uc) p5 = Inr pl'"
    using home_binds_stages [OF assms] by metis
  have a: "extends ?T s t" if "ro_step h home e s = Inr t" for e s t
    using that by (auto simp: ro_step_def Let_def extends_def split: if_splits)
  have b: "extends ?T s t" if "rw_step h mk home ov e s = Inr t" for e s t
    using that by (auto simp: rw_step_def Let_def tempCopy_Inr extends_def split: if_splits)
  have c: "extends ?T s t" if "persist_step h home e s = Inr t" for e s t
    using that by (auto simp: persist_step_def Let_def extends_def split: if_splits)
  have d: "extends ?T s t" if "freeze_step h' home e s = Inr t" for e s t
    using that by (auto simp: freeze_step_def Let_def extends_def split: if_splits)
  have e: "extends ?T s t" if "mask_step h' mk home uc x s = Inr t" for x s t
    using that by (auto simp: mask_step_def Let_def maskFileOnce_def tempWith_Inr extends_def split: if_splits)
  have "extends ?T pl (add (Tmpfs home) pl)" by (rule any_extends(3))
  also note extends_foldR [OF 1 a]
  also have "extends ?T p1 p2" using settle_overlay_ops [OF 2] by simp
  also note extends_foldR [OF 3 b]
  also note extends_foldR [OF 4 c]
  also note extends_foldR [OF 5 d]
  also note extends_foldR [OF 6 e]
  finally show ?thesis .
qed

text \<open>
  C16. The environment of the jail is an allowlist: unless \<open>--keep-env\<close> was given the first option
  clears the host's environment, and every variable set afterwards is on \<open>envKeep\<close>, was named by an
  \<open>env\<close> line of the user's config, or is one of azkaban's own; a secret such as GH_TOKEN is none of these.
\<close>

theorem environment_is_allowlisted:
  assumes "build_plan w home cwd uc o1 cmd = Inr l" and "glob_inside w"
  shows "(\<forall>k v. Setenv k v \<in> set (ops (l_plan l)) \<longrightarrow> k \<in> set envKeep \<union> set (uc_env uc) \<union> own_names) \<and>
    (\<not> keepEnv o1 \<longrightarrow> (\<exists>xs. ops (l_plan l) = Clearenv # xs)) \<and>
    (''GH_TOKEN'' \<notin> set envKeep \<union> own_names)"
proof (intro conjI)
  have inv: "plan_inv (base_rw cwd) (memory_dirs home uc) (env_names uc) (l_plan l)" by (rule build_plan_inv [OF assms])
  show "\<forall>k v. Setenv k v \<in> set (ops (l_plan l)) \<longrightarrow> k \<in> set envKeep \<union> set (uc_env uc) \<union> own_names"
  proof (intro allI impI)
    fix k v assume "Setenv k v \<in> set (ops (l_plan l))"
    with inv have "okop (memory_dirs home uc) (env_names uc) (llRW (l_plan l)) (llRWFiles (l_plan l)) (Setenv k v)"
      unfolding plan_inv_def by blast
    then show "k \<in> set envKeep \<union> set (uc_env uc) \<union> own_names" by (simp add: env_names_def)
  qed
  show "\<not> keepEnv o1 \<longrightarrow> (\<exists>xs. ops (l_plan l) = Clearenv # xs)"
  proof
    assume k: "\<not> keepEnv o1"
    obtain pb h ov ph A where b: "base_plan w home cwd uc o1 = Inr pb" and
      hb: "home_binds (w_host w) (w_mktemp w) (w_help w) (w_mkdir_ok w) home uc (overlay o1) pb = Inr (h, ov, ph)" and
      e: "extends (writes_at A) ph (l_plan l)"
      using after_home_extends [OF assms(1)] by blast
    from base_starts_with_clearenv [OF b k] home_binds_grows [OF hb] e
    show "\<exists>xs. ops (l_plan l) = Clearenv # xs" by (auto simp: extends_def)
  qed
  show "''GH_TOKEN'' \<notin> set envKeep \<union> own_names"
    by (simp add: envKeep_def own_names_def llEnvRO_def llEnvROFiles_def llEnvRW_def llEnvRWFiles_def
        llEnvPorts_def llEnvPrefix_def elevateFDEnv_def)
qed

theorem environment_is_allowlisted_witness:
  "\<exists>l xs. sample_build ''/p'' = Inr l \<and> ops (l_plan l) = Clearenv # xs"
proof -
  obtain l where l: "sample_build ''/p'' = Inr l" using sample_runs by blast
  from environment_is_allowlisted [OF l sample_glob] sample_no_sockets(3) l show ?thesis by blast
qed

section \<open>The explanation agrees with the mounts\<close>

text \<open>The decision about a path does not depend on whether the writable layers are overlays.\<close>

lemma decision_of_view:
  "mount_decision home op (top_view h home ov t) = mount_decision home op (top_view h home ov' t)"
proof (cases t)
  case (Some l)
  then show ?thesis by (cases "lkind l") (simp_all add: top_view_def mount_decision_def writable_def)
qed (simp add: top_view_def)

text \<open>The finished plan shows \<open>topLayer\<close> on a path below \<open>$HOME\<close> that no later mount covers.\<close>

lemma final_mount:
  assumes "build_plan w home cwd uc o1 cmd = Inr l" and "fresh_temps (w_mktemp w) (w_host w)"
    and "config_made (w_host w) home" and "\<not> exists (w_host w) []"
    and "canonical home" and "plain_conf uc" and "canonical p" and "under p home" and "rel_path home p = Some rel"
    and "\<And>q. q \<in> later_mounts w home cwd uc o1 (hd (l_cmd l)) \<Longrightarrow> \<not> under p q"
  shows "last_cover (views (ops (l_plan l))) p =
    Some (top_view (w_host w) home (overlay (l_opts l)) (topLayer (w_host w) rel home uc))"
proof -
  obtain pb ov ph where b: "base_plan w home cwd uc o1 = Inr pb" and
    hb: "home_binds (w_host w) (w_mktemp w) (w_help w) (w_mkdir_ok w) home uc (overlay o1) pb = Inr (w_host w, ov, ph)" and
    top: "last_cover (views (ops (l_plan l))) p = last_cover (views (ops ph)) p"
    using home_section_stays [OF assms(1,3,10)] by blast
  have "views (ops ph) = views (ops pb) @ home_views (w_host w) home uc ov"
    by (rule home_binds_views [OF hb assms(2-4) base_mask_ok [OF b assms(2)]])
  with home_views_top [OF assms(5-9)] top launch_overlay [OF assms(1) b hb] show ?thesis
    by (simp add: last_cover_append)
qed

text \<open>
  C4. \<open>azkaban why\<close> tells the truth about \<open>$HOME\<close>: take a finished plan and an existing path at or below
  \<open>$HOME\<close> that no mount bound after the home section covers (the working directory, the target binary,
  the sockets named or forwarded, known_hosts, azkaban's own files).  For a configuration of plain
  home-relative paths and a host that has the config directory, the decision \<open>why\<close> gives from the
  same configuration and \<open>--persist\<close> is that of the mount on top of the path in the finished plan.  The
  survival it reports is the mount's too whenever the run settled on the overlay that \<open>why\<close> assumes,
  which is not so with \<open>--rollback\<close> and on a bwrap without \<open>--tmp-overlay\<close>.
\<close>

theorem why_agrees_with_mounts:
  assumes "build_plan w home cwd uc o1 cmd = Inr l" and "fresh_temps (w_mktemp w) (w_host w)"
    and "config_made (w_host w) home" and "\<not> exists (w_host w) []"
    and "canonical home" and "plain_conf uc"
    and "canonical (abs_query wd path home)" and "under (abs_query wd path home) home"
    and "exists (w_host w) (abs_query wd path home)"
    and "\<not> (\<exists>q. q \<in> later_mounts w home cwd uc o1 (hd (l_cmd l)) \<and> under (abs_query wd path home) q)"
  shows "\<exists>d v. last_cover (views (ops (l_plan l))) (abs_query wd path home) = Some (d, v) \<and>
    v_decision (decide (w_host w) wd path op home cwd uc (\<not> persistAll o1)) = mount_decision home op (d, v) \<and>
    (overlay (l_opts l) = (\<not> persistAll o1) \<longrightarrow>
      v_survives (decide (w_host w) wd path op home cwd uc (\<not> persistAll o1)) = mount_survives (d, v))"
proof -
  let ?p = "abs_query wd path home" and ?h = "w_host w" and ?a = "\<not> persistAll o1"
  obtain rel where rel: "rel_path home ?p = Some rel" using rel_path_total assms(5,7,8) by blast
  have top: "last_cover (views (ops (l_plan l))) ?p =
      Some (top_view ?h home (overlay (l_opts l)) (topLayer ?h rel home uc))"
    using final_mount [OF assms(1-8) rel] assms(10) by blast
  have view: "last_cover (home_views ?h home uc ?a) ?p = Some (top_view ?h home ?a (topLayer ?h rel home uc))"
    by (rule home_views_top [OF assms(5-8) rel])
  have cwd: "\<not> (cwd \<noteq> [] \<and> under ?p cwd)"
    using assms(10) by (auto simp: later_mounts_def explicit_grants_def)
  from decide_home [OF assms(5-8) cwd assms(9), of op ?a] top view
    decision_of_view [of home op ?h "overlay (l_opts l)" "topLayer ?h rel home uc" ?a]
  show ?thesis
    by (intro exI [of _ "fst (top_view ?h home (overlay (l_opts l)) (topLayer ?h rel home uc))"]
        exI [of _ "snd (top_view ?h home (overlay (l_opts l)) (topLayer ?h rel home uc))"]) simp
qed

text \<open>A host on which nothing but the config directory exists.\<close>

definition settled_host :: host where
  "settled_host = mkdir_all quiet_host ''/h/.config/azkaban''"

definition settled_world :: world where
  "settled_world = sample_world\<lparr>w_host := settled_host\<rparr>"

lemma settled_exists: "exists settled_host q \<longleftrightarrow> q \<noteq> [] \<and> under ''/h/.config/azkaban'' q"
  by (auto simp: settled_host_def mkdir_all_def exists_def quiet_host_def)

lemma mkdir_all_again: "mkdir_all (mkdir_all h p) p = mkdir_all h p"
  by (rule host.equality) (auto simp: mkdir_all_def)

lemma settled_made: "config_made settled_host ''/h''"
proof -
  have "join_path [''/h'', azkabanCfgDir] = ''/h/.config/azkaban''" by code_simp
  then show ?thesis by (simp add: config_made_def settled_host_def mkdir_all_again)
qed

lemma settled_home:
  "\<exists>pl'. home_binds settled_host (w_mktemp sample_world) [] True ''/h'' empty_conf False pl = Inr (settled_host, False, pl')"
proof -
  let ?h = settled_host and ?mk = "w_mktemp sample_world"
  have lists: "uc_ro empty_conf = []" "uc_rw empty_conf = []" "uc_persist empty_conf = []" "uc_mask empty_conf = []"
    by (simp_all add: empty_conf_def)
  have safe: "list_all (\<lambda>e. bindSafe ''/h'' (resolve ''/h'' e)) rwPaths" by code_simp
  have cfg: "mkdir_all ?h (join_path [''/h'', azkabanCfgDir]) = ?h" using settled_made by (simp add: config_made_def)
  have "\<exists>p1. foldR (ro_step ?h ''/h'') roPaths (add (Tmpfs ''/h'') pl) = Inr p1"
    by (rule foldR_total) (simp add: ro_step_def Let_def)
  then obtain p1 where 1: "foldR (ro_step ?h ''/h'') roPaths (add (Tmpfs ''/h'') pl) = Inr p1" ..
  have "\<exists>p3. foldR (rw_step ?h ?mk ''/h'' False) rwPaths p1 = Inr p3"
    by (rule foldR_total) (use safe in \<open>auto simp: rw_step_def Let_def list_all_iff\<close>)
  then obtain p3 where 3: "foldR (rw_step ?h ?mk ''/h'' False) rwPaths p1 = Inr p3" ..
  have "\<exists>p5. foldR (freeze_step ?h ''/h'') roFreeze p3 = Inr p5"
    by (rule foldR_total) (simp add: freeze_step_def Let_def)
  then obtain p5 where 5: "foldR (freeze_step ?h ''/h'') roFreeze p3 = Inr p5" ..
  have "\<exists>p6. foldR (mask_step ?h ?mk ''/h'' empty_conf) maskPaths p5 = Inr p6"
    by (rule foldR_total) (use sample_mask in \<open>fastforce simp: mask_step_def Let_def\<close>)
  then show ?thesis
    by (auto simp: home_binds_def lists 1 settle_overlay_def 3 cfg 5 Let_def)
qed

lemma settled_fields:
  "w_host settled_world = settled_host" "w_mktemp settled_world = w_mktemp sample_world"
  "w_help settled_world = []" "w_mkdir_ok settled_world" "w_look_path settled_world = (\<lambda>c. Some ''/usr/bin/sh'')"
  "lookup_env settled_host = quiet_env" "eval_symlinks settled_host = (\<lambda>p. None)"
  "read_file settled_host = (\<lambda>p. None)" "glob settled_host = (\<lambda>p. [])" "overlay sample_opts = False"
  by (simp_all add: settled_world_def sample_world_def settled_host_def mkdir_all_def quiet_host_def sample_opts_def)

lemma settled_runs:
  "\<exists>l. build_plan settled_world ''/h'' ''/p'' empty_conf sample_opts [''sh''] = Inr l \<and> l_cmd l = [''/usr/bin/sh'']"
proof -
  obtain pb where b: "base_plan settled_world ''/h'' ''/p'' empty_conf sample_opts = Inr pb"
    using sample_base_at [of settled_world] by (auto simp: settled_fields)
  obtain ph where "home_binds settled_host (w_mktemp sample_world) [] True ''/h'' empty_conf False pb =
      Inr (settled_host, False, ph)"
    using settled_home by blast
  then show ?thesis
    by (intro sample_launch [OF b, where h = settled_host and ov = False and ph = ph]) (simp_all add: settled_fields)
qed

lemma settled_fresh: "fresh_temps (w_mktemp sample_world) settled_host"
  unfolding fresh_temps_def settled_exists
  by (auto simp: sample_world_def under_def trim_suffix_def)

lemma settled_unmounted:
  "\<not> (\<exists>q. q \<in> later_mounts settled_world ''/h'' ''/p'' empty_conf sample_opts ''/usr/bin/sh'' \<and>
     under ''/h/.config/azkaban'' q)"
proof -
  have "list_all (\<lambda>q. \<not> under ''/h/.config/azkaban'' q) [''/p'', ''/usr/bin/sh'',
    selfInJail, guidancePolicyPath, guidanceReadmePath, guidanceDir @ ''/claude-hook.sh'', guidanceBinPath]"
    by code_simp
  moreover have "set (unixSocket sample_opts @ uc_unixSocket empty_conf) = {}"
    "set (unixSocketDir sample_opts @ uc_unixSocketDir empty_conf) = {}" "\<not> sshAgent sample_opts"
    using sample_no_sockets by auto
  ultimately show ?thesis
    by (auto simp: later_mounts_def explicit_grants_def agent_targets_def own_paths_def)
qed

theorem why_agrees_with_mounts_witness:
  "\<exists>l d v. build_plan settled_world ''/h'' ''/p'' empty_conf sample_opts [''sh''] = Inr l \<and>
     last_cover (views (ops (l_plan l))) ''/h/.config/azkaban'' = Some (d, v) \<and>
     v_decision (decide settled_host (Some ''/p'') ''/h/.config/azkaban'' Write ''/h'' ''/p'' empty_conf False) =
       mount_decision ''/h'' Write (d, v)"
proof -
  obtain l where l: "build_plan settled_world ''/h'' ''/p'' empty_conf sample_opts [''sh''] = Inr l"
    "l_cmd l = [''/usr/bin/sh'']" using settled_runs by blast
  have q: "abs_query (Some ''/p'') ''/h/.config/azkaban'' ''/h'' = ''/h/.config/azkaban''" by code_simp
  have facts: "canonical ''/h''" "plain_conf empty_conf" "canonical ''/h/.config/azkaban''"
    "under ''/h/.config/azkaban'' ''/h''"
    by code_simp+
  have ex: "exists settled_host ''/h/.config/azkaban''" "\<not> exists settled_host []"
    by (simp_all add: settled_exists)
  have "persistAll sample_opts" by (simp add: sample_opts_def)
  with why_agrees_with_mounts [OF l(1), of "Some ''/p''" "''/h/.config/azkaban''" Write, unfolded settled_fields q l(2),
      OF settled_fresh settled_made ex(2) facts ex(1)] settled_unmounted l(1)
  show ?thesis by auto
qed

end
