(* ===== verification/Landlock.thy ===== *)
theory Landlock
  imports Outer_Correct
begin

text \<open>
  The inner stage (\<open>landlock.go\<close>, \<open>landlockStage\<close>): it reads the allowlists back from the
  environment that bwrap set, builds the rules, parses the ports, installs the elevation filter,
  restricts itself and executes the target without the channel's variables.  \<open>jail_env\<close> is what
  bwrap's options make of the environment, so the two stages can be put together: the rules are
  exactly the lists of the plan.

  The kernel and go-landlock are not modelled beyond the rule set handed to them; \<open>inner_world\<close>
  says whether they accept it.
\<close>

section \<open>The environment bwrap sets up\<close>

type_synonym environ = "(string \<times> string) list"

fun apply_env :: "bwrap_op \<Rightarrow> environ \<Rightarrow> environ" where
  "apply_env Clearenv env = []"
| "apply_env (Setenv k v) env = (k, v) # filter (\<lambda>kv. fst kv \<noteq> k) env"
| "apply_env _ env = env"

definition jail_env :: "bwrap_op list \<Rightarrow> environ \<Rightarrow> environ" where
  "jail_env xs env = fold apply_env xs env"

definition env_get :: "environ \<Rightarrow> string \<Rightarrow> string" where
  "env_get env k = (case map_of env k of Some v \<Rightarrow> v | None \<Rightarrow> [])"

section \<open>The stage\<close>

text \<open>
  A path rule carries the modifiers chained to it: missing paths are skipped, ioctls on devices and
  links or renames across directories are granted as well.
\<close>

datatype modifier = IgnoreIfMissing | WithRefer | WithIoctlDev

datatype rule =
    RODirs "modifier list" "string list"
  | ROFiles "modifier list" "string list"
  | RWDirs "modifier list" "string list"
  | RWFiles "modifier list" "string list"
  | ConnectTCP nat

record inner_world =
  iw_filter_ok :: bool
  iw_send_ok :: "int \<Rightarrow> bool"
  iw_restrict_ok :: "bool \<Rightarrow> rule list \<Rightarrow> bool"
  iw_look_path :: "string \<Rightarrow> string option"
  iw_exec_ok :: "string \<Rightarrow> bool"

datatype inner_error =
    BadUsage | BadPort string | BadFd string | FilterFailed | SendFailed
  | RestrictFailed | NotFound string | ExecFailed

record inner_run =
  ir_rules :: "rule list"
  ir_net :: bool
  ir_supervised :: bool
  ir_bin :: string
  ir_argv :: "string list"
  ir_env :: environ

definition path_rules :: "environ \<Rightarrow> rule list" where
  "path_rules env =
     [RODirs [IgnoreIfMissing] (splitEnv (env_get env llEnvRO)),
      ROFiles [IgnoreIfMissing] (splitEnv (env_get env llEnvROFiles)),
      RWDirs [WithIoctlDev, WithRefer, IgnoreIfMissing] (splitEnv (env_get env llEnvRW)),
      RWFiles [WithIoctlDev, IgnoreIfMissing] (splitEnv (env_get env llEnvRWFiles))]"

text \<open>Only a non-empty port list makes the rule set handle (and so deny) TCP.\<close>

definition landlock_rules :: "environ \<Rightarrow> (nat \<times> inner_error) + rule list \<times> bool" where
  "landlock_rules env =
     (let ports = splitEnv (env_get env llEnvPorts) in
      (case connect_ports ports of
         Inl p \<Rightarrow> Inl (2, BadPort p)
       | Inr ns \<Rightarrow> Inr (path_rules env @ map ConnectTCP ns, ports \<noteq> [])))"

definition supervise :: "inner_world \<Rightarrow> environ \<Rightarrow> (nat \<times> inner_error) + bool" where
  "supervise iw env =
     (let fd = env_get env elevateFDEnv in
      if fd = [] then Inr False
      else (case atoi fd of
              None \<Rightarrow> Inl (2, BadFd fd)
            | Some sock \<Rightarrow>
                if \<not> iw_filter_ok iw then Inl (1, FilterFailed)
                else if \<not> iw_send_ok iw sock then Inl (1, SendFailed)
                else Inr True))"

definition target_env :: "environ \<Rightarrow> environ" where
  "target_env env = filter (\<lambda>kv. \<not> has_prefix (fst kv) llEnvPrefix) env"

definition landlockStage :: "inner_world \<Rightarrow> string list \<Rightarrow> environ \<Rightarrow> (nat \<times> inner_error) + inner_run" where
  "landlockStage iw args env =
     (if length args < 2 \<or> hd args \<noteq> ''--'' then Inl (2, BadUsage)
      else let cmd = tl args in
        bindR (landlock_rules env) (\<lambda>(rules, net).
        bindR (supervise iw env) (\<lambda>sup.
          if \<not> iw_restrict_ok iw net rules then Inl (1, RestrictFailed)
          else (case iw_look_path iw (hd cmd) of
            None \<Rightarrow> Inl (127, NotFound (hd cmd))
          | Some bin \<Rightarrow>
              if \<not> iw_exec_ok iw bin then Inl (126, ExecFailed)
              else Inr \<lparr>ir_rules = rules, ir_net = net, ir_supervised = sup, ir_bin = bin,
                        ir_argv = cmd, ir_env = target_env env\<rparr>))))"

section \<open>Reading the environment back\<close>

lemma filter_keys: "map_of (filter (\<lambda>kv. fst kv \<noteq> k) env) k' = (if k' = k then None else map_of env k')"
  by (induction env) auto

lemma env_get_apply:
  "env_get (apply_env op env) k =
     (case op of Clearenv \<Rightarrow> [] | Setenv k' v \<Rightarrow> (if k = k' then v else env_get env k) | _ \<Rightarrow> env_get env k)"
  by (cases op) (auto simp: env_get_def filter_keys)

lemma env_get_Setenv [simp]: "env_get (apply_env (Setenv k v) env) k' = (if k' = k then v else env_get env k')"
  using env_get_apply [of "Setenv k v" env k'] by simp

declare apply_env.simps(2) [simp del]

lemma jail_env_append: "jail_env (xs @ ys) env = jail_env ys (jail_env xs env)"
  by (simp add: jail_env_def)

lemma jail_env_simps [simp]:
  "jail_env [] env = env" "jail_env (op # xs) env = jail_env xs (apply_env op env)"
  by (simp_all add: jail_env_def)

definition leaves :: "string \<Rightarrow> bwrap_op \<Rightarrow> bool" where
  "leaves k op = (case op of Clearenv \<Rightarrow> False | Setenv k' v \<Rightarrow> k' \<noteq> k | _ \<Rightarrow> True)"

lemma leaves_apply: "leaves k op \<Longrightarrow> env_get (apply_env op env) k = env_get env k"
  unfolding env_get_apply by (cases op) (auto simp: leaves_def)

lemma leaves_env: "list_all (leaves k) xs \<Longrightarrow> env_get (jail_env xs env) k = env_get env k"
  by (induction xs arbitrary: env) (simp_all add: leaves_apply)

lemma leaves_simps [simp]:
  "leaves k Clearenv = False" "leaves k (Setenv k' v) = (k' \<noteq> k)" "leaves k (RoBind s d) = True"
  by (simp_all add: leaves_def)

section \<open>The channel between the stages\<close>

text \<open>What the plan says about the allowlists, apart from its options.\<close>

definition same_lists :: "plan \<Rightarrow> plan \<Rightarrow> bool" where
  "same_lists pl pl' \<longleftrightarrow> llRO pl' = llRO pl \<and> llROFiles pl' = llROFiles pl \<and>
     llRW pl' = llRW pl \<and> llRWFiles pl' = llRWFiles pl"

lemma ll_setenv_Inr:
  "ll_setenv k ps pl = Inr pl' \<longleftrightarrow> (\<exists>v. llJoin ps = Inr v \<and> pl' = add (Setenv k v) pl)"
  by (auto simp: ll_setenv_def split: sum.splits)

lemma ops_add [simp]: "ops (add op pl) = ops pl @ [op]"
  by (simp add: add_def)

lemma lists_add [simp]:
  "llRO (add op pl) = llRO pl" "llROFiles (add op pl) = llROFiles pl"
  "llRW (add op pl) = llRW pl" "llRWFiles (add op pl) = llRWFiles pl"
  by (simp_all add: add_def)

lemma ll_channel_ops:
  assumes "ll_channel pl = Inr pl'"
  shows "same_lists pl pl' \<and> (\<exists>a b c d. ops pl' = ops pl @ [Setenv llEnvRO a, Setenv llEnvROFiles b,
      Setenv llEnvRW c, Setenv llEnvRWFiles d] \<and> llJoin (llRO pl) = Inr a \<and>
      llJoin (llROFiles pl) = Inr b \<and> llJoin (llRW pl) = Inr c \<and> llJoin (llRWFiles pl) = Inr d)"
  using assms by (auto simp: ll_channel_def ll_setenv_Inr same_lists_def)

lemma channel_names:
  "llEnvRO = ''AZKABAN_LL_RO''" "llEnvROFiles = ''AZKABAN_LL_ROFILES''" "llEnvRW = ''AZKABAN_LL_RW''"
  "llEnvRWFiles = ''AZKABAN_LL_RWFILES''" "llEnvPorts = ''AZKABAN_LL_PORTS''"
  by (simp_all add: llEnvRO_def llEnvROFiles_def llEnvRW_def llEnvRWFiles_def llEnvPorts_def llEnvPrefix_def)

text \<open>The options the guidance adds touch neither the lists nor the channel.\<close>

lemma guidance_leaves:
  assumes "guidance_phase w home cwd uc o1 pl = Inr pl'" and "k \<noteq> ''AZKABAN_JAIL''" and "k \<noteq> ''AZKABAN_POLICY''"
  shows "same_lists pl pl' \<and> (\<exists>xs. ops pl' = ops pl @ xs \<and> list_all (leaves k) xs)"
  using assms
  by (auto simp: guidance_phase_def Let_def bind_text_def tempWith_Inr setenvs_def bind_self_def same_lists_def
      split: if_splits option.splits)

definition port_ops :: "jailOpts \<Rightarrow> bwrap_op list" where
  "port_ops o1 =
     (if portFields (netPorts o1) \<noteq> [] then [Setenv llEnvPorts (join_with [newline] (portFields (netPorts o1)))] else []) @
     (if elevate o1 then [Setenv elevateFDEnv (itoa elevateSockFD)] else [])"

lemma port_channel_ops: "same_lists pl (port_channel o1 pl) \<and> ops (port_channel o1 pl) = ops pl @ port_ops o1"
  by (simp add: port_channel_def port_ops_def Let_def same_lists_def)

text \<open>The stage finds, under each name, the value the outer stage joined from the plan's list.\<close>

lemma channel_values:
  assumes "build_plan w home cwd uc o1 cmd = Inr l" and "landlockOn (l_opts l)"
  shows "llJoin (llRO (l_plan l)) = Inr (env_get (jail_env (ops (l_plan l)) env) llEnvRO)"
    and "llJoin (llROFiles (l_plan l)) = Inr (env_get (jail_env (ops (l_plan l)) env) llEnvROFiles)"
    and "llJoin (llRW (l_plan l)) = Inr (env_get (jail_env (ops (l_plan l)) env) llEnvRW)"
    and "llJoin (llRWFiles (l_plan l)) = Inr (env_get (jail_env (ops (l_plan l)) env) llEnvRWFiles)"
    and "portFields (netPorts (l_opts l)) \<noteq> [] \<Longrightarrow> env_get (jail_env (ops (l_plan l)) env) llEnvPorts =
      join_with [newline] (portFields (netPorts (l_opts l)))"
    and "elevate (l_opts l) \<Longrightarrow> env_get (jail_env (ops (l_plan l)) env) elevateFDEnv = itoa elevateSockFD"
    and "l_inner l = [selfInJail, landlockExecFlag, ''--''] @ l_cmd l"
proof -
  let ?o = "l_opts l" and ?e = "jail_env (ops (l_plan l)) env"
  obtain w' cmd' pe pi inner where
    i: "inner_phase w' ?o cmd' pe = Inr (inner, pi)" and
    g: "guidance_phase w' home cwd uc ?o pi = Inr (l_plan l)" and
    c: "l_cmd l = cmd'" "l_inner l = inner"
    using build_plan_stages [OF assms(1)] by metis
  obtain self p1 where p1: "ll_channel (add (RoBind (self_path w' self) selfInJail) pe) = Inr p1"
    and pi: "pi = port_channel ?o p1" and inner: "inner = [selfInJail, landlockExecFlag, ''--''] @ cmd'"
    using i assms(2) by (auto simp: inner_phase_def split: option.splits)
  obtain p2 a b c' d where ops1: "ops p1 = p2 @ [Setenv llEnvRO a, Setenv llEnvROFiles b, Setenv llEnvRW c', Setenv llEnvRWFiles d]"
    and j: "llJoin (llRO p1) = Inr a" "llJoin (llROFiles p1) = Inr b" "llJoin (llRW p1) = Inr c'" "llJoin (llRWFiles p1) = Inr d"
    using ll_channel_ops [OF p1] by (auto simp: same_lists_def)
  have pi_ops: "ops pi = ops p1 @ port_ops ?o" and same1: "same_lists p1 pi"
    using port_channel_ops [of p1 ?o] unfolding pi by blast+
  have rest: "env_get ?e k = env_get (jail_env (ops pi) env) k" and same2: "same_lists pi (l_plan l)"
    if "k \<noteq> ''AZKABAN_JAIL''" "k \<noteq> ''AZKABAN_POLICY''" for k
    using guidance_leaves [OF g that] leaves_env [of k] by (auto simp: jail_env_append)
  have lists: "same_lists p1 (l_plan l)"
    using same1 same2 [of "[]"] unfolding same_lists_def by simp
  note val = rest [unfolded pi_ops ops1 jail_env_append]
  show "llJoin (llRO (l_plan l)) = Inr (env_get ?e llEnvRO)"
    using j(1) lists val [of llEnvRO]
    by (simp add: same_lists_def port_ops_def channel_names elevateFDEnv_def)
  show "llJoin (llROFiles (l_plan l)) = Inr (env_get ?e llEnvROFiles)"
    using j(2) lists val [of llEnvROFiles]
    by (simp add: same_lists_def port_ops_def channel_names elevateFDEnv_def)
  show "llJoin (llRW (l_plan l)) = Inr (env_get ?e llEnvRW)"
    using j(3) lists val [of llEnvRW]
    by (simp add: same_lists_def port_ops_def channel_names elevateFDEnv_def)
  show "llJoin (llRWFiles (l_plan l)) = Inr (env_get ?e llEnvRWFiles)"
    using j(4) lists val [of llEnvRWFiles]
    by (simp add: same_lists_def port_ops_def channel_names elevateFDEnv_def)
  show "env_get ?e llEnvPorts = join_with [newline] (portFields (netPorts ?o))" if "portFields (netPorts ?o) \<noteq> []"
    using that val [of llEnvPorts]
    by (simp add: port_ops_def channel_names elevateFDEnv_def)
  show "env_get ?e elevateFDEnv = itoa elevateSockFD" if "elevate ?o"
    using that val [of elevateFDEnv]
    by (simp add: port_ops_def channel_names elevateFDEnv_def)
  show "l_inner l = [selfInJail, landlockExecFlag, ''--''] @ l_cmd l"
    using c inner by simp
qed

lemma fields_func_clean: "f \<in> set (fields_func P s) \<Longrightarrow> f \<noteq> [] \<and> (\<forall>x \<in> set f. \<not> P x)"
  by (auto simp: fields_func_def dest: split_by_clean_fields)

lemma splitEnv_ports:
  assumes "portFields s \<noteq> []"
  shows "splitEnv (join_with [newline] (portFields s)) = portFields s"
proof -
  have clean: "f \<noteq> [] \<and> newline \<notin> set f" if "f \<in> set (portFields s)" for f
  proof -
    have "f \<noteq> [] \<and> (\<forall>x \<in> set f. \<not> (x = CHR '','' \<or> is_space x))"
      using that unfolding portFields_def by (rule fields_func_clean)
    moreover have "is_space newline" by code_simp
    ultimately show ?thesis by blast
  qed
  then have "split_on newline (join_with [newline] (portFields s)) = portFields s"
    by (intro split_join [OF assms]) blast
  moreover have "filter (\<lambda>f. f \<noteq> []) (portFields s) = portFields s"
    using clean by (intro filter_True) blast
  ultimately show ?thesis by (simp only: splitEnv_def fields_func_def)
qed

end
