(* ===== verification/Landlock_Properties.thy ===== *)
theory Landlock_Properties
  imports Outer_Properties Landlock
begin

text \<open>
  The two stages together: the inner stage, started by the command line the outer stage built and
  in the environment its options set, restricts itself to exactly the lists of the plan.
\<close>

section \<open>A sample run with Landlock and a port list\<close>

definition strict_opts :: jailOpts where
  "strict_opts = sample_opts\<lparr>landlockOn := True, elevate := True, netPorts := ''443, 80''\<rparr>"

definition sample_inner :: inner_world where
  "sample_inner = \<lparr>iw_filter_ok = True, iw_send_ok = (\<lambda>fd. fd = 4), iw_restrict_ok = (\<lambda>net rules. True),
     iw_look_path = Some, iw_exec_ok = (\<lambda>bin. True)\<rparr>"

definition clean_path :: "string \<Rightarrow> bool" where
  "clean_path p \<longleftrightarrow> newline \<notin> set p \<and> nul \<notin> set p"

definition clean_lists :: "plan \<Rightarrow> bool" where
  "clean_lists pl \<longleftrightarrow> list_all clean_path (llRO pl) \<and> list_all clean_path (llROFiles pl) \<and>
     list_all clean_path (llRW pl) \<and> list_all clean_path (llRWFiles pl)"

lemma clean_add [simp]: "clean_lists (add op pl) = clean_lists pl"
  by (simp add: clean_lists_def)

lemma clean_add_all [simp]: "clean_lists (add_all xs pl) = clean_lists pl"
  unfolding add_all_def by (induction xs arbitrary: pl) simp_all

lemma clean_updates [simp]:
  "clean_lists (pl\<lparr>temps := ts\<rparr>) = clean_lists pl" "clean_lists (pl\<lparr>maskFile := f\<rparr>) = clean_lists pl"
  "clean_lists (pl\<lparr>degraded := ds\<rparr>) = clean_lists pl" "clean_lists (degrade d pl) = clean_lists pl"
  by (simp_all add: clean_lists_def degrade_def)

lemma clean_grows [simp]:
  "clean_lists (pl\<lparr>llRO := llRO pl @ [p]\<rparr>) = (clean_lists pl \<and> clean_path p)"
  "clean_lists (pl\<lparr>llROFiles := llROFiles pl @ [p]\<rparr>) = (clean_lists pl \<and> clean_path p)"
  by (auto simp: clean_lists_def)

lemma clean_temp:
  "tempWith mk pre d pl = Inr (f, pl') \<Longrightarrow> clean_lists pl' = clean_lists pl"
  "maskFileOnce mk pl = Inr (f, pl') \<Longrightarrow> clean_lists pl' = clean_lists pl"
  by (auto simp: tempWith_Inr maskFileOnce_def split: if_splits)

lemma clean_start: "clean_lists (start_plan ''/h'' ''/p'')"
  by code_simp

lemma clean_joins: "list_all clean_path xs \<Longrightarrow> llJoin xs = Inr (join_with [newline] xs)"
  by (auto simp: llJoin_Inr clean_path_def list_all_iff)

lemma channel_total:
  assumes "clean_lists pl"
  shows "\<exists>pl'. ll_channel pl = Inr pl'"
  using assms clean_joins [of "llRO pl"] clean_joins [of "llROFiles pl"] clean_joins [of "llRW pl"]
    clean_joins [of "llRWFiles pl"]
  by (simp add: ll_channel_def ll_setenv_def clean_lists_def)

lemma strict_base: "\<exists>pl. base_plan sample_world ''/h'' ''/p'' empty_conf strict_opts = Inr pl \<and> clean_lists pl"
proof -
  let ?h = "w_host sample_world" and ?mk = "w_mktemp sample_world"
  have same: "base_plan sample_world ''/h'' ''/p'' empty_conf strict_opts =
      base_plan sample_world ''/h'' ''/p'' empty_conf sample_opts"
    by (simp add: base_plan_def strict_opts_def container_phase_def sample_opts_def)
  obtain pl where pl: "base_plan sample_world ''/h'' ''/p'' empty_conf sample_opts = Inr pl"
    using sample_base by blast
  have off: "\<not> gpu sample_opts" "\<not> display sample_opts" "socketKind sample_opts = []" "\<not> keepEnv sample_opts"
    by (simp_all add: sample_opts_def)
  obtain f p1 g p2 p3 p4 where
    1: "writeHosts ?h ?mk (start_plan ''/h'' ''/p'') = Inr (f, p1)" and
    2: "writeResolv ?h ?mk p1 = Inr (g, p2)" and
    3: "root_phase ?h ?mk f (env_phase ?h False empty_conf p2) = Inr p3" and
    4: "foldR (proc_step ?mk) procMask (kernel_phase sample_world g p3) = Inr p4" and
    5: "pl = display_phase sample_world False (fold (sys_step ?h) sysMask p4)"
    using pl off by (auto simp: base_plan_def Let_def gpu_phase_def container_phase_def)
  have ne: "glob ?h x = []" "\<not> exists ?h y" for x y
    by (simp_all add: sample_world_def quiet_host_def exists_def)
  have fold_id: "fold (sys_step ?h) xs p = p" for xs p
    by (induction xs arbitrary: p) (simp_all add: sys_step_def ne)
  have fold_env: "clean_lists (fold (setenv_if_set ?h) xs p) = clean_lists p" for xs p
    by (induction xs arbitrary: p) (simp_all add: setenv_if_set_def clean_lists_def split: option.split)
  have "clean_lists p2"
    using 1 2 clean_start by (auto simp: writeHosts_def writeResolv_def Let_def clean_temp)
  then have "clean_lists p3" using 3 by (auto simp: root_phase_def ne env_phase_def fold_env simp del: fold_append)
  then have "clean_lists (kernel_phase sample_world g p3)" by (simp add: kernel_phase_def Let_def)
  then have "clean_lists p4"
    by (rule foldR_invariant [OF 4]) (auto simp: proc_step_def clean_temp)
  then have "clean_lists pl" by (simp add: 5 fold_id display_phase_def ne)
  with pl same show ?thesis by auto
qed

lemma strict_home:
  assumes "home_binds (w_host sample_world) (w_mktemp sample_world) (w_help sample_world) (w_mkdir_ok sample_world)
      ''/h'' empty_conf ov0 pl = Inr (h, ov, pl')" and "clean_lists pl"
  shows "clean_lists pl'"
proof -
  let ?h = "w_host sample_world" and ?mk = "w_mktemp sample_world"
  obtain p1 p2 p3 p4 p5 where
    1: "foldR (ro_step ?h ''/h'') (roPaths @ uc_ro empty_conf) (add (Tmpfs ''/h'') pl) = Inr p1" and
    2: "settle_overlay (w_help sample_world) ov0 p1 = (ov, p2)" and
    3: "foldR (rw_step ?h ?mk ''/h'' ov) (rwPaths @ uc_rw empty_conf) p2 = Inr p3" and
    4: "foldR (persist_step ?h ''/h'') (uc_persist empty_conf) p3 = Inr p4" and
    5: "foldR (freeze_step h ''/h'') roFreeze p4 = Inr p5" and
    6: "foldR (mask_step h ?mk ''/h'' empty_conf) (maskPaths @ uc_mask empty_conf) p5 = Inr pl'"
    using home_binds_stages [OF assms(1)] by metis
  have ne: "\<not> exists ?h y" for y by (simp add: sample_world_def quiet_host_def exists_def)
  have "clean_lists p1"
    by (intro foldR_invariant [OF 1, where P = clean_lists]) (use assms(2) in \<open>auto simp: ro_step_def Let_def ne\<close>)
  then have "clean_lists p2" using 2 by (auto simp: settle_overlay_def split: if_splits)
  then have "clean_lists p3"
    by (rule foldR_invariant [OF 3]) (auto simp: rw_step_def Let_def ne)
  then have p4: "clean_lists p4" using 4 by (simp add: empty_conf_def)
  have "list_all (\<lambda>e. clean_path (resolve ''/h'' e)) roFreeze" by code_simp
  with p4 have "clean_lists p5"
    by (intro foldR_invariant [OF 5, where P = clean_lists])
      (auto simp: freeze_step_def Let_def list_all_iff clean_lists_def split: if_splits)
  then show ?thesis
    by (rule foldR_invariant [OF 6]) (auto simp: mask_step_def Let_def clean_temp split: if_splits)
qed

lemma strict_stages:
  obtains pb h ov ph pg where
    "base_plan sample_world ''/h'' ''/p'' empty_conf strict_opts = Inr pb" and
    "home_binds (w_host sample_world) (w_mktemp sample_world) (w_help sample_world) (w_mkdir_ok sample_world)
       ''/h'' empty_conf (overlay strict_opts) pb = Inr (h, ov, ph)" and
    "grant_plan (sample_world\<lparr>w_host := h\<rparr>) ''/h'' ''/p'' empty_conf (strict_opts\<lparr>overlay := ov\<rparr>) [''sh''] ph =
       Inr ([''/usr/bin/sh''], pg)" and
    "clean_lists (display_env (sample_world\<lparr>w_host := h\<rparr>) False
       (isolation_phase (sample_world\<lparr>w_host := h\<rparr>) (strict_opts\<lparr>overlay := ov\<rparr>) pg))"
proof -
  obtain pb where b: "base_plan sample_world ''/h'' ''/p'' empty_conf strict_opts = Inr pb" "clean_lists pb"
    using strict_base by blast
  have ov: "overlay strict_opts = overlay sample_opts" by (simp add: strict_opts_def)
  obtain h ov' ph where hb: "home_binds (w_host sample_world) (w_mktemp sample_world) (w_help sample_world)
     (w_mkdir_ok sample_world) ''/h'' empty_conf (overlay strict_opts) pb = Inr (h, ov', ph)"
    and env: "lookup_env h = quiet_env" "eval_symlinks h = (\<lambda>p. None)" "read_file h = (\<lambda>p. None)"
    unfolding ov using sample_home by blast
  have ph: "clean_lists ph" by (rule strict_home [OF hb b(2)])
  let ?w = "sample_world\<lparr>w_host := h\<rparr>" and ?o = "strict_opts\<lparr>overlay := ov'\<rparr>"
  have lists: "unixSocket ?o = []" "unixSocketDir ?o = []" "uc_unixSocket empty_conf = []"
    "uc_unixSocketDir empty_conf = []" "\<not> sshAgent ?o"
    by (simp_all add: strict_opts_def sample_opts_def empty_conf_def)
  have bin: "clean_path ''/usr/bin/sh''" by code_simp
  have "\<exists>pg. target_phase ?w ''/p'' [''sh''] ph = Inr ([''/usr/bin/sh''], pg) \<and> clean_lists pg"
    using ph bin by (simp add: target_phase_def Let_def env sample_world_def clean_lists_def)
  then obtain pg where g: "grant_plan ?w ''/h'' ''/p'' empty_conf ?o [''sh''] ph = Inr ([''/usr/bin/sh''], pg)"
    and pg: "clean_lists pg"
    by (auto simp: grant_plan_def lists agent_phase_def)
  have "clean_lists (warnTIOCSTI ?w pl) = clean_lists pl" for pl
    by (simp add: warnTIOCSTI_def env sample_world_def)
  then have "clean_lists (display_env ?w False (isolation_phase ?w ?o pg))"
    using pg by (simp add: display_env_def isolation_phase_def Let_def)
  then show ?thesis using that b(1) hb g by blast
qed

lemma strict_runs:
  "\<exists>l. build_plan sample_world ''/h'' ''/p'' empty_conf strict_opts [''sh''] = Inr l \<and>
     l_cmd l = [''/usr/bin/sh''] \<and> landlockOn (l_opts l) \<and> elevate (l_opts l) \<and> netPorts (l_opts l) = ''443, 80''"
proof (rule strict_stages)
  fix pb h ov ph pg
  let ?w = "sample_world\<lparr>w_host := h\<rparr>" and ?o = "strict_opts\<lparr>overlay := ov\<rparr>"
  assume s: "base_plan sample_world ''/h'' ''/p'' empty_conf strict_opts = Inr pb"
    "home_binds (w_host sample_world) (w_mktemp sample_world) (w_help sample_world) (w_mkdir_ok sample_world)
       ''/h'' empty_conf (overlay strict_opts) pb = Inr (h, ov, ph)"
    "grant_plan ?w ''/h'' ''/p'' empty_conf ?o [''sh''] ph = Inr ([''/usr/bin/sh''], pg)"
    and clean: "clean_lists (display_env ?w False (isolation_phase ?w ?o pg))"
  have off: "uc_credential empty_conf = []" "uc_net empty_conf = []" "landlockOn ?o" "noGuidance ?o" "\<not> rollback ?o"
      "brokerPorts ?o = []" "\<not> display strict_opts" "netPorts ?o = ''443, 80''" "elevate ?o"
    by (simp_all add: strict_opts_def sample_opts_def empty_conf_def)
  obtain pc where "ll_channel (add (RoBind (self_path ?w ''/usr/bin/azkaban'') selfInJail)
      (display_env ?w False (isolation_phase ?w ?o pg))) = Inr pc"
    using clean channel_total clean_add by blast
  moreover have "w_self ?w = Some ''/usr/bin/azkaban''" by (simp add: sample_world_def)
  ultimately show ?thesis
    unfolding build_plan_def s bindR.simps Let_def prod.case
    by (simp add: rollback_phase_def off egress_phase_def broker_ports_def inner_phase_def guidance_phase_def)
qed

section \<open>Properties\<close>

lemma target_nonempty: "grant_plan w home cwd uc o1 cmd pl = Inr (cmd', pl') \<Longrightarrow> cmd' \<noteq> []"
  by (auto simp: grant_plan_def target_phase_def Let_def split: option.splits)

lemma launch_command: "build_plan w home cwd uc o1 cmd = Inr l \<Longrightarrow> l_cmd l \<noteq> []"
  by (erule build_plan_stages) (use target_nonempty in blast)

text \<open>
  C2. The second layer enforces the plan: started by the launch's inner command line in the
  environment that its options set up, whatever that environment was before, the inner stage reads
  back exactly the non-empty entries of the plan's four allowlists (crossing renames and device
  ioctls granted on the writable ones only, paths that are missing skipped), and with a port list it either
  refuses the run for an entry that is no 16-bit port or handles TCP with exactly those ports.
\<close>

theorem inner_stage_enforces_plan:
  assumes "build_plan w home cwd uc o1 cmd = Inr l" and "landlockOn (l_opts l)"
  shows "(main_role (l_inner l) = LandlockStage (''--'' # l_cmd l)) \<and>
    (path_rules (jail_env (ops (l_plan l)) env) =
      [RODirs [IgnoreIfMissing] (filter (\<lambda>p. p \<noteq> []) (llRO (l_plan l))),
       ROFiles [IgnoreIfMissing] (filter (\<lambda>p. p \<noteq> []) (llROFiles (l_plan l))),
       RWDirs [WithIoctlDev, WithRefer, IgnoreIfMissing] (filter (\<lambda>p. p \<noteq> []) (llRW (l_plan l))),
       RWFiles [WithIoctlDev, IgnoreIfMissing] (filter (\<lambda>p. p \<noteq> []) (llRWFiles (l_plan l)))]) \<and>
    (portFields (netPorts (l_opts l)) \<noteq> [] \<longrightarrow>
      landlock_rules (jail_env (ops (l_plan l)) env) =
        (case connect_ports (portFields (netPorts (l_opts l))) of
           Inl p \<Rightarrow> Inl (2, BadPort p)
         | Inr ns \<Rightarrow> Inr (path_rules (jail_env (ops (l_plan l)) env) @ map ConnectTCP ns, True)))"
proof (intro conjI impI)
  note c = channel_values [OF assms]
  show "main_role (l_inner l) = LandlockStage (''--'' # l_cmd l)"
    unfolding c(7) main_role_def by simp
  show "path_rules (jail_env (ops (l_plan l)) env) =
      [RODirs [IgnoreIfMissing] (filter (\<lambda>p. p \<noteq> []) (llRO (l_plan l))),
       ROFiles [IgnoreIfMissing] (filter (\<lambda>p. p \<noteq> []) (llROFiles (l_plan l))),
       RWDirs [WithIoctlDev, WithRefer, IgnoreIfMissing] (filter (\<lambda>p. p \<noteq> []) (llRW (l_plan l))),
       RWFiles [WithIoctlDev, IgnoreIfMissing] (filter (\<lambda>p. p \<noteq> []) (llRWFiles (l_plan l)))]"
    unfolding path_rules_def using c(1-4) [THEN splitEnv_llJoin] by simp
  show "landlock_rules (jail_env (ops (l_plan l)) env) =
        (case connect_ports (portFields (netPorts (l_opts l))) of
           Inl p \<Rightarrow> Inl (2, BadPort p)
         | Inr ns \<Rightarrow> Inr (path_rules (jail_env (ops (l_plan l)) env) @ map ConnectTCP ns, True))"
    if ne: "portFields (netPorts (l_opts l)) \<noteq> []"
    unfolding landlock_rules_def c(5) [OF ne] splitEnv_ports [OF ne] Let_def using ne by (simp split: sum.split)
qed

theorem inner_stage_enforces_plan_witness:
  "\<exists>l. build_plan sample_world ''/h'' ''/p'' empty_conf strict_opts [''sh''] = Inr l \<and>
     landlock_rules (jail_env (ops (l_plan l)) []) =
       Inr (path_rules (jail_env (ops (l_plan l)) []) @ [ConnectTCP 443, ConnectTCP 80], True)"
proof -
  obtain l where l: "build_plan sample_world ''/h'' ''/p'' empty_conf strict_opts [''sh''] = Inr l"
    "landlockOn (l_opts l)" "netPorts (l_opts l) = ''443, 80''" using strict_runs by blast
  have f: "portFields ''443, 80'' = [''443'', ''80'']" by code_simp
  have "connect_ports [''443'', ''80''] = Inr [443, 80]"
    by (simp add: parse_port_def parseUint16_def is_digit_def digit_val_def)
  with inner_stage_enforces_plan [OF l(1,2), where env = "[]"] l f show ?thesis by simp
qed

lemma env_get_target: "env_get (target_env env) k = (if has_prefix k llEnvPrefix then [] else env_get env k)"
  unfolding env_get_def target_env_def by (induction env) auto

lemma fd_four: "itoa elevateSockFD \<noteq> []" "atoi (itoa elevateSockFD) = Some 4"
  by code_simp+

text \<open>
  C15. What the target is executed with: the command of the plan, after the kernel accepted the rule
  set, under the supervisor when one was asked for, and in the jail's environment with every
  variable of the channel removed and every other variable as it was.
\<close>

theorem target_runs_restricted:
  assumes "build_plan w home cwd uc o1 cmd = Inr l" and "landlockOn (l_opts l)"
    and "landlockStage iw (''--'' # l_cmd l) (jail_env (ops (l_plan l)) env) = Inr r"
  shows "(ir_argv r = l_cmd l \<and> iw_look_path iw (hd (l_cmd l)) = Some (ir_bin r)) \<and>
    (iw_restrict_ok iw (ir_net r) (ir_rules r)) \<and>
    (\<exists>ns. ir_rules r = path_rules (jail_env (ops (l_plan l)) env) @ map ConnectTCP ns) \<and>
    (elevate (l_opts l) \<longrightarrow> ir_supervised r \<and> iw_filter_ok iw \<and> iw_send_ok iw 4) \<and>
    (env_get (ir_env r) k =
      (if has_prefix k llEnvPrefix then [] else env_get (jail_env (ops (l_plan l)) env) k))"
proof (intro conjI impI)
  let ?e = "jail_env (ops (l_plan l)) env"
  from assms(3) obtain rules net sup bin where
    1: "landlock_rules ?e = Inr (rules, net)" and 2: "supervise iw ?e = Inr sup" and
    3: "iw_restrict_ok iw net rules" "iw_look_path iw (hd (l_cmd l)) = Some bin" and
    r: "r = \<lparr>ir_rules = rules, ir_net = net, ir_supervised = sup, ir_bin = bin, ir_argv = l_cmd l,
      ir_env = target_env ?e\<rparr>"
    by (auto simp: landlockStage_def Let_def split: if_splits option.splits)
  show "ir_argv r = l_cmd l" and "iw_look_path iw (hd (l_cmd l)) = Some (ir_bin r)"
    and "iw_restrict_ok iw (ir_net r) (ir_rules r)"
    using 3 by (simp_all add: r)
  show "\<exists>ns. ir_rules r = path_rules ?e @ map ConnectTCP ns"
    using 1 by (auto simp: r landlock_rules_def Let_def split: sum.splits)
  show "ir_supervised r" and "iw_filter_ok iw" and "iw_send_ok iw 4" if "elevate (l_opts l)"
    using 2 fd_four channel_values(6) [OF assms(1,2) that]
    by (simp_all add: r supervise_def Let_def split: if_splits)
  show "env_get (ir_env r) k = (if has_prefix k llEnvPrefix then [] else env_get ?e k)"
    by (simp add: r env_get_target)
qed

theorem target_runs_restricted_witness:
  "\<exists>l r. build_plan sample_world ''/h'' ''/p'' empty_conf strict_opts [''sh''] = Inr l \<and>
     landlockStage sample_inner (''--'' # l_cmd l) (jail_env (ops (l_plan l)) []) = Inr r \<and>
     ir_argv r = [''/usr/bin/sh''] \<and> env_get (ir_env r) llEnvRW = []"
proof -
  obtain l where l: "build_plan sample_world ''/h'' ''/p'' empty_conf strict_opts [''sh''] = Inr l"
    "landlockOn (l_opts l)" "netPorts (l_opts l) = ''443, 80''" "l_cmd l = [''/usr/bin/sh'']" "elevate (l_opts l)"
    using strict_runs by blast
  let ?e = "jail_env (ops (l_plan l)) []"
  have f: "portFields ''443, 80'' = [''443'', ''80'']" by code_simp
  have "connect_ports [''443'', ''80''] = Inr [443, 80]"
    by (simp add: parse_port_def parseUint16_def is_digit_def digit_val_def)
  then have rules: "\<exists>rs. landlock_rules ?e = Inr (rs, True)"
    using channel_values(5) [OF l(1,2), of "[]"] splitEnv_ports [of "''443, 80''"] f l(3)
    by (simp add: landlock_rules_def)
  have "supervise sample_inner ?e = Inr True"
    using channel_values(6) [OF l(1,2,5), of "[]"] fd_four by (simp add: supervise_def sample_inner_def)
  with rules have "\<exists>r. landlockStage sample_inner (''--'' # l_cmd l) ?e = Inr r"
    by (auto simp: landlockStage_def l(4) sample_inner_def)
  then obtain r where r: "landlockStage sample_inner (''--'' # l_cmd l) ?e = Inr r" by blast
  have "has_prefix llEnvRW llEnvPrefix" by code_simp
  with target_runs_restricted [OF l(1,2) r, of llEnvRW] l(1,4) r
  show ?thesis by auto
qed

end
