(* ===== verification/Network.thy ===== *)
theory Network
  imports Landlock_Properties Egress
begin

text \<open>
  The network as a whole: the ports the Landlock stage opens, the proxies that listen on them and the
  credential the jail is given, from the outer stage through the inner one to the egress proxy.
\<close>

section \<open>Port numbers\<close>



lemma digit_not_sep: "is_digit c \<Longrightarrow> \<not> (c = CHR '','' \<or> is_space c)"
  by (auto simp: is_digit_def is_space_def Let_def)

lemma fields_join:
  assumes "list_all (\<lambda>f. f \<noteq> [] \<and> (\<forall>x \<in> set f. \<not> P x)) fs" and "P c"
  shows "fields_func P (join_with [c] fs) = fs"
  using assms
proof (induction fs rule: induct_list012)
  case (3 x y zs)
  then have "split_by P (x @ c # join_with [c] (y # zs)) = x # split_by P (join_with [c] (y # zs))"
    by (intro split_by_append_sep) auto
  with 3 show ?case by (simp add: fields_func_def)
qed (auto simp: fields_func_def split_by_no_sep)

lemma portFields_itoa: "portFields (join_with '','' (map itoa ns)) = map itoa ns"
  unfolding portFields_def
  by (intro fields_join) (use digit_not_sep itoa_digits in \<open>auto simp: list_all_iff\<close>)

lemma portFields_one [simp]: "portFields (itoa n) = [itoa n]"
  using portFields_itoa [of "[n]"] by simp

section \<open>The listeners of a run\<close>






section \<open>The jail's proxy variables\<close>



section \<open>Properties\<close>





section \<open>A sample run with a host allowlist\<close>








end
