(* ===== verification/Ssh_Agent.thy ===== *)
theory Ssh_Agent
  imports Http
begin

unbundle bit_operations_syntax

text \<open>
  The filtering ssh agent (\<open>sshagentproxy.go\<close>): the length-prefixed framing over 32-bit big-endian
  counts, the classification of a message and the loop over one connection.  A connection is the
  bytes the jail sends, the bytes the host agent answers and the answers given on the terminal;
  the loop yields the bytes written to either side and the counters.  A write is modelled as
  succeeding: a failed one ends the connection early, with a prefix of the same output.
\<close>

type_synonym byte = "8 word"

definition agentFailure :: byte where "agentFailure = 5"
definition agentRequestIdentities :: byte where "agentRequestIdentities = 11"
definition agentSignRequest :: byte where "agentSignRequest = 13"

definition agentMaxMessage :: "32 word" where "agentMaxMessage = 256 * 1024"

section \<open>Framing\<close>

text \<open>\<open>binary.BigEndian\<close>.\<close>

definition put32 :: "32 word \<Rightarrow> byte list" where
  "put32 w = [ucast (drop_bit 24 w), ucast (drop_bit 16 w), ucast (drop_bit 8 w), ucast w]"

definition be32 :: "byte list \<Rightarrow> 32 word" where
  "be32 bs = push_bit 24 (ucast (bs ! 0)) OR push_bit 16 (ucast (bs ! 1)) OR
     push_bit 8 (ucast (bs ! 2)) OR ucast (bs ! 3)"

datatype read_error = ShortRead | TooLong "32 word"

definition readAgentMessage :: "byte list \<Rightarrow> read_error + byte list \<times> byte list" where
  "readAgentMessage r =
     (if length r < 4 then Inl ShortRead
      else let n = be32 (take 4 r); rest = drop 4 r in
        if n = 0 then Inr ([], rest)
        else if n > agentMaxMessage then Inl (TooLong n)
        else if length rest < unat n then Inl ShortRead
        else Inr (take (unat n) rest, drop (unat n) rest))"

definition writeAgentMessage :: "byte list \<Rightarrow> byte list" where
  "writeAgentMessage msg = put32 (of_nat (length msg)) @ msg"

text \<open>The slice \<open>b[4 : 4+n]\<close>, its bound computed in 32 bits; \<open>None\<close> is the nil slice.\<close>

definition agentString :: "byte list \<Rightarrow> byte list option" where
  "agentString b =
     (if length b < 4 then None
      else let n = be32 (take 4 b) in
        if unat n > length b - 4 then None
        else Some (drop 4 (take (unat (4 + n)) b)))"

definition hex_byte :: "byte \<Rightarrow> string" where
  "hex_byte w = [''0123456789abcdef'' ! (unat w div 16), ''0123456789abcdef'' ! (unat w mod 16)]"

definition ellipsis_utf8 :: string where
  "ellipsis_utf8 = [CHR 0xE2, CHR 0x80, CHR 0xA6]"

definition fingerprintish :: "byte list \<Rightarrow> string" where
  "fingerprintish blob =
     (if blob = [] then ''unknown key''
      else let kind = (case agentString blob of Some k \<Rightarrow> k | None \<Rightarrow> []);
               tl8 = (if length blob > 8 then drop (length blob - 8) blob else blob) in
        map (\<lambda>w. char_of (unat w)) kind @ '' '' @ ellipsis_utf8 @ concat (map hex_byte tl8))"

section \<open>One connection\<close>

record conn =
  jail_in :: "byte list"
  up_in :: "byte list"
  tty :: "byte list list"
  jail_out :: "byte list"
  up_msgs :: "byte list list"
  prompts :: "string list"
  n_signs :: nat
  n_lists :: nat
  n_refused :: nat

text \<open>
  \<open>ask\<close>: one prompt, one read of the terminal.  An exhausted list is a read error, an empty
  answer reads no byte; both deny.
\<close>

definition ask :: "byte list \<Rightarrow> conn \<Rightarrow> bool \<times> conn" where
  "ask msg c =
     (let blob = (case agentString (tl msg) of Some b \<Rightarrow> b | None \<Rightarrow> []);
          c = c\<lparr>prompts := prompts c @ [fingerprintish blob]\<rparr> in
      case tty c of
        [] \<Rightarrow> (False, c)
      | answer # later \<Rightarrow>
          (answer \<noteq> [] \<and> (hd answer = 0x79 \<or> hd answer = 0x59), c\<lparr>tty := later\<rparr>))"

definition classify :: "bool \<Rightarrow> byte list \<Rightarrow> conn \<Rightarrow> bool \<times> conn" where
  "classify confirm msg c =
     (if hd msg = agentRequestIdentities then (True, c)
      else if hd msg = agentSignRequest then (if confirm then ask msg c else (True, c))
      else (False, c))"

definition count_kind :: "byte list \<Rightarrow> conn \<Rightarrow> conn" where
  "count_kind msg c =
     (if hd msg = agentSignRequest then c\<lparr>n_signs := n_signs c + 1\<rparr>
      else if hd msg = agentRequestIdentities then c\<lparr>n_lists := n_lists c + 1\<rparr>
      else c)"

text \<open>One round of the loop: \<open>Inl\<close> is a \<open>return\<close>, \<open>Inr\<close> goes on.\<close>

definition agent_step :: "bool \<Rightarrow> conn \<Rightarrow> conn + conn" where
  "agent_step confirm c =
     (case readAgentMessage (jail_in c) of
        Inl e \<Rightarrow> Inl c
      | Inr (msg, rest) \<Rightarrow>
          let c = c\<lparr>jail_in := rest\<rparr> in
          if msg = [] then Inr c
          else (case classify confirm msg c of (allowed, c) \<Rightarrow>
            if \<not> allowed then
              Inr (c\<lparr>n_refused := n_refused c + 1, jail_out := jail_out c @ writeAgentMessage [agentFailure]\<rparr>)
            else
              let c = (count_kind msg c); c = c\<lparr>up_msgs := up_msgs c @ [msg]\<rparr> in
              case readAgentMessage (up_in c) of
                Inl e \<Rightarrow> Inl c
              | Inr (reply, urest) \<Rightarrow>
                  Inr (c\<lparr>up_in := urest, jail_out := jail_out c @ writeAgentMessage reply\<rparr>)))"

definition up_bytes :: "conn \<Rightarrow> byte list" where
  "up_bytes c = concat (map writeAgentMessage (up_msgs c))"

lemma classify_frame:
  assumes "classify confirm msg c = (ok, c')"
  shows "jail_in c' = jail_in c" and "up_in c' = up_in c" and "up_msgs c' = up_msgs c"
    and "jail_out c' = jail_out c" and "n_signs c' = n_signs c" and "n_lists c' = n_lists c" and "n_refused c' = n_refused c"
    and "ok \<Longrightarrow> hd msg \<in> {agentRequestIdentities, agentSignRequest}"
  using assms by (auto simp: classify_def ask_def Let_def split: if_splits list.splits)

lemma count_kind_frame [simp]:
  "jail_in (count_kind msg c) = jail_in c" "up_in (count_kind msg c) = up_in c"
  "up_msgs (count_kind msg c) = up_msgs c" "tty (count_kind msg c) = tty c"
  "jail_out (count_kind msg c) = jail_out c" "n_refused (count_kind msg c) = n_refused c"
  by (simp_all add: count_kind_def)

lemma readAgentMessage_shrinks:
  "readAgentMessage r = Inr (msg, rest) \<Longrightarrow> length rest < length r"
  by (auto simp: readAgentMessage_def Let_def split: if_splits)

lemma agent_step_reads:
  assumes "agent_step confirm c = Inr c'"
  shows "\<exists>msg. readAgentMessage (jail_in c) = Inr (msg, jail_in c')"
proof -
  obtain msg rest where r: "readAgentMessage (jail_in c) = Inr (msg, rest)"
    using assms by (auto simp: agent_step_def split: sum.splits)
  obtain ok c2 where cl: "classify confirm msg (c\<lparr>jail_in := rest\<rparr>) = (ok, c2)" by fastforce
  with classify_frame(1) [OF cl] assms r have "jail_in c' = rest"
    by (auto simp: agent_step_def Let_def split: sum.splits if_splits)
  with r show ?thesis by blast
qed

lemma agent_step_shrinks: "agent_step confirm c = Inr c' \<Longrightarrow> length (jail_in c') < length (jail_in c)"
  using agent_step_reads readAgentMessage_shrinks by blast

text \<open>The loop ends: every round consumes at least the four bytes of a count.\<close>

function agent_loop :: "bool \<Rightarrow> conn \<Rightarrow> conn" where
  "agent_loop confirm c = (case agent_step confirm c of Inl c' \<Rightarrow> c' | Inr c' \<Rightarrow> agent_loop confirm c')"
  by pat_completeness auto
termination
  by (relation "measure (\<lambda>(confirm, c). length (jail_in c))") (auto dest: agent_step_shrinks)

declare agent_loop.simps [simp del]

section \<open>Framing laws\<close>

lemma be32_put32: "be32 (put32 w) = w"
proof (rule bit_word_eqI)
  fix n assume "n < LENGTH(32)"
  then consider "n < 8" | "8 \<le> n" "n < 16" | "16 \<le> n" "n < 24" | "24 \<le> n" "n < 32" by fastforce
  then show "bit (be32 (put32 w)) n = bit w n"
    by cases (auto simp: be32_def put32_def bit_simps)
qed

lemma length_put32 [simp]: "length (put32 w) = 4"
  by (simp add: put32_def)

lemma unat_length: "length msg \<le> unat agentMaxMessage \<Longrightarrow> unat (of_nat (length msg) :: 32 word) = length msg"
  by (simp add: unat_of_nat agentMaxMessage_def)

lemma read_write:
  assumes "length msg \<le> unat agentMaxMessage"
  shows "readAgentMessage (writeAgentMessage msg @ rest) = Inr (msg, rest)"
proof -
  let ?n = "of_nat (length msg) :: 32 word"
  have u: "unat ?n = length msg" using assms by (rule unat_length)
  have z: "?n = 0 \<longleftrightarrow> msg = []"
    unfolding unat_eq_0 [symmetric] u by (rule length_0_conv)
  have m: "\<not> ?n > agentMaxMessage"
    using assms unfolding word_less_nat_alt u by linarith
  have hd4: "take 4 (writeAgentMessage msg @ rest) = put32 ?n"
    and tl4: "drop 4 (writeAgentMessage msg @ rest) = msg @ rest"
    by (simp_all add: writeAgentMessage_def)
  have l: "\<not> length (writeAgentMessage msg @ rest) < 4" by (simp add: writeAgentMessage_def)
  show ?thesis
    unfolding readAgentMessage_def Let_def hd4 tl4 be32_put32 u using l m z by auto
qed

lemma read_bounds:
  assumes "readAgentMessage r = Inr (msg, rest)"
  shows "length msg \<le> unat agentMaxMessage"
  using assms
  by (auto simp: readAgentMessage_def Let_def word_le_nat_alt word_less_nat_alt not_less split: if_splits)

text \<open>The messages a reader finds in a stream.\<close>

function read_all :: "byte list \<Rightarrow> byte list list" where
  "read_all r = (case readAgentMessage r of Inl e \<Rightarrow> [] | Inr (msg, rest) \<Rightarrow> msg # read_all rest)"
  by pat_completeness auto
termination
  by (relation "measure length") (auto dest: readAgentMessage_shrinks)

declare read_all.simps [simp del]

lemma read_all_writes:
  "list_all (\<lambda>m. length m \<le> unat agentMaxMessage) ms \<Longrightarrow>
     read_all (concat (map writeAgentMessage ms)) = ms"
proof (induction ms)
  case Nil
  then show ?case by (simp add: read_all.simps [of "[]"] readAgentMessage_def)
next
  case (Cons m ms)
  then show ?case
    by (simp add: read_all.simps [of "writeAgentMessage m @ _"] read_write)
qed

section \<open>What crosses the proxy\<close>

definition new_conn :: "byte list \<Rightarrow> byte list \<Rightarrow> byte list list \<Rightarrow> conn" where
  "new_conn j u answers = \<lparr>jail_in = j, up_in = u, tty = answers, jail_out = [], up_msgs = [],
     prompts = [], n_signs = 0, n_lists = 0, n_refused = 0\<rparr>"

definition forwardable :: "byte list \<Rightarrow> bool" where
  "forwardable m = (m \<noteq> [] \<and> hd m \<in> {agentRequestIdentities, agentSignRequest})"

definition is_yes :: "byte list \<Rightarrow> bool" where
  "is_yes a = (a \<noteq> [] \<and> (hd a = 0x79 \<or> hd a = 0x59))"

definition yes_left :: "conn \<Rightarrow> nat" where
  "yes_left c = length (filter is_yes (tty c))"

definition conn_inv :: "conn \<Rightarrow> bool" where
  "conn_inv c \<longleftrightarrow>
     list_all (\<lambda>m. forwardable m \<and> length m \<le> unat agentMaxMessage) (up_msgs c) \<and>
     n_signs c = length (filter (\<lambda>m. hd m = agentSignRequest) (up_msgs c)) \<and>
     n_lists c = length (filter (\<lambda>m. hd m = agentRequestIdentities) (up_msgs c))"

lemma loop_rule:
  assumes "P c" and "\<And>c c'. P c \<Longrightarrow> agent_step confirm c = Inl c' \<Longrightarrow> Q c'"
    and "\<And>c c'. P c \<Longrightarrow> agent_step confirm c = Inr c' \<Longrightarrow> P c'"
  shows "Q (agent_loop confirm c)"
  using assms(1)
proof (induction "length (jail_in c)" arbitrary: c rule: less_induct)
  case less
  show ?case
  proof (cases "agent_step confirm c")
    case (Inl c')
    then show ?thesis using assms(2) [OF less.prems Inl] by (simp add: agent_loop.simps [of confirm c])
  next
    case (Inr c')
    have "Q (agent_loop confirm c')"
      using less.hyps [OF agent_step_shrinks [OF Inr]] assms(3) [OF less.prems Inr] by blast
    then show ?thesis using Inr by (simp add: agent_loop.simps [of confirm c])
  qed
qed

lemma classify_yes:
  assumes "classify confirm msg c = (ok, c')"
  shows "confirm \<Longrightarrow> ok \<Longrightarrow> hd msg = agentSignRequest \<Longrightarrow> yes_left c = Suc (yes_left c')"
    and "yes_left c' \<le> yes_left c"
    and "\<not> confirm \<Longrightarrow> ok = (hd msg \<in> {agentRequestIdentities, agentSignRequest}) \<and> c' = c"
  using assms
  by (auto simp: classify_def ask_def Let_def yes_left_def is_yes_def agentSignRequest_def
      agentRequestIdentities_def split: if_splits list.splits)

lemma count_kind_counts [simp]:
  "n_signs (count_kind msg c) = n_signs c + (if hd msg = agentSignRequest then 1 else 0)"
  "n_lists (count_kind msg c) = n_lists c + (if hd msg = agentRequestIdentities then 1 else 0)"
  by (simp_all add: count_kind_def agentSignRequest_def agentRequestIdentities_def)

text \<open>A round forwards nothing, or exactly the message it read.\<close>

definition forwards :: "bool \<Rightarrow> conn \<Rightarrow> conn \<Rightarrow> bool" where
  "forwards confirm c c' \<longleftrightarrow>
     up_msgs c' = up_msgs c \<and> n_signs c' = n_signs c \<and> n_lists c' = n_lists c \<and> yes_left c' \<le> yes_left c \<or>
     (\<exists>msg rest. readAgentMessage (jail_in c) = Inr (msg, rest) \<and> forwardable msg \<and>
        up_msgs c' = up_msgs c @ [msg] \<and>
        n_signs c' = n_signs c + (if hd msg = agentSignRequest then 1 else 0) \<and>
        n_lists c' = n_lists c + (if hd msg = agentRequestIdentities then 1 else 0) \<and>
        (confirm \<longrightarrow> n_signs c' + yes_left c' \<le> n_signs c + yes_left c))"

lemma agent_step_forwards:
  assumes "agent_step confirm c = Inl c' \<or> agent_step confirm c = Inr c'"
  shows "forwards confirm c c'"
proof (cases "readAgentMessage (jail_in c)")
  case (Inl e)
  with assms show ?thesis by (auto simp: agent_step_def forwards_def)
next
  case (Inr mr)
  obtain msg rest where r: "readAgentMessage (jail_in c) = Inr (msg, rest)" using Inr by (cases mr) simp
  obtain ok c2 where cl: "classify confirm msg (c\<lparr>jail_in := rest\<rparr>) = (ok, c2)" by fastforce
  note fr = classify_frame [OF cl] and ye = classify_yes [OF cl]
  have y0: "yes_left (c\<lparr>jail_in := rest\<rparr>) = yes_left c" by (simp add: yes_left_def)
  show ?thesis
  proof (cases "msg = [] \<or> \<not> ok")
    case True
    have "agent_step confirm c = Inr (if msg = [] then c\<lparr>jail_in := rest\<rparr>
        else c2\<lparr>n_refused := n_refused c2 + 1, jail_out := jail_out c2 @ writeAgentMessage [agentFailure]\<rparr>)"
      using True r cl by (auto simp: agent_step_def Let_def)
    with assms have c': "c' = (if msg = [] then c\<lparr>jail_in := rest\<rparr>
        else c2\<lparr>n_refused := n_refused c2 + 1, jail_out := jail_out c2 @ writeAgentMessage [agentFailure]\<rparr>)"
      by simp
    have "up_msgs c' = up_msgs c \<and> n_signs c' = n_signs c \<and> n_lists c' = n_lists c \<and> yes_left c' \<le> yes_left c"
      using fr(3,5,6) ye(2) unfolding c' y0 by (simp add: yes_left_def)
    then show ?thesis unfolding forwards_def by (rule disjI1)
  next
    case False
    then have f: "forwardable msg" using fr(8) by (simp add: forwardable_def)
    from False assms r cl have c': "up_msgs c' = up_msgs c @ [msg] \<and> tty c' = tty c2 \<and>
        n_signs c' = n_signs c + (if hd msg = agentSignRequest then 1 else 0) \<and>
        n_lists c' = n_lists c + (if hd msg = agentRequestIdentities then 1 else 0)"
      using fr by (auto simp: agent_step_def Let_def split: sum.splits)
    moreover have "n_signs c' + yes_left c' \<le> n_signs c + yes_left c" if "confirm"
      using c' ye(1,2) that False y0 by (auto simp: yes_left_def)
    ultimately show ?thesis using r f unfolding forwards_def by blast
  qed
qed

lemma forwards_inv: "conn_inv c \<Longrightarrow> forwards confirm c c' \<Longrightarrow> conn_inv c'"
  unfolding forwards_def conn_inv_def using read_bounds
  by (elim disjE exE conjE) (auto simp: forwardable_def)

lemma forwards_yes:
  "forwards True c c' \<Longrightarrow> n_signs c + yes_left c \<le> k \<Longrightarrow> n_signs c' + yes_left c' \<le> k"
  unfolding forwards_def by auto

lemma loop_inv: "conn_inv c \<Longrightarrow> conn_inv (agent_loop confirm c)"
  by (rule loop_rule [where P = conn_inv]) (auto intro: forwards_inv agent_step_forwards)

lemma new_conn_inv: "conn_inv (new_conn j u as)"
  by (simp add: conn_inv_def new_conn_def)

text \<open>The proxy over its life: connections one after another, with the totals it reports.\<close>

definition agent_handle ::
  "bool \<Rightarrow> nat \<times> nat \<times> nat \<Rightarrow> byte list \<times> byte list \<times> byte list list \<Rightarrow> (nat \<times> nat \<times> nat) \<times> byte list list" where
  "agent_handle confirm st q = (case q of (j, u, as) \<Rightarrow>
     let c = agent_loop confirm (new_conn j u as) in
     ((fst st + n_signs c, fst (snd st) + n_lists c, snd (snd st) + n_refused c), up_msgs c))"

interpretation agent_filter: filtering_proxy "agent_handle confirm" "\<lambda>st. True" "\<lambda>st m. forwardable m"
proof unfold_locales
  fix st q m assume m: "m \<in> set (snd (agent_handle confirm st q))"
  obtain j u as where "q = (j, u, as)" by (cases q)
  with m have "m \<in> set (up_msgs (agent_loop confirm (new_conn j u as)))"
    by (simp add: agent_handle_def Let_def)
  then show "forwardable m"
    using loop_inv [OF new_conn_inv, of confirm j u as] by (auto simp: conn_inv_def list_all_iff)
qed simp

section \<open>Properties\<close>

text \<open>
  C11. Whatever bytes the jail writes, the host agent, reading the stream the proxy writes to it,
  finds exactly the messages the proxy decided to forward; each of them lists the keys or asks for
  a signature, and the counters reported at exit count them.
\<close>

theorem agent_stream_is_filtered:
  fixes confirm j u answers
  defines "c \<equiv> agent_loop confirm (new_conn j u answers)"
  shows "read_all (up_bytes c) = up_msgs c \<and>
    list_all (\<lambda>m. hd m = agentRequestIdentities \<or> hd m = agentSignRequest) (up_msgs c) \<and>
    n_signs c = length (filter (\<lambda>m. hd m = agentSignRequest) (up_msgs c)) \<and>
    n_lists c = length (filter (\<lambda>m. hd m = agentRequestIdentities) (up_msgs c))"
proof -
  have i: "conn_inv c" unfolding c_def by (rule loop_inv [OF new_conn_inv])
  then have "list_all (\<lambda>m. length m \<le> unat agentMaxMessage) (up_msgs c)"
    by (auto simp: conn_inv_def list_all_iff)
  from read_all_writes [OF this] i show ?thesis
    by (auto simp: up_bytes_def conn_inv_def list_all_iff forwardable_def)
qed

text \<open>
  Under \<open>--ssh-agent-confirm\<close> the number of signatures a connection obtains is at most the number
  of answers on the terminal that begin with a y; a read error, an empty answer and anything else
  grant none.
\<close>

lemma agent_confirm_bounds_signatures:
  "n_signs (agent_loop True (new_conn j u answers)) \<le> length (filter is_yes answers)"
proof -
  let ?k = "length (filter is_yes answers)"
  have "n_signs (agent_loop True (new_conn j u answers)) +
      yes_left (agent_loop True (new_conn j u answers)) \<le> ?k"
  proof (rule loop_rule [where P = "\<lambda>c. n_signs c + yes_left c \<le> ?k" and Q = "\<lambda>c. n_signs c + yes_left c \<le> ?k"])
    show "n_signs (new_conn j u answers) + yes_left (new_conn j u answers) \<le> ?k"
      by (simp add: new_conn_def yes_left_def)
  qed (auto intro: forwards_yes agent_step_forwards)
  then show ?thesis by simp
qed

lemma unconfirmed_step:
  assumes "readAgentMessage (jail_in c) = Inr (msg, rest)"
  shows "\<not> forwardable msg \<Longrightarrow>
      \<exists>c'. agent_step False c = Inr c' \<and> jail_in c' = rest \<and> up_in c' = up_in c \<and> up_msgs c' = up_msgs c"
    and "forwardable msg \<Longrightarrow> readAgentMessage (up_in c) = Inl e \<Longrightarrow>
      \<exists>c'. agent_step False c = Inl c' \<and> up_msgs c' = up_msgs c @ [msg]"
    and "forwardable msg \<Longrightarrow> readAgentMessage (up_in c) = Inr (reply, urest) \<Longrightarrow>
      \<exists>c'. agent_step False c = Inr c' \<and> jail_in c' = rest \<and> up_in c' = urest \<and> up_msgs c' = up_msgs c @ [msg]"
  using assms
  by (auto simp: agent_step_def Let_def classify_def forwardable_def)

lemma unconfirmed_loop:
  "\<exists>ms. up_msgs (agent_loop False c) = up_msgs c @ ms \<and>
     prefix ms (filter forwardable (read_all (jail_in c))) \<and>
     (length (filter forwardable (read_all (jail_in c))) \<le> length (read_all (up_in c)) \<longrightarrow>
       ms = filter forwardable (read_all (jail_in c)))"
proof (induction "length (jail_in c)" arbitrary: c rule: less_induct)
  case less
  let ?F = "\<lambda>r. filter forwardable (read_all r)"
  show ?case
  proof (cases "readAgentMessage (jail_in c)")
    case (Inl e)
    then have "agent_step False c = Inl c" by (simp add: agent_step_def)
    with Inl show ?thesis by (simp add: agent_loop.simps [of False c] read_all.simps [of "jail_in c"])
  next
    case (Inr mr)
    obtain msg rest where r: "readAgentMessage (jail_in c) = Inr (msg, rest)" using Inr by (cases mr) simp
    have ra: "read_all (jail_in c) = msg # read_all rest" using r by (simp add: read_all.simps [of "jail_in c"])
    show ?thesis
    proof (cases "forwardable msg")
      case False
      then obtain c' where c': "agent_step False c = Inr c'" "jail_in c' = rest" "up_in c' = up_in c"
        "up_msgs c' = up_msgs c" using unconfirmed_step(1) [OF r] by blast
      have "agent_loop False c = agent_loop False c'" using c'(1) by (simp add: agent_loop.simps [of False c])
      then show ?thesis using less.hyps [OF agent_step_shrinks [OF c'(1)]] c' ra False by simp
    next
      case True
      show ?thesis
      proof (cases "readAgentMessage (up_in c)")
        case (Inl e)
        then obtain c' where c': "agent_step False c = Inl c'" "up_msgs c' = up_msgs c @ [msg]"
          using unconfirmed_step(2) [OF r True] by blast
        moreover have "read_all (up_in c) = []" using Inl by (simp add: read_all.simps [of "up_in c"])
        ultimately show ?thesis using ra True by (intro exI [of _ "[msg]"]) (simp add: agent_loop.simps [of False c])
      next
        case (Inr rr)
        obtain reply urest where u: "readAgentMessage (up_in c) = Inr (reply, urest)" using Inr by (cases rr) simp
        then obtain c' where c': "agent_step False c = Inr c'" "jail_in c' = rest" "up_in c' = urest"
          "up_msgs c' = up_msgs c @ [msg]" using unconfirmed_step(3) [OF r True] by blast
        have l: "agent_loop False c = agent_loop False c'" using c'(1) by (simp add: agent_loop.simps [of False c])
        have "read_all (up_in c) = reply # read_all urest" using u by (simp add: read_all.simps [of "up_in c"])
        moreover obtain ms where "up_msgs (agent_loop False c') = up_msgs c' @ ms" "prefix ms (?F rest)"
          "length (?F rest) \<le> length (read_all urest) \<longrightarrow> ms = ?F rest"
          using less.hyps [OF agent_step_shrinks [OF c'(1)]] c' by auto
        ultimately show ?thesis using l c' ra True by (intro exI [of _ "msg # ms"]) simp
      qed
    qed
  qed
qed

text \<open>
  C12. Without confirmation the proxy is a pure filter: the messages it forwards are, in order and
  unaltered, the first of the forwardable messages the jail's stream frames, and all of them as
  long as the host agent answers each one.
\<close>

theorem agent_is_a_filter:
  "prefix (up_msgs (agent_loop False (new_conn j u answers))) (filter forwardable (read_all j)) \<and>
   (length (filter forwardable (read_all j)) \<le> length (read_all u) \<longrightarrow>
     up_msgs (agent_loop False (new_conn j u answers)) = filter forwardable (read_all j))"
  using unconfirmed_loop [of "new_conn j u answers"] by (auto simp: new_conn_def)

definition sample_stream :: "byte list" where
  "sample_stream = writeAgentMessage [17, 0] @ writeAgentMessage [11] @ writeAgentMessage [13, 0, 0]"

definition sample_replies :: "byte list" where
  "sample_replies = writeAgentMessage [12] @ writeAgentMessage [14]"

lemma sample_reads: "read_all sample_stream = [[17, 0], [11], [13, 0, 0]]" "read_all sample_replies = [[12], [14]]"
  using read_all_writes [of "[[17, 0], [11], [13, 0, 0]]"] read_all_writes [of "[[12], [14]]"]
  by (simp_all add: sample_stream_def sample_replies_def agentMaxMessage_def)

theorem agent_is_a_filter_witness:
  "up_msgs (agent_loop False (new_conn sample_stream sample_replies [])) = [[11], [13, 0, 0]]"
  using agent_is_a_filter [of sample_stream sample_replies "[]"]
  by (simp add: sample_reads forwardable_def agentRequestIdentities_def agentSignRequest_def)

end
