(* ===== verification/Agent_Concurrent.thy ===== *)
theory Agent_Concurrent
  imports Ssh_Agent
begin

text \<open>
  The ssh agent proxy under load (\<open>serve\<close> and \<open>handle\<close> of \<open>sshagentproxy.go\<close>): every accepted
  connection is a goroutine of its own, and they share the terminal and the counters.  A move is
  one atomic piece of the program: the accept loop takes a connection, the listener is closed, or
  one connection goes on from where it stands (it has read a message; it has put its question and
  waits for the terminal; it has decided to forward).  A run is any sequence of moves, so the
  theorems hold for every interleaving.

  A connection whose dial to the host agent fails is closed at once (\<open>None\<close> for the replies).
\<close>

datatype agent_pc = Reading | Asking "byte list" | Sending "byte list" | Finished

record aconn =
  ac_jail :: "byte list"
  ac_up :: "byte list"
  ac_pc :: agent_pc
  ac_out :: "byte list"
  ac_msgs :: "byte list list"

record aproxy =
  ap_conns :: "aconn list"
  ap_listening :: bool
  ap_tty :: "byte list list"
  ap_prompts :: "(nat \<times> string) list"
  ap_signs :: nat
  ap_lists :: nat
  ap_refused :: nat

datatype amove = Accept "byte list" "byte list option" | Turn nat | Stop

definition new_aconn :: "byte list \<Rightarrow> byte list option \<Rightarrow> aconn" where
  "new_aconn j u = \<lparr>ac_jail = j, ac_up = (case u of None \<Rightarrow> [] | Some bs \<Rightarrow> bs),
     ac_pc = (if u = None then Finished else Reading), ac_out = [], ac_msgs = []\<rparr>"

definition start_agent :: "byte list list \<Rightarrow> aproxy" where
  "start_agent answers = \<lparr>ap_conns = [], ap_listening = True, ap_tty = answers, ap_prompts = [],
     ap_signs = 0, ap_lists = 0, ap_refused = 0\<rparr>"

definition put_conn :: "nat \<Rightarrow> aconn \<Rightarrow> aproxy \<Rightarrow> aproxy" where
  "put_conn i c p = p\<lparr>ap_conns := (ap_conns p)[i := c]\<rparr>"

text \<open>The refusal, and the decision to forward with its counter.\<close>

definition turn_away :: "nat \<Rightarrow> aconn \<Rightarrow> aproxy \<Rightarrow> aproxy" where
  "turn_away i c p =
     put_conn i (c\<lparr>ac_pc := Reading, ac_out := ac_out c @ writeAgentMessage [agentFailure]\<rparr>)
       (p\<lparr>ap_refused := ap_refused p + 1\<rparr>)"

definition count_cleared :: "byte list \<Rightarrow> aproxy \<Rightarrow> aproxy" where
  "count_cleared msg p =
     (if hd msg = agentSignRequest then p\<lparr>ap_signs := ap_signs p + 1\<rparr>
      else if hd msg = agentRequestIdentities then p\<lparr>ap_lists := ap_lists p + 1\<rparr>
      else p)"

definition let_through :: "nat \<Rightarrow> byte list \<Rightarrow> aconn \<Rightarrow> aproxy \<Rightarrow> aproxy" where
  "let_through i msg c p = put_conn i (c\<lparr>ac_pc := Sending msg\<rparr>) (count_cleared msg p)"

text \<open>One message is read and classified; a question is only put here, its answer is another move.\<close>

definition tick_read :: "bool \<Rightarrow> nat \<Rightarrow> aconn \<Rightarrow> aproxy \<Rightarrow> aproxy" where
  "tick_read confirm i c p =
     (case readAgentMessage (ac_jail c) of
        Inl e \<Rightarrow> put_conn i (c\<lparr>ac_pc := Finished\<rparr>) p
      | Inr (msg, rest) \<Rightarrow>
          let c = c\<lparr>ac_jail := rest\<rparr> in
          if msg = [] then put_conn i c p
          else if hd msg = agentRequestIdentities then let_through i msg c p
          else if hd msg = agentSignRequest then
            if confirm then
              put_conn i (c\<lparr>ac_pc := Asking msg\<rparr>)
                (p\<lparr>ap_prompts := ap_prompts p @
                    [(i, fingerprintish (case agentString (tl msg) of Some b \<Rightarrow> b | None \<Rightarrow> []))]\<rparr>)
            else let_through i msg c p
          else turn_away i c p)"

text \<open>The answer is whatever the terminal gives to the next read, whoever put the question.\<close>

definition tick_ask :: "nat \<Rightarrow> byte list \<Rightarrow> aconn \<Rightarrow> aproxy \<Rightarrow> aproxy" where
  "tick_ask i msg c p =
     (case ap_tty p of
        [] \<Rightarrow> turn_away i c p
      | answer # later \<Rightarrow>
          (if is_yes answer then let_through i msg c else turn_away i c) (p\<lparr>ap_tty := later\<rparr>))"

definition tick_send :: "nat \<Rightarrow> byte list \<Rightarrow> aconn \<Rightarrow> aproxy \<Rightarrow> aproxy" where
  "tick_send i msg c p =
     (let c = c\<lparr>ac_msgs := ac_msgs c @ [msg]\<rparr> in
      case readAgentMessage (ac_up c) of
        Inl e \<Rightarrow> put_conn i (c\<lparr>ac_pc := Finished\<rparr>) p
      | Inr (reply, urest) \<Rightarrow>
          put_conn i (c\<lparr>ac_up := urest, ac_out := ac_out c @ writeAgentMessage reply, ac_pc := Reading\<rparr>) p)"

definition agent_turn :: "bool \<Rightarrow> nat \<Rightarrow> aproxy \<Rightarrow> aproxy" where
  "agent_turn confirm i p =
     (if length (ap_conns p) \<le> i then p
      else let c = ap_conns p ! i in
        case ac_pc c of
          Reading \<Rightarrow> tick_read confirm i c p
        | Asking msg \<Rightarrow> tick_ask i msg c p
        | Sending msg \<Rightarrow> tick_send i msg c p
        | Finished \<Rightarrow> p)"

text \<open>\<open>serve\<close>: connections are taken as long as the listener is open; \<open>close\<close> ends that only.\<close>

definition agent_move :: "bool \<Rightarrow> amove \<Rightarrow> aproxy \<Rightarrow> aproxy" where
  "agent_move confirm mv p =
     (case mv of
        Accept j u \<Rightarrow> if ap_listening p then p\<lparr>ap_conns := ap_conns p @ [new_aconn j u]\<rparr> else p
      | Turn i \<Rightarrow> agent_turn confirm i p
      | Stop \<Rightarrow> p\<lparr>ap_listening := False\<rparr>)"

definition agent_run :: "bool \<Rightarrow> amove list \<Rightarrow> aproxy \<Rightarrow> aproxy" where
  "agent_run confirm mvs p = fold (agent_move confirm) mvs p"

section \<open>Consent under every interleaving\<close>

definition is_sign :: "byte list \<Rightarrow> bool" where
  "is_sign m \<longleftrightarrow> hd m = agentSignRequest"

text \<open>The signatures a connection asked the host agent for.\<close>

definition conn_signs :: "aconn \<Rightarrow> nat" where
  "conn_signs c = length (filter is_sign (ac_msgs c))"

text \<open>With the one that is already decided but not yet sent.\<close>

definition conn_cleared :: "aconn \<Rightarrow> nat" where
  "conn_cleared c = conn_signs c + (case ac_pc c of Sending m \<Rightarrow> if is_sign m then 1 else 0 | _ \<Rightarrow> 0)"

definition conn_ok :: "aconn \<Rightarrow> bool" where
  "conn_ok c \<longleftrightarrow> list_all forwardable (ac_msgs c) \<and>
     (case ac_pc c of Asking m \<Rightarrow> forwardable m | Sending m \<Rightarrow> forwardable m | _ \<Rightarrow> True)"

definition agent_inv :: "aproxy \<Rightarrow> bool" where
  "agent_inv p \<longleftrightarrow> list_all conn_ok (ap_conns p) \<and> sum_list (map conn_cleared (ap_conns p)) = ap_signs p"

definition consent_left :: "aproxy \<Rightarrow> nat" where
  "consent_left p = ap_signs p + length (filter is_yes (ap_tty p))"

lemma count_cleared_simps [simp]:
  "ap_conns (count_cleared m p) = ap_conns p" "ap_tty (count_cleared m p) = ap_tty p"
  "ap_signs (count_cleared m p) = ap_signs p + (if is_sign m then 1 else 0)"
  by (simp_all add: count_cleared_def is_sign_def)

lemma put_conn_simps [simp]:
  "ap_conns (put_conn i c p) = (ap_conns p)[i := c]" "ap_tty (put_conn i c p) = ap_tty p"
  "ap_signs (put_conn i c p) = ap_signs p"
  by (simp_all add: put_conn_def)

text \<open>
  What a turn of connection \<open>i\<close> does to the shared state: the connection is replaced, the counter
  moves with what the connection has cleared, and under confirmation no consent is gained.
\<close>

definition turn_effect :: "bool \<Rightarrow> nat \<Rightarrow> aproxy \<Rightarrow> aproxy \<Rightarrow> bool" where
  "turn_effect confirm i p p' \<longleftrightarrow> (\<exists>c'. ap_conns p' = (ap_conns p)[i := c'] \<and>
     (conn_ok (ap_conns p ! i) \<longrightarrow> conn_ok c') \<and>
     ap_signs p' + conn_cleared (ap_conns p ! i) = ap_signs p + conn_cleared c' \<and>
     (confirm \<longrightarrow> consent_left p' \<le> consent_left p))"

lemmas conn_defs = conn_ok_def conn_cleared_def conn_signs_def consent_left_def forwardable_def is_sign_def

lemma turn_effectI:
  assumes "ap_conns p' = (ap_conns p)[i := c']" and "conn_ok (ap_conns p ! i) \<Longrightarrow> conn_ok c'"
    and "ap_signs p' + conn_cleared (ap_conns p ! i) = ap_signs p + conn_cleared c'"
    and "confirm \<Longrightarrow> consent_left p' \<le> consent_left p"
  shows "turn_effect confirm i p p'"
  unfolding turn_effect_def using assms by blast

lemma turn_away_effect:
  assumes "ap_conns p ! i = c0" and "ac_msgs c = ac_msgs c0" and "\<And>m. ac_pc c0 \<noteq> Sending m"
    and "ap_conns q = ap_conns p" and "ap_signs q = ap_signs p" and "consent_left q \<le> consent_left p"
  shows "turn_effect confirm i p (turn_away i c q)"
  using assms
  by (intro turn_effectI [of _ _ _ "c\<lparr>ac_pc := Reading, ac_out := ac_out c @ writeAgentMessage [agentFailure]\<rparr>"])
    (auto simp: turn_away_def conn_defs split: agent_pc.splits)

lemma let_through_effect:
  assumes "ap_conns p ! i = c0" and "ac_msgs c = ac_msgs c0" and "\<And>m. ac_pc c0 \<noteq> Sending m" and "forwardable msg"
    and "ap_conns q = ap_conns p" and "ap_signs q = ap_signs p"
    and "confirm \<Longrightarrow> consent_left q + (if is_sign msg then 1 else 0) \<le> consent_left p"
  shows "turn_effect confirm i p (let_through i msg c q)"
  using assms
  by (intro turn_effectI [of _ _ _ "c\<lparr>ac_pc := Sending msg\<rparr>"])
    (auto simp: let_through_def conn_defs split: agent_pc.splits if_splits)

lemma tick_read_effect:
  assumes "ap_conns p ! i = c" and "ac_pc c = Reading"
  shows "turn_effect confirm i p (tick_read confirm i c p)"
proof (cases "readAgentMessage (ac_jail c)")
  case (Inl e)
  then show ?thesis using assms
    by (intro turn_effectI [of _ _ _ "c\<lparr>ac_pc := Finished\<rparr>"]) (auto simp: tick_read_def conn_defs)
next
  case (Inr mr)
  obtain msg rest where r: "readAgentMessage (ac_jail c) = Inr (msg, rest)" using Inr by (cases mr) simp
  let ?c = "c\<lparr>ac_jail := rest\<rparr>"
  have ids: "agentRequestIdentities \<noteq> agentSignRequest" by (simp add: agentRequestIdentities_def agentSignRequest_def)
  consider "msg = []" | "msg \<noteq> []" "hd msg = agentRequestIdentities"
    | "msg \<noteq> []" "hd msg = agentSignRequest" "\<not> confirm" | "msg \<noteq> []" "hd msg = agentSignRequest" "confirm"
    | "msg \<noteq> []" "\<not> forwardable msg"
    by (auto simp: forwardable_def)
  then show ?thesis
  proof cases
    case 1
    then show ?thesis using assms r
      by (intro turn_effectI [of _ _ _ ?c]) (auto simp: tick_read_def conn_defs)
  next
    case 2
    then have "tick_read confirm i c p = let_through i msg ?c p" using r by (simp add: tick_read_def Let_def)
    then show ?thesis using 2 assms ids let_through_effect [of p i c ?c msg p confirm]
      by (simp add: forwardable_def is_sign_def)
  next
    case 3
    then have "tick_read confirm i c p = let_through i msg ?c p" using r by (simp add: tick_read_def Let_def)
    then show ?thesis using 3 assms let_through_effect [of p i c ?c msg p confirm] by (simp add: forwardable_def)
  next
    case 4
    then show ?thesis using assms r ids
      by (intro turn_effectI [of _ _ _ "?c\<lparr>ac_pc := Asking msg\<rparr>"]) (auto simp: tick_read_def conn_defs)
  next
    case 5
    then have "tick_read confirm i c p = turn_away i ?c p" using r by (simp add: tick_read_def Let_def forwardable_def)
    then show ?thesis using assms turn_away_effect [of p i c ?c p confirm] by simp
  qed
qed

lemma tick_ask_effect:
  assumes "ap_conns p ! i = c" and "ac_pc c = Asking msg" and "forwardable msg"
  shows "turn_effect confirm i p (tick_ask i msg c p)"
proof (cases "ap_tty p")
  case Nil
  then show ?thesis using assms turn_away_effect [of p i c c p confirm] by (simp add: tick_ask_def)
next
  case (Cons answer later)
  let ?q = "p\<lparr>ap_tty := later\<rparr>"
  have q: "ap_conns ?q = ap_conns p" "ap_signs ?q = ap_signs p"
    "consent_left ?q + (if is_yes answer then 1 else 0) = consent_left p"
    using Cons by (simp_all add: consent_left_def)
  show ?thesis
    using assms Cons q turn_away_effect [of p i c c ?q confirm] let_through_effect [of p i c c msg ?q confirm]
    by (cases "is_yes answer") (simp_all add: tick_ask_def)
qed

lemma tick_send_effect:
  assumes "ap_conns p ! i = c" and "ac_pc c = Sending msg"
  shows "turn_effect confirm i p (tick_send i msg c p)"
proof (cases "readAgentMessage (ac_up c)")
  case (Inl e)
  then show ?thesis using assms
    by (intro turn_effectI [of _ _ _ "c\<lparr>ac_msgs := ac_msgs c @ [msg], ac_pc := Finished\<rparr>"])
      (auto simp: tick_send_def conn_defs)
next
  case (Inr rr)
  obtain reply urest where "readAgentMessage (ac_up c) = Inr (reply, urest)" using Inr by (cases rr) simp
  then show ?thesis using assms
    by (intro turn_effectI [of _ _ _ "c\<lparr>ac_msgs := ac_msgs c @ [msg], ac_up := urest,
        ac_out := ac_out c @ writeAgentMessage reply, ac_pc := Reading\<rparr>"])
      (auto simp: tick_send_def conn_defs)
qed

lemma agent_turn_effect:
  assumes "agent_inv p" and "i < length (ap_conns p)" and "ac_pc (ap_conns p ! i) \<noteq> Finished"
  shows "turn_effect confirm i p (agent_turn confirm i p)"
proof -
  let ?c = "ap_conns p ! i"
  have ok: "conn_ok ?c" using assms(1,2) by (simp add: agent_inv_def list_all_length)
  show ?thesis
    using assms(2,3) ok tick_read_effect [of p i ?c confirm] tick_ask_effect [of p i ?c _ confirm]
      tick_send_effect [of p i ?c _ confirm]
    by (cases "ac_pc ?c") (simp_all add: agent_turn_def Let_def conn_ok_def)
qed

lemma agent_turn_inv:
  assumes "agent_inv p"
  shows "agent_inv (agent_turn confirm i p) \<and> (confirm \<longrightarrow> consent_left (agent_turn confirm i p) \<le> consent_left p)"
proof (cases "length (ap_conns p) \<le> i \<or> ac_pc (ap_conns p ! i) = Finished")
  case True
  then show ?thesis using assms by (auto simp: agent_turn_def Let_def)
next
  case False
  then have i: "i < length (ap_conns p)" and "ac_pc (ap_conns p ! i) \<noteq> Finished" by auto
  from agent_turn_effect [OF assms this] obtain c' where c': "ap_conns (agent_turn confirm i p) = (ap_conns p)[i := c']"
    "conn_ok (ap_conns p ! i) \<longrightarrow> conn_ok c'"
    "ap_signs (agent_turn confirm i p) + conn_cleared (ap_conns p ! i) = ap_signs p + conn_cleared c'"
    "confirm \<longrightarrow> consent_left (agent_turn confirm i p) \<le> consent_left p"
    unfolding turn_effect_def by blast
  have le: "conn_cleared (ap_conns p ! i) \<le> sum_list (map conn_cleared (ap_conns p))"
    using i by (auto intro: member_le_sum_list)
  have "sum_list (map conn_cleared (ap_conns (agent_turn confirm i p))) = ap_signs (agent_turn confirm i p)"
    using assms c'(1,3) i le by (simp add: agent_inv_def map_update sum_list_update)
  moreover have "list_all conn_ok (ap_conns (agent_turn confirm i p))"
    using assms c'(1,2) i by (auto simp: agent_inv_def list_all_length nth_list_update)
  ultimately show ?thesis using c'(4) by (simp add: agent_inv_def)
qed

lemma agent_move_inv:
  assumes "agent_inv p"
  shows "agent_inv (agent_move confirm mv p) \<and> (confirm \<longrightarrow> consent_left (agent_move confirm mv p) \<le> consent_left p)"
proof (cases mv)
  case (Accept j u)
  then show ?thesis using assms
    by (auto simp: agent_move_def agent_inv_def new_aconn_def conn_defs)
next
  case (Turn i)
  then show ?thesis using agent_turn_inv [OF assms] by (simp add: agent_move_def)
next
  case Stop
  then show ?thesis using assms by (simp add: agent_move_def agent_inv_def consent_left_def)
qed

lemma agent_run_Cons [simp]: "agent_run confirm (mv # mvs) p = agent_run confirm mvs (agent_move confirm mv p)"
  by (simp add: agent_run_def)

lemma agent_run_Nil [simp]: "agent_run confirm [] p = p"
  by (simp add: agent_run_def)

lemma agent_run_inv:
  "agent_inv p \<Longrightarrow> agent_inv (agent_run confirm mvs p) \<and>
     (confirm \<longrightarrow> consent_left (agent_run confirm mvs p) \<le> consent_left p)"
proof (induction mvs arbitrary: p)
  case (Cons mv mvs)
  then show ?case using agent_move_inv [OF Cons.prems, of confirm mv] le_trans by fastforce
qed simp

lemma start_agent_inv: "agent_inv (start_agent answers)"
  by (simp add: agent_inv_def start_agent_def)

section \<open>Connections without confirmation do not meet\<close>

text \<open>What the sequential loop of one connection would still do from where it stands.\<close>

definition conn_of :: "aconn \<Rightarrow> conn" where
  "conn_of c = (new_conn (ac_jail c) (ac_up c) [])\<lparr>jail_out := ac_out c, up_msgs := ac_msgs c\<rparr>"

definition outcome :: "conn \<Rightarrow> byte list list \<times> byte list" where
  "outcome d = (up_msgs d, jail_out d)"

definition to_come :: "aconn \<Rightarrow> byte list list \<times> byte list" where
  "to_come c = (case ac_pc c of
      Reading \<Rightarrow> outcome (agent_loop False (conn_of c))
    | Sending msg \<Rightarrow>
        (case readAgentMessage (ac_up c) of
           Inl e \<Rightarrow> (ac_msgs c @ [msg], ac_out c)
         | Inr (reply, urest) \<Rightarrow>
             outcome (agent_loop False (conn_of (c\<lparr>ac_msgs := ac_msgs c @ [msg], ac_up := urest,
               ac_out := ac_out c @ writeAgentMessage reply\<rparr>))))
    | _ \<Rightarrow> (ac_msgs c, ac_out c))"

text \<open>The loop's result depends on the two streams and what has been written, not on the counters.\<close>

definition same_streams :: "conn \<Rightarrow> conn \<Rightarrow> bool" where
  "same_streams d d' \<longleftrightarrow> jail_in d = jail_in d' \<and> up_in d = up_in d' \<and> jail_out d = jail_out d' \<and> up_msgs d = up_msgs d'"

lemma same_streams_step:
  assumes "same_streams d d'"
  shows "(\<forall>e. agent_step False d = Inl e \<longrightarrow> (\<exists>e'. agent_step False d' = Inl e' \<and> same_streams e e')) \<and>
    (\<forall>e. agent_step False d = Inr e \<longrightarrow> (\<exists>e'. agent_step False d' = Inr e' \<and> same_streams e e'))"
  using assms
  by (auto simp: same_streams_def agent_step_def Let_def classify_def split: sum.splits)

lemma same_streams_loop: "same_streams d d' \<Longrightarrow> outcome (agent_loop False d) = outcome (agent_loop False d')"
proof (induction "length (jail_in d)" arbitrary: d d' rule: less_induct)
  case less
  show ?case
  proof (cases "agent_step False d")
    case (Inl e)
    then obtain e' where "agent_step False d' = Inl e'" "same_streams e e'"
      using same_streams_step [OF less.prems] by blast
    then show ?thesis using Inl
      by (simp add: agent_loop.simps [of False d] agent_loop.simps [of False d'] same_streams_def outcome_def)
  next
    case (Inr e)
    then obtain e' where e': "agent_step False d' = Inr e'" "same_streams e e'"
      using same_streams_step [OF less.prems] by blast
    then show ?thesis using Inr less.hyps [OF agent_step_shrinks [OF Inr] e'(2)]
      by (simp add: agent_loop.simps [of False d] agent_loop.simps [of False d'])
  qed
qed

lemma same_streams_conn_of:
  assumes "jail_in d = ac_jail c" and "up_in d = ac_up c" and "jail_out d = ac_out c" and "up_msgs d = ac_msgs c"
  shows "outcome (agent_loop False d) = outcome (agent_loop False (conn_of c))"
  using assms by (intro same_streams_loop) (simp add: same_streams_def conn_of_def new_conn_def)

lemma conn_of_simps [simp]:
  "jail_in (conn_of c) = ac_jail c" "up_in (conn_of c) = ac_up c" "jail_out (conn_of c) = ac_out c"
  "up_msgs (conn_of c) = ac_msgs c"
  by (simp_all add: conn_of_def new_conn_def)

lemma conn_of_pc [simp]: "conn_of (c\<lparr>ac_pc := x\<rparr>) = conn_of c"
  by (simp add: conn_of_def)

lemma refused_step:
  assumes "readAgentMessage (jail_in d) = Inr (msg, rest)" and "\<not> forwardable msg"
  shows "\<exists>d'. agent_step False d = Inr d' \<and> jail_in d' = rest \<and> up_in d' = up_in d \<and> up_msgs d' = up_msgs d \<and>
    jail_out d' = (if msg = [] then jail_out d else jail_out d @ writeAgentMessage [agentFailure])"
  using assms by (cases "msg = []") (simp_all add: agent_step_def Let_def classify_def forwardable_def)

definition unasked :: "aconn \<Rightarrow> bool" where
  "unasked c \<longleftrightarrow> (\<forall>m. ac_pc c \<noteq> Asking m)"

text \<open>Twice the bytes left bounds nothing tighter than this: a message takes at least four.\<close>

definition turns_left :: "aconn \<Rightarrow> nat" where
  "turns_left c = (case ac_pc c of
      Reading \<Rightarrow> Suc (length (ac_jail c)) | Sending m \<Rightarrow> length (ac_jail c) + 2
    | Asking m \<Rightarrow> length (ac_jail c) + 3 | Finished \<Rightarrow> 0)"

lemma readAgentMessage_takes4:
  "readAgentMessage r = Inr (msg, rest) \<Longrightarrow> length rest + 4 \<le> length r"
  by (auto simp: readAgentMessage_def Let_def split: if_splits)

text \<open>A turn of a connection goes on exactly as the sequential loop would, and takes it closer to its end.\<close>

lemma read_turn_simulates:
  assumes "ac_pc c = Reading" and "i < length (ap_conns p)" and "ap_conns p ! i = c"
  shows "to_come (ap_conns (tick_read False i c p) ! i) = to_come c \<and>
    unasked (ap_conns (tick_read False i c p) ! i) \<and>
    turns_left (ap_conns (tick_read False i c p) ! i) < turns_left c"
proof (cases "readAgentMessage (ac_jail c)")
  case (Inl e)
  then show ?thesis using assms
    by (simp add: tick_read_def to_come_def unasked_def turns_left_def outcome_def agent_loop.simps [of False "conn_of c"]
        agent_step_def)
next
  case (Inr mr)
  obtain msg rest where r: "readAgentMessage (ac_jail c) = Inr (msg, rest)" using Inr by (cases mr) simp
  note short = readAgentMessage_takes4 [OF r]
  let ?c = "c\<lparr>ac_jail := rest\<rparr>"
  have now: "to_come c = outcome (agent_loop False (conn_of c))" using assms(1) by (simp add: to_come_def)
  show ?thesis
  proof (cases "forwardable msg")
    case False
    define c' where "c' = (if msg = [] then ?c else
      ?c\<lparr>ac_pc := Reading, ac_out := ac_out c @ writeAgentMessage [agentFailure]\<rparr>)"
    have t: "ap_conns (tick_read False i c p) ! i = c'"
      using False r assms by (auto simp: tick_read_def Let_def turn_away_def c'_def forwardable_def)
    obtain d where d: "agent_step False (conn_of c) = Inr d" "jail_in d = rest" "up_in d = ac_up c"
      "up_msgs d = ac_msgs c" "jail_out d = ac_out c'"
      using refused_step [of "conn_of c" msg rest] False r by (auto simp: c'_def)
    have "outcome (agent_loop False d) = outcome (agent_loop False (conn_of c'))"
      using d by (intro same_streams_conn_of) (simp_all add: c'_def)
    then have "to_come c' = to_come c"
      using now d(1) assms(1) by (simp add: agent_loop.simps [of False "conn_of c"] to_come_def c'_def)
    then show ?thesis unfolding t using short assms(1) by (auto simp: c'_def unasked_def turns_left_def)
  next
    case True
    let ?s = "?c\<lparr>ac_pc := Sending msg\<rparr>"
    have t: "ap_conns (tick_read False i c p) ! i = ?s"
      using True r assms by (auto simp: tick_read_def Let_def let_through_def forwardable_def)
    have "to_come ?s = to_come c"
    proof (cases "readAgentMessage (ac_up c)")
      case (Inl e)
      then show ?thesis using True r now
        by (auto simp: to_come_def outcome_def agent_loop.simps [of False "conn_of c"] agent_step_def Let_def
            classify_def forwardable_def)
    next
      case (Inr rr)
      obtain reply urest where u: "readAgentMessage (ac_up c) = Inr (reply, urest)" using Inr by (cases rr) simp
      obtain d where d: "agent_step False (conn_of c) = Inr d" "jail_in d = rest" "up_in d = urest"
        "up_msgs d = ac_msgs c @ [msg]" "jail_out d = ac_out c @ writeAgentMessage reply"
        using True r u by (auto simp: agent_step_def Let_def classify_def forwardable_def)
      have "outcome (agent_loop False d) = outcome (agent_loop False (conn_of (?s\<lparr>ac_msgs := ac_msgs c @ [msg],
          ac_up := urest, ac_out := ac_out c @ writeAgentMessage reply\<rparr>)))"
        using d by (intro same_streams_conn_of) simp_all
      then show ?thesis using now d(1) u by (simp add: agent_loop.simps [of False "conn_of c"] to_come_def)
    qed
    then show ?thesis unfolding t using short assms(1) by (auto simp: unasked_def turns_left_def)
  qed
qed

lemma send_turn_simulates:
  assumes "ac_pc c = Sending msg" and "i < length (ap_conns p)"
  shows "to_come (ap_conns (tick_send i msg c p) ! i) = to_come c \<and>
    unasked (ap_conns (tick_send i msg c p) ! i) \<and>
    turns_left (ap_conns (tick_send i msg c p) ! i) < turns_left c"
proof (cases "readAgentMessage (ac_up c)")
  case (Inl e)
  then show ?thesis using assms by (simp add: tick_send_def Let_def to_come_def unasked_def turns_left_def)
next
  case (Inr rr)
  obtain reply urest where u: "readAgentMessage (ac_up c) = Inr (reply, urest)" using Inr by (cases rr) simp
  let ?r = "c\<lparr>ac_msgs := ac_msgs c @ [msg], ac_up := urest, ac_out := ac_out c @ writeAgentMessage reply, ac_pc := Reading\<rparr>"
  have t: "ap_conns (tick_send i msg c p) ! i = ?r" using u assms by (simp add: tick_send_def Let_def)
  show ?thesis unfolding t using u assms(1) by (simp add: to_come_def unasked_def turns_left_def)
qed

definition replaces :: "nat \<Rightarrow> aproxy \<Rightarrow> aproxy \<Rightarrow> bool" where
  "replaces i p p' \<longleftrightarrow> (\<exists>c'. ap_conns p' = (ap_conns p)[i := c'])"

lemma replaces_put: "ap_conns q = ap_conns p \<Longrightarrow> replaces i p (put_conn i c q)"
  unfolding replaces_def by auto

lemma turn_replaces_one: "replaces i p (agent_turn confirm i p)"
proof (cases "length (ap_conns p) \<le> i \<or> ac_pc (ap_conns p ! i) = Finished")
  case True
  then have "agent_turn confirm i p = p" by (auto simp: agent_turn_def Let_def)
  then show ?thesis unfolding replaces_def by (intro exI [of _ "ap_conns p ! i"]) simp
next
  case False
  then show ?thesis
    by (auto simp: agent_turn_def tick_read_def tick_ask_def tick_send_def turn_away_def let_through_def Let_def
        intro: replaces_put split: agent_pc.splits sum.splits list.splits)
qed

lemma other_connections_stand:
  assumes "i < length (ap_conns p)" and "mv \<noteq> Turn i"
  shows "ap_conns (agent_move confirm mv p) ! i = ap_conns p ! i \<and> i < length (ap_conns (agent_move confirm mv p))"
proof (cases mv)
  case (Turn k)
  obtain c' where "ap_conns (agent_turn confirm k p) = (ap_conns p)[k := c']"
    using turn_replaces_one unfolding replaces_def by blast
  then show ?thesis using assms Turn by (simp add: agent_move_def)
qed (use assms in \<open>auto simp: agent_move_def nth_append\<close>)

lemma own_turn_simulates:
  assumes "i < length (ap_conns p)" and "unasked (ap_conns p ! i)"
  shows "to_come (ap_conns (agent_move False (Turn i) p) ! i) = to_come (ap_conns p ! i) \<and>
    unasked (ap_conns (agent_move False (Turn i) p) ! i) \<and>
    turns_left (ap_conns (agent_move False (Turn i) p) ! i) \<le> turns_left (ap_conns p ! i) - 1"
proof (cases "ac_pc (ap_conns p ! i)")
  case Reading
  then show ?thesis using assms(1) read_turn_simulates [OF Reading assms(1) refl]
    by (auto simp: agent_move_def agent_turn_def Let_def)
next
  case (Asking m)
  then show ?thesis using assms(2) by (simp add: unasked_def)
next
  case (Sending m)
  then show ?thesis using assms(1) send_turn_simulates [OF Sending assms(1)]
    by (auto simp: agent_move_def agent_turn_def Let_def)
next
  case Finished
  then show ?thesis using assms by (simp add: agent_move_def agent_turn_def turns_left_def Let_def)
qed

lemma run_simulates:
  assumes "i < length (ap_conns p)" and "unasked (ap_conns p ! i)"
  shows "to_come (ap_conns (agent_run False mvs p) ! i) = to_come (ap_conns p ! i) \<and>
    unasked (ap_conns (agent_run False mvs p) ! i) \<and>
    turns_left (ap_conns (agent_run False mvs p) ! i) \<le> turns_left (ap_conns p ! i) - count_list mvs (Turn i)"
  using assms
proof (induction mvs arbitrary: p)
  case (Cons mv mvs)
  let ?p = "agent_move False mv p"
  have len: "i < length (ap_conns ?p)"
  proof (cases "mv = Turn i")
    case True
    obtain c' where "ap_conns (agent_turn False i p) = (ap_conns p)[i := c']"
      using turn_replaces_one unfolding replaces_def by blast
    then show ?thesis using Cons.prems(1) True by (simp add: agent_move_def)
  qed (use other_connections_stand [OF Cons.prems(1)] in blast)
  show ?case
  proof (cases "mv = Turn i")
    case True
    have s: "to_come (ap_conns ?p ! i) = to_come (ap_conns p ! i)" "unasked (ap_conns ?p ! i)"
      "turns_left (ap_conns ?p ! i) \<le> turns_left (ap_conns p ! i) - 1"
      using own_turn_simulates [OF Cons.prems] True by simp_all
    then have "turns_left (ap_conns ?p ! i) - k \<le> turns_left (ap_conns p ! i) - Suc k" for k
      by linarith
    then show ?thesis using Cons.IH [OF len s(2)] s(1) True le_trans by fastforce
  next
    case False
    then have "ap_conns ?p ! i = ap_conns p ! i" using other_connections_stand [OF Cons.prems(1)] by blast
    then show ?thesis using Cons.IH [OF len] Cons.prems(2) False by simp
  qed
qed simp

section \<open>What the questions do not settle\<close>

text \<open>
  A read takes at most eight bytes of the line that was typed, the rest waits for the next read.
  So a refusal that goes on for longer may answer the next question too.
\<close>

fun line_reads :: "byte list \<Rightarrow> byte list list" where
  "line_reads l = (if length l \<le> 8 then [l] else take 8 l # line_reads (drop 8 l))"

declare line_reads.simps [simp del]

lemma one_line_answers_twice:
  "map is_yes (line_reads (map of_char ''not now yet'')) = [False, True]"
  by (simp add: line_reads.simps is_yes_def of_char_def)

text \<open>
  Two connections have put their questions, the first connection first.  Which of them the first
  answer goes to is up to the scheduler: nothing ties a read to the question before it.
\<close>

definition two_questions :: "amove list" where
  "two_questions = [Accept (writeAgentMessage [13, 0]) (Some []), Accept (writeAgentMessage [13, 1]) (Some []),
     Turn 0, Turn 1]"

definition yes_then_no :: "byte list list" where
  "yes_then_no = [[0x79], [0x6E]]"

lemma two_questions_put:
  "agent_run True two_questions (start_agent yes_then_no) =
     (start_agent yes_then_no)\<lparr>ap_conns := [
        (new_aconn [] (Some []))\<lparr>ac_pc := Asking [13, 0]\<rparr>, (new_aconn [] (Some []))\<lparr>ac_pc := Asking [13, 1]\<rparr>],
      ap_prompts := [(0, ''unknown key''), (1, ''unknown key'')]\<rparr>"
  using read_write [of "[13, 0]" "[]"] read_write [of "[13, 1]" "[]"]
  by (simp add: two_questions_def start_agent_def agent_move_def agent_turn_def tick_read_def Let_def new_aconn_def
      put_conn_def agentMaxMessage_def agentRequestIdentities_def agentSignRequest_def agentString_def fingerprintish_def)

lemma answers_can_cross:
  "map conn_signs (ap_conns (agent_run True (two_questions @ [Turn 0, Turn 1, Turn 0]) (start_agent yes_then_no))) = [1, 0] \<and>
   map conn_signs (ap_conns (agent_run True (two_questions @ [Turn 1, Turn 0, Turn 1]) (start_agent yes_then_no))) = [0, 1]"
proof -
  have a: "agent_run c (xs @ ys) p = agent_run c ys (agent_run c xs p)" for c xs ys p
    by (simp add: agent_run_def)
  show ?thesis unfolding a two_questions_put
    by (simp add: start_agent_def agent_move_def agent_turn_def tick_ask_def tick_send_def Let_def new_aconn_def
        put_conn_def let_through_def turn_away_def count_cleared_def yes_then_no_def is_yes_def is_sign_def conn_signs_def
        readAgentMessage_def agentRequestIdentities_def agentSignRequest_def)
qed

section \<open>Properties\<close>

text \<open>
  C13. Consent holds under load: with \<open>--ssh-agent-confirm\<close>, over any interleaving of any number of
  connections, the host agent is asked for at most as many signatures in all as reads of the
  terminal gave an answer that begins with a y, and every message that reached it lists the keys
  or asks for a signature.  The total reported at exit counts the signatures decided.
\<close>

theorem concurrent_signatures_need_consent:
  fixes answers mvs
  defines "p \<equiv> agent_run True mvs (start_agent answers)"
  shows "sum_list (map conn_signs (ap_conns p)) \<le> ap_signs p \<and>
    ap_signs p \<le> length (filter is_yes answers) \<and>
    list_all (\<lambda>c. list_all forwardable (ac_msgs c)) (ap_conns p)"
proof -
  have inv: "agent_inv p" and left: "consent_left p \<le> consent_left (start_agent answers)"
    using agent_run_inv [OF start_agent_inv [of answers], of True mvs] by (simp_all add: p_def)
  have "sum_list (map conn_signs (ap_conns p)) \<le> sum_list (map conn_cleared (ap_conns p))"
    by (intro sum_list_mono) (simp add: conn_cleared_def)
  moreover have "list_all (\<lambda>c. list_all forwardable (ac_msgs c)) (ap_conns p)"
    using inv by (auto simp: agent_inv_def conn_ok_def list_all_iff)
  ultimately show ?thesis using inv left by (simp add: agent_inv_def consent_left_def start_agent_def)
qed

text \<open>
  C14. Without confirmation connections do not disturb each other: whatever else the proxy serves
  in between, a connection that has just been taken and gets a turn more often than it has bytes
  to say ends, and it has then sent the host agent, and been answered, exactly what the loop of
  that one connection alone yields.
\<close>

theorem concurrent_connections_are_independent:
  assumes "i < length (ap_conns p)" and "ap_conns p ! i = new_aconn j (Some u)"
    and "length j < count_list mvs (Turn i)"
  shows "ac_pc (ap_conns (agent_run False mvs p) ! i) = Finished \<and>
    ac_msgs (ap_conns (agent_run False mvs p) ! i) = up_msgs (agent_loop False (new_conn j u answers)) \<and>
    ac_out (ap_conns (agent_run False mvs p) ! i) = jail_out (agent_loop False (new_conn j u answers))"
proof -
  let ?c = "ap_conns (agent_run False mvs p) ! i"
  have start: "unasked (ap_conns p ! i)" "turns_left (ap_conns p ! i) = Suc (length j)"
    "to_come (ap_conns p ! i) = outcome (agent_loop False (conn_of (new_aconn j (Some u))))"
    by (simp_all add: assms(2) new_aconn_def unasked_def turns_left_def to_come_def)
  have fin: "ac_pc ?c = Finished"
    using run_simulates [OF assms(1) start(1), of mvs] start(2) assms(3)
    by (auto simp: turns_left_def split: agent_pc.splits)
  have "outcome (agent_loop False (new_conn j u answers)) = to_come ?c"
    using run_simulates [OF assms(1) start(1), of mvs] start(3) same_streams_conn_of [of "new_conn j u answers" "new_aconn j (Some u)"]
    by (simp add: new_conn_def new_aconn_def)
  then show ?thesis using fin by (simp add: to_come_def outcome_def)
qed

definition busy_agent :: aproxy where
  "busy_agent = agent_run False [Accept [] None, Accept sample_stream (Some sample_replies)] (start_agent [])"

theorem concurrent_connections_are_independent_witness:
  "ac_msgs (ap_conns (agent_run False (Accept [] (Some []) # Turn 0 # replicate 40 (Turn 1)) busy_agent) ! 1) =
     up_msgs (agent_loop False (new_conn sample_stream sample_replies []))"
proof -
  have "ap_conns busy_agent = [new_aconn [] None, new_aconn sample_stream (Some sample_replies)]"
    by (simp add: busy_agent_def start_agent_def agent_move_def)
  moreover have "length sample_stream = 18" by (simp add: sample_stream_def writeAgentMessage_def)
  ultimately show ?thesis
    using concurrent_connections_are_independent [of 1 busy_agent sample_stream sample_replies
        "Accept [] (Some []) # Turn 0 # replicate 40 (Turn 1)" "[]"]
    by (simp add: count_list_eq_length_filter filter_replicate)
qed

end
