(* ===== verification/Docker_Filter.thy ===== *)
theory Docker_Filter
  imports Paths Json_Stream
begin

text \<open>
  The container API filter (\<open>dockerproxy.go\<close>): which endpoints the jail reaches and what a create,
  volume or exec body may ask for.  A refusal is \<open>Some\<close> reason, one constructor per message of the
  source; the empty reason is \<open>None\<close>.  \<open>ev\<close> is \<open>filepath.EvalSymlinks\<close> on the host.
\<close>

datatype docker_reason =
    BulkDeletion string | VolumeDeletion | NotAllowlisted string | UnreadableBody
  | UnparsableExec | ExecPrivileged | UnparsableVolume | UnparsableCreate
  | JoinsNetwork string | VolumesFromRefused | LinkRefused | PrivilegedRefused | DeviceRefused
  | CapRefused string | SecurityOptRefused string | NamespaceRefused string string | NetworkRefused string
  | NamedVolume | BindOutside string | VolumeMount | DeviceOutside string
  | ContainerRequired | UnmodelledEndpoint | UnmodelledOperation | ForeignContainer
  | ForeignExec | UnmodelledExec | ForeignCommit

section \<open>Endpoints\<close>

record docker_req =
  d_meth :: string
  d_path :: string
  d_query :: "(string \<times> string) list"
  d_body :: "string option"

definition maxCreateBody :: nat where "maxCreateBody = 4 * 1024 * 1024"

definition allowedRoots :: "string list" where
  "allowedRoots = [''containers'', ''images'', ''exec'', ''build'', ''commit'', ''distribution'', ''version'',
     ''info'', ''_ping'', ''auth'', ''session'', ''grpc'']"

text \<open>\<open>strings.IndexByte\<close>.\<close>

fun index_byte :: "char \<Rightarrow> string \<Rightarrow> nat option" where
  "index_byte c [] = None"
| "index_byte c (x # xs) = (if x = c then Some 0 else map_option Suc (index_byte c xs))"

definition has_digit :: "string \<Rightarrow> bool" where
  "has_digit s = contains_any s ''0123456789''"

definition apiRoot :: "string \<Rightarrow> string" where
  "apiRoot p =
     (let p = trim_prefix p ''/'';
          p = (case index_byte slash p of
                 Some i \<Rightarrow> if i > 1 \<and> p ! 0 = CHR ''v'' \<and> has_digit (drop 1 (take i p)) then drop (i + 1) p else p
               | None \<Rightarrow> p)
      in case index_byte slash p of Some i \<Rightarrow> take i p | None \<Rightarrow> p)"

definition destructiveReason :: "docker_req \<Rightarrow> docker_reason option" where
  "destructiveReason r =
     (let p = d_path r in
      if has_suffix p ''/prune'' then Some (BulkDeletion p)
      else if d_meth r = ''DELETE'' \<and> contains_sub p ''/volumes/'' then Some VolumeDeletion
      else None)"

definition guarded :: "docker_req \<Rightarrow> bool" where
  "guarded r =
     (if d_meth r \<noteq> ''POST'' then False
      else let p = d_path r in has_suffix p ''/containers/create'' \<or> has_suffix p ''/volumes/create'' \<or>
             has_suffix p ''/exec'')"

section \<open>Bodies\<close>

record volumeDriverConfig =
  dc_name :: string
  dc_options :: "(string \<times> string) list"

record containerVolumeOpts =
  vo_driver :: "volumeDriverConfig option"

record containerMount =
  mt_type :: string
  mt_source :: string
  mt_vopts :: "containerVolumeOpts option"

record containerHostConfig =
  hc_volumesFrom :: "string list"
  hc_links :: "string list"
  hc_binds :: "string list"
  hc_mounts :: "containerMount list"
  hc_privileged :: bool
  hc_devices :: "json list"
  hc_capAdd :: "string list"
  hc_securityOpt :: "string list"
  hc_pid :: string
  hc_ipc :: string
  hc_userns :: string
  hc_network :: string

record networkingConfig =
  nc_endpoints :: "(string \<times> json) list"

record containerCreateBody =
  cb_host :: "containerHostConfig option"
  cb_networking :: "networkingConfig option"

definition zero_driver :: volumeDriverConfig where
  "zero_driver = \<lparr>dc_name = [], dc_options = []\<rparr>"
definition zero_vopts :: containerVolumeOpts where
  "zero_vopts = \<lparr>vo_driver = None\<rparr>"
definition zero_mount :: containerMount where
  "zero_mount = \<lparr>mt_type = [], mt_source = [], mt_vopts = None\<rparr>"
definition zero_host :: containerHostConfig where
  "zero_host = \<lparr>hc_volumesFrom = [], hc_links = [], hc_binds = [], hc_mounts = [], hc_privileged = False,
     hc_devices = [], hc_capAdd = [], hc_securityOpt = [], hc_pid = [], hc_ipc = [], hc_userns = [], hc_network = []\<rparr>"
definition zero_networking :: networkingConfig where
  "zero_networking = \<lparr>nc_endpoints = []\<rparr>"
definition zero_create :: containerCreateBody where
  "zero_create = \<lparr>cb_host = None, cb_networking = None\<rparr>"

abbreviation dec_strings :: "string list decoder" where
  "dec_strings \<equiv> dec_slice dec_string []"

definition dec_driver :: "volumeDriverConfig decoder" where
  "dec_driver = dec_struct (by_name [
     (''Name'', field dec_string dc_name (\<lambda>v s. s\<lparr>dc_name := v\<rparr>)),
     (''Options'', field (dec_map dec_string []) dc_options (\<lambda>v s. s\<lparr>dc_options := v\<rparr>))])"

definition dec_vopts :: "containerVolumeOpts decoder" where
  "dec_vopts = dec_struct (by_name [
     (''DriverConfig'', field (dec_pointer dec_driver zero_driver) vo_driver (\<lambda>v s. s\<lparr>vo_driver := v\<rparr>))])"

definition dec_mount :: "containerMount decoder" where
  "dec_mount = dec_struct (by_name [
     (''Type'', field dec_string mt_type (\<lambda>v s. s\<lparr>mt_type := v\<rparr>)),
     (''Source'', field dec_string mt_source (\<lambda>v s. s\<lparr>mt_source := v\<rparr>)),
     (''VolumeOptions'', field (dec_pointer dec_vopts zero_vopts) mt_vopts (\<lambda>v s. s\<lparr>mt_vopts := v\<rparr>))])"

definition dec_host :: "containerHostConfig decoder" where
  "dec_host = dec_struct (by_name [
     (''VolumesFrom'', field dec_strings hc_volumesFrom (\<lambda>v s. s\<lparr>hc_volumesFrom := v\<rparr>)),
     (''Links'', field dec_strings hc_links (\<lambda>v s. s\<lparr>hc_links := v\<rparr>)),
     (''Binds'', field dec_strings hc_binds (\<lambda>v s. s\<lparr>hc_binds := v\<rparr>)),
     (''Mounts'', field (dec_slice dec_mount zero_mount) hc_mounts (\<lambda>v s. s\<lparr>hc_mounts := v\<rparr>)),
     (''Privileged'', field dec_bool hc_privileged (\<lambda>v s. s\<lparr>hc_privileged := v\<rparr>)),
     (''Devices'', field (dec_slice dec_raw JNull) hc_devices (\<lambda>v s. s\<lparr>hc_devices := v\<rparr>)),
     (''CapAdd'', field dec_strings hc_capAdd (\<lambda>v s. s\<lparr>hc_capAdd := v\<rparr>)),
     (''SecurityOpt'', field dec_strings hc_securityOpt (\<lambda>v s. s\<lparr>hc_securityOpt := v\<rparr>)),
     (''PidMode'', field dec_string hc_pid (\<lambda>v s. s\<lparr>hc_pid := v\<rparr>)),
     (''IpcMode'', field dec_string hc_ipc (\<lambda>v s. s\<lparr>hc_ipc := v\<rparr>)),
     (''UsernsMode'', field dec_string hc_userns (\<lambda>v s. s\<lparr>hc_userns := v\<rparr>)),
     (''NetworkMode'', field dec_string hc_network (\<lambda>v s. s\<lparr>hc_network := v\<rparr>))])"

definition dec_networking :: "networkingConfig decoder" where
  "dec_networking = dec_struct (by_name [
     (''EndpointsConfig'', field (dec_map dec_raw JNull) nc_endpoints (\<lambda>v s. s\<lparr>nc_endpoints := v\<rparr>))])"

definition dec_create :: "containerCreateBody decoder" where
  "dec_create = dec_struct (by_name [
     (''HostConfig'', field (dec_pointer dec_host zero_host) cb_host (\<lambda>v s. s\<lparr>cb_host := v\<rparr>)),
     (''NetworkingConfig'', field (dec_pointer dec_networking zero_networking) cb_networking
        (\<lambda>v s. s\<lparr>cb_networking := v\<rparr>))])"

section \<open>The checks\<close>

text \<open>The first refusal of a loop over the entries of a list.\<close>

fun first_reason :: "('a \<Rightarrow> 'r option) \<Rightarrow> 'a list \<Rightarrow> 'r option" where
  "first_reason f [] = None"
| "first_reason f (x # xs) = (case f x of None \<Rightarrow> first_reason f xs | Some r \<Rightarrow> Some r)"

lemma first_reason_None [simp]: "first_reason f xs = None \<longleftrightarrow> list_all (\<lambda>x. f x = None) xs"
  by (induction xs) (auto split: option.splits)

definition or_else :: "'r option \<Rightarrow> 'r option \<Rightarrow> 'r option" where
  "or_else a b = (case a of None \<Rightarrow> b | Some r \<Rightarrow> Some r)"

lemma or_else_None [simp]: "or_else a b = None \<longleftrightarrow> a = None \<and> b = None"
  by (simp add: or_else_def split: option.splits)

definition dangerousCaps :: "string list" where
  "dangerousCaps = [''SYS_ADMIN'', ''SYS_MODULE'', ''SYS_PTRACE'', ''SYS_RAWIO'', ''DAC_READ_SEARCH'',
     ''DAC_OVERRIDE'', ''MKNOD'', ''SYS_BOOT'', ''ALL'']"

definition defaultNetworks :: "string list" where
  "defaultNetworks = [[], ''default'', ''bridge'', ''none'']"

definition escapesNamespace :: "string \<Rightarrow> bool" where
  "escapesNamespace mode = (let l = to_lower mode in l = ''host'' \<or> has_prefix l ''container:'')"

definition capReason :: "string \<Rightarrow> docker_reason option" where
  "capReason c = (if trim_prefix (to_upper c) ''CAP_'' \<in> set dangerousCaps then Some (CapRefused c) else None)"

definition securityReason :: "string \<Rightarrow> docker_reason option" where
  "securityReason so =
     (let l = to_lower so in
      if contains_sub l ''unconfined'' \<or> contains_sub l ''disable'' then Some (SecurityOptRefused so) else None)"

definition hostConfigReason :: "containerHostConfig \<Rightarrow> docker_reason option" where
  "hostConfigReason h =
     (if hc_volumesFrom h \<noteq> [] then Some VolumesFromRefused
      else if hc_links h \<noteq> [] then Some LinkRefused
      else if hc_privileged h then Some PrivilegedRefused
      else if hc_devices h \<noteq> [] then Some DeviceRefused
      else or_else (first_reason capReason (hc_capAdd h))
        (or_else (first_reason securityReason (hc_securityOpt h))
        (or_else (first_reason (\<lambda>(flag, mode). if escapesNamespace mode then Some (NamespaceRefused flag mode) else None)
            [(''pid'', hc_pid h), (''ipc'', hc_ipc h), (''userns'', hc_userns h), (''network'', hc_network h)])
          (if hc_network h \<notin> set defaultNetworks then Some (NetworkRefused (hc_network h)) else None))))"

definition bindReason :: "(string \<Rightarrow> string option) \<Rightarrow> string \<Rightarrow> string \<Rightarrow> docker_reason option" where
  "bindReason ev root bind =
     (case cut_at bind (CHR '':'') of (src, rest, ok) \<Rightarrow>
        if \<not> ok then None
        else if \<not> has_prefix src ''/'' then Some NamedVolume
        else if \<not> pathWithin ev src root then Some (BindOutside src)
        else None)"

definition lookup :: "(string \<times> string) list \<Rightarrow> string \<Rightarrow> string" where
  "lookup m k = (case map_of m k of Some v \<Rightarrow> v | None \<Rightarrow> [])"

definition driverDeviceReason ::
  "(string \<Rightarrow> string option) \<Rightarrow> string \<Rightarrow> (string \<times> string) list \<Rightarrow> docker_reason option" where
  "driverDeviceReason ev root opts =
     (let dev = lookup opts ''device'' in
      if has_prefix dev ''/'' \<and> \<not> pathWithin ev dev root then Some (DeviceOutside dev) else None)"

definition mountReason :: "(string \<Rightarrow> string option) \<Rightarrow> string \<Rightarrow> containerMount \<Rightarrow> docker_reason option" where
  "mountReason ev root m =
     (if equal_fold (mt_type m) ''volume'' \<and> (mt_source m \<noteq> [] \<or> mt_vopts m \<noteq> None) then Some VolumeMount
      else if equal_fold (mt_type m) ''bind'' \<and> \<not> pathWithin ev (mt_source m) root then Some (BindOutside (mt_source m))
      else (case mt_vopts m of
              Some vo \<Rightarrow> (case vo_driver vo of
                  Some dc \<Rightarrow> driverDeviceReason ev root (dc_options dc) | None \<Rightarrow> None)
            | None \<Rightarrow> None))"

definition createReason :: "(string \<Rightarrow> string option) \<Rightarrow> string \<Rightarrow> containerCreateBody \<Rightarrow> docker_reason option" where
  "createReason ev root b =
     or_else (case cb_networking b of
         None \<Rightarrow> None
       | Some nc \<Rightarrow> first_reason (\<lambda>(name, j). if name \<notin> set defaultNetworks then Some (JoinsNetwork name) else None)
           (nc_endpoints nc))
     (case cb_host b of
        None \<Rightarrow> None
      | Some h \<Rightarrow> or_else (hostConfigReason h)
          (or_else (first_reason (bindReason ev root) (hc_binds h))
             (first_reason (mountReason ev root) (hc_mounts h))))"

definition containerReason ::
  "(string \<Rightarrow> string option) \<Rightarrow> string \<Rightarrow> string \<Rightarrow> docker_reason option" where
  "containerReason ev root body =
     (case unmarshal dec_create zero_create body of
        None \<Rightarrow> Some UnparsableCreate | Some b \<Rightarrow> createReason ev root b)"

text \<open>The \<open>DriverOpts\<close> of a volume body and the \<open>Privileged\<close> of an exec body.\<close>

definition dec_volume :: "(string \<times> string) list decoder" where
  "dec_volume = dec_struct (by_name [(''DriverOpts'', dec_map dec_string [])])"

definition dec_exec :: "bool decoder" where
  "dec_exec = dec_struct (by_name [(''Privileged'', dec_bool)])"

definition volumeReason ::
  "(string \<Rightarrow> string option) \<Rightarrow> string \<Rightarrow> string \<Rightarrow> docker_reason option" where
  "volumeReason ev root body =
     (case unmarshal dec_volume [] body of
        None \<Rightarrow> Some UnparsableVolume | Some opts \<Rightarrow> driverDeviceReason ev root opts)"

definition execReason :: "string \<Rightarrow> docker_reason option" where
  "execReason body =
     (case unmarshal dec_exec False body of
        None \<Rightarrow> Some UnparsableExec | Some p \<Rightarrow> if p then Some ExecPrivileged else None)"

definition filterReason ::
  "(string \<Rightarrow> string option) \<Rightarrow> string \<Rightarrow> string \<Rightarrow> string \<Rightarrow> docker_reason option" where
  "filterReason ev root path body =
     (if has_suffix path ''/volumes/create'' then volumeReason ev root body
      else if has_suffix path ''/exec'' then execReason body
      else containerReason ev root body)"

text \<open>The body check of the handler; a body that cannot be read is refused.\<close>

definition guardReason ::
  "(string \<Rightarrow> string option) \<Rightarrow> string \<Rightarrow> docker_req \<Rightarrow> docker_reason option" where
  "guardReason ev root r =
     (if \<not> guarded r then None
      else (case d_body r of
              None \<Rightarrow> Some UnreadableBody
            | Some body \<Rightarrow> if length body > maxCreateBody then Some UnreadableBody
                            else filterReason ev root (d_path r) body))"

definition rootReason :: "docker_req \<Rightarrow> docker_reason option" where
  "rootReason r = (let root = apiRoot (d_path r) in
     if root \<notin> set allowedRoots then Some (NotAllowlisted root) else None)"

section \<open>What an admitted create body can hold\<close>

text \<open>The host paths a body asks the daemon to mount.\<close>

definition bind_paths :: "string \<Rightarrow> string list" where
  "bind_paths bind = (case cut_at bind (CHR '':'') of (src, rest, ok) \<Rightarrow> if ok then [src] else [])"

definition device_paths :: "containerMount \<Rightarrow> string list" where
  "device_paths m = (case mt_vopts m of
     Some vo \<Rightarrow> (case vo_driver vo of
        Some dc \<Rightarrow> if has_prefix (lookup (dc_options dc) ''device'') ''/'' then [lookup (dc_options dc) ''device''] else []
      | None \<Rightarrow> [])
   | None \<Rightarrow> [])"

definition mount_paths :: "containerMount \<Rightarrow> string list" where
  "mount_paths m = (if equal_fold (mt_type m) ''bind'' then [mt_source m] else []) @ device_paths m"

definition host_paths :: "containerHostConfig \<Rightarrow> string list" where
  "host_paths h = concat (map bind_paths (hc_binds h)) @ concat (map mount_paths (hc_mounts h))"

text \<open>Nothing the daemon keeps outside the project: no named volume and no volume driver.\<close>

definition no_named_volume :: "containerHostConfig \<Rightarrow> bool" where
  "no_named_volume h \<longleftrightarrow>
     list_all (\<lambda>p. has_prefix p ''/'') (concat (map bind_paths (hc_binds h))) \<and>
     list_all (\<lambda>m. equal_fold (mt_type m) ''volume'' \<longrightarrow> mt_source m = [] \<and> mt_vopts m = None) (hc_mounts h)"

text \<open>
  What the decoded fields of a host config must be: no volumes from elsewhere, links, privilege or
  devices, none of the dangerous capabilities and no security option that switches confinement off,
  no shared pid, ipc or user namespace, and a default network.  The body has fields that are not
  decoded, so nothing is said about them: \<open>UTSMode\<close>, \<open>CgroupnsMode\<close>, \<open>DeviceCgroupRules\<close>,
  \<open>DeviceRequests\<close>, \<open>Runtime\<close>, \<open>CgroupParent\<close> and \<open>Sysctls\<close> among them.
\<close>

definition unprivileged :: "containerHostConfig \<Rightarrow> bool" where
  "unprivileged h \<longleftrightarrow>
     hc_volumesFrom h = [] \<and> hc_links h = [] \<and> \<not> hc_privileged h \<and> hc_devices h = [] \<and>
     list_all (\<lambda>c. trim_prefix (to_upper c) ''CAP_'' \<notin> set dangerousCaps) (hc_capAdd h) \<and>
     list_all (\<lambda>so. \<not> contains_sub (to_lower so) ''unconfined'' \<and> \<not> contains_sub (to_lower so) ''disable'')
       (hc_securityOpt h) \<and>
     list_all (\<lambda>mode. \<not> escapesNamespace mode) [hc_pid h, hc_ipc h, hc_userns h] \<and>
     hc_network h \<in> set defaultNetworks"

definition admissible :: "(string \<Rightarrow> string option) \<Rightarrow> string \<Rightarrow> containerCreateBody \<Rightarrow> bool" where
  "admissible ev root b \<longleftrightarrow>
     (case cb_networking b of None \<Rightarrow> True | Some nc \<Rightarrow> set (map fst (nc_endpoints nc)) \<subseteq> set defaultNetworks) \<and>
     (case cb_host b of None \<Rightarrow> True
      | Some h \<Rightarrow> unprivileged h \<and> no_named_volume h \<and> list_all (\<lambda>p. pathWithin ev p root) (host_paths h))"

lemma default_networks_stay: "mode \<in> set defaultNetworks \<Longrightarrow> \<not> escapesNamespace mode"
proof -
  have "list_all (\<lambda>mode. \<not> escapesNamespace mode) defaultNetworks" by code_simp
  then show "mode \<in> set defaultNetworks \<Longrightarrow> \<not> escapesNamespace mode" by (simp add: list_all_iff)
qed

lemma capReason_None: "capReason c = None \<longleftrightarrow> trim_prefix (to_upper c) ''CAP_'' \<notin> set dangerousCaps"
  by (simp only: capReason_def) simp

lemma securityReason_None:
  "securityReason so = None \<longleftrightarrow> \<not> contains_sub (to_lower so) ''unconfined'' \<and> \<not> contains_sub (to_lower so) ''disable''"
  by (simp only: securityReason_def Let_def) simp

lemma hostConfigReason_None: "hostConfigReason h = None \<longleftrightarrow> unprivileged h"
  using default_networks_stay [of "hc_network h"]
  by (auto simp: hostConfigReason_def unprivileged_def capReason_None securityReason_None)

lemma bindReason_None:
  "bindReason ev root bind = None \<longleftrightarrow>
     list_all (\<lambda>p. has_prefix p ''/'' \<and> pathWithin ev p root) (bind_paths bind)"
  by (simp add: bindReason_def bind_paths_def split: prod.splits)

lemma mountReason_None:
  "mountReason ev root m = None \<longleftrightarrow>
     (equal_fold (mt_type m) ''volume'' \<longrightarrow> mt_source m = [] \<and> mt_vopts m = None) \<and>
     list_all (\<lambda>p. pathWithin ev p root) (mount_paths m)"
  by (auto simp: mountReason_def mount_paths_def device_paths_def driverDeviceReason_def Let_def
      split: option.splits if_splits)

lemma createReason_None: "createReason ev root b = None \<longleftrightarrow> admissible ev root b"
proof -
  have nets: "first_reason (\<lambda>(name, j). if name \<notin> set defaultNetworks then Some (JoinsNetwork name) else None) es = None
      \<longleftrightarrow> set (map fst es) \<subseteq> set defaultNetworks" for es :: "(string \<times> json) list"
    by (induction es) (auto split: prod.splits)
  have host: "or_else (hostConfigReason h) (or_else (first_reason (bindReason ev root) (hc_binds h))
        (first_reason (mountReason ev root) (hc_mounts h))) = None \<longleftrightarrow>
      unprivileged h \<and> no_named_volume h \<and> list_all (\<lambda>p. pathWithin ev p root) (host_paths h)" for h
    by (simp only: or_else_None first_reason_None hostConfigReason_None bindReason_None mountReason_None
        no_named_volume_def host_paths_def) (auto simp: list_all_iff)
  show ?thesis
    unfolding createReason_def admissible_def or_else_None [of "case_option a b c" for a b c]
    by (cases "cb_networking b"; cases "cb_host b") (simp_all only: option.case nets host simp_thms)
qed

end
