(* ===== verification/Docker_Ownership.thy ===== *)
theory Docker_Ownership
  imports Docker_Filter Http
begin

text \<open>
  Which containers the jail may touch (\<open>dockerownership.go\<close>) and the whole handler
  (\<open>dockerFilterHandler\<close> with the reverse proxy's \<open>ModifyResponse\<close>).  The state is what the proxy has
  seen the daemon create for this jail; the daemon is a pair of functions, one that answers the
  inspect lookup and one that answers a forwarded request, given anew with every request because
  its answers change over time.  Of a response the body that arrives counts, and whether the reading ended
  it or failed.  A query string is the list of its decoded pairs.
\<close>

section \<open>State\<close>

record ownership =
  containers :: "(string \<times> string) list"
  execs :: "string list"

record daemon_resp =
  dr_status :: nat
  dr_body :: string
  dr_read_ok :: bool
  dr_close_ok :: bool

record daemon =
  dm_get :: "string \<Rightarrow> (nat \<times> string) option"
  dm_serve :: "docker_req \<Rightarrow> daemon_resp"

definition new_ownership :: ownership where
  "new_ownership = \<lparr>containers = [], execs = []\<rparr>"

definition owned :: "ownership \<Rightarrow> string set" where
  "owned s = set (map snd (containers s))"

text \<open>A lookup in a Go map: the empty string for a missing key.\<close>

definition own_get :: "ownership \<Rightarrow> string \<Rightarrow> string" where
  "own_get s ref = lookup (containers s) ref"

definition ownsExec :: "ownership \<Rightarrow> string \<Rightarrow> bool" where
  "ownsExec s cid = (cid \<in> set (execs s))"

definition dockerPath :: "string \<Rightarrow> string" where
  "dockerPath path =
     (let path = trim_prefix path ''/'' in
      case cut_at path slash of (segment, rest, found) \<Rightarrow>
        if found \<and> has_prefix segment ''v'' \<and> has_digit segment then rest else path)"

section \<open>Inspecting the daemon\<close>

text \<open>\<open>url.PathEscape\<close>.\<close>

definition path_byte :: "char \<Rightarrow> bool" where
  "path_byte c = (is_digit c \<or> lower_char c \<noteq> c \<or> upper_char c \<noteq> c \<or> c \<in> set ''-_.~$&+=:@'')"

definition path_escape :: "string \<Rightarrow> string" where
  "path_escape s = concat (map (\<lambda>c. if path_byte c then [c]
     else [CHR ''%'', to_upper [hex_digit (of_char c div 16)] ! 0, to_upper [hex_digit (of_char c mod 16)] ! 0]) s)"

definition dec_id :: "string decoder" where
  "dec_id = dec_struct (by_name [(''Id'', dec_string)])"

definition daemonInspect :: "daemon \<Rightarrow> string \<Rightarrow> string" where
  "daemonInspect dm ref =
     (case dm_get dm (''http://docker/containers/'' @ path_escape ref @ ''/json'') of
        None \<Rightarrow> []
      | Some (status, body) \<Rightarrow>
          if status \<noteq> 200 then []
          else (case decode_first dec_id [] (take maxCreateBody body) of None \<Rightarrow> [] | Some cid \<Rightarrow> cid))"

text \<open>
  The owned full id that a reference names, or the empty string.  The map is read twice, under a lock
  that is not held while the daemon is asked: \<open>s\<close> is what the first reading sees, \<open>t\<close> the second.
\<close>

definition own_resolve :: "(string \<Rightarrow> string) \<Rightarrow> ownership \<Rightarrow> ownership \<Rightarrow> string \<Rightarrow> string" where
  "own_resolve inspect s t ref =
     (let cid = own_get s ref in
      if cid \<noteq> [] \<or> ref = [] then cid
      else let full = inspect ref in
        if full \<noteq> [] \<and> own_get t full = full then full else [])"

section \<open>Authorising a request\<close>

definition dq_get :: "(string \<times> string) list \<Rightarrow> string \<Rightarrow> string" where
  "dq_get q k = lookup q k"

definition dq_set :: "(string \<times> string) list \<Rightarrow> string \<Rightarrow> string \<Rightarrow> (string \<times> string) list" where
  "dq_set q k v = (k, v) # filter (\<lambda>kv. fst kv \<noteq> k) q"

definition container_ops :: "string list" where
  "container_ops = [''json'', ''logs'', ''attach'', ''wait'', ''start'', ''stop'', ''kill'', ''restart'', ''pause'',
     ''unpause'', ''resize'', ''archive'', ''export'', ''top'', ''stats'', ''exec'']"

definition authorize_container :: "(string \<Rightarrow> string) \<Rightarrow> ownership \<Rightarrow> ownership \<Rightarrow> docker_req \<Rightarrow> docker_reason + docker_req" where
  "authorize_container inspect s t r =
     (let path = dockerPath (d_path r); parts = split_on slash path in
      if length parts = 2 \<and> parts ! 1 = ''create'' \<and> d_meth r = ''POST'' \<or>
         length parts = 2 \<and> parts ! 1 = ''json'' \<and> d_meth r = ''GET'' then Inr r
      else if length parts < 2 then Inl ContainerRequired
      else if length parts > 3 then Inl UnmodelledEndpoint
      else if length parts = 3 \<and> parts ! 2 \<notin> set container_ops then Inl UnmodelledOperation
      else let cid = own_resolve inspect s t (parts ! 1) in
        if cid = [] then Inl ForeignContainer
        else Inr (r\<lparr>d_path := trim_suffix (d_path r) path @ join_with ''/'' (parts[1 := cid])\<rparr>))"

definition authorize :: "(string \<Rightarrow> string) \<Rightarrow> ownership \<Rightarrow> ownership \<Rightarrow> docker_req \<Rightarrow> docker_reason + docker_req" where
  "authorize inspect s t r =
     (let parts = split_on slash (dockerPath (d_path r)) in
      if hd parts = ''containers'' then authorize_container inspect s t r
      else if hd parts = ''exec'' then
        if length parts \<noteq> 3 \<or> \<not> ownsExec s (parts ! 1) then Inl ForeignExec
        else if parts ! 2 \<notin> {''start'', ''json'', ''resize''} then Inl UnmodelledExec
        else Inr r
      else if hd parts = ''commit'' then
        let cid = own_resolve inspect s t (dq_get (d_query r) ''container'') in
        if cid = [] then Inl ForeignCommit
        else Inr (r\<lparr>d_query := dq_set (d_query r) ''container'' cid\<rparr>)
      else Inr r)"

section \<open>Recording a response\<close>

datatype docker_reply =
    Refusal docker_reason
  | BadGateway
  | Relayed nat string

text \<open>
  \<open>filterList\<close>: every item must decode, and only those whose id is recorded under itself are kept, as
  the text they came in.
\<close>

fun keep_owned :: "ownership \<Rightarrow> (json \<times> string) list \<Rightarrow> string list option" where
  "keep_owned s [] = Some []"
| "keep_owned s ((j, t) # items) =
     (case dec_id j [] of
        None \<Rightarrow> None
      | Some cid \<Rightarrow> map_option (\<lambda>rest. if cid \<noteq> [] \<and> own_get s cid = cid then t # rest else rest) (keep_owned s items))"

definition filterList :: "ownership \<Rightarrow> bool \<Rightarrow> string \<Rightarrow> string option" where
  "filterList s ended body =
     (case list_items ended body of
        None \<Rightarrow> None
      | Some items \<Rightarrow> map_option marshal_raw (keep_owned s items))"

definition creates_container :: "docker_req \<Rightarrow> bool" where
  "creates_container r = (dockerPath (d_path r) = ''containers/create'' \<and> d_meth r = ''POST'')"

definition creates_exec :: "docker_req \<Rightarrow> bool" where
  "creates_exec r = (has_prefix (dockerPath (d_path r)) ''containers/'' \<and>
     has_suffix (dockerPath (d_path r)) ''/exec'' \<and> d_meth r = ''POST'')"

definition lists_containers :: "docker_req \<Rightarrow> bool" where
  "lists_containers r = (dockerPath (d_path r) = ''containers/json'' \<and> d_meth r = ''GET'')"

definition add_resource :: "docker_req \<Rightarrow> string \<Rightarrow> ownership \<Rightarrow> ownership" where
  "add_resource r cid s =
     (if creates_container r then
        let cs = AList.update cid cid (containers s);
            name = dq_get (d_query r) ''name''
        in s\<lparr>containers := (if name \<noteq> [] then AList.update name cid cs else cs)\<rparr>
      else s\<lparr>execs := cid # execs s\<rparr>)"

definition record_list :: "ownership \<Rightarrow> daemon_resp \<Rightarrow> docker_reply" where
  "record_list s resp =
     (case filterList s (dr_read_ok resp) (dr_body resp) of
        None \<Rightarrow> BadGateway
      | Some text \<Rightarrow> if \<not> dr_close_ok resp \<or> length text > maxCreateBody then BadGateway
                     else Relayed (dr_status resp) text)"

definition record_create :: "ownership \<Rightarrow> docker_req \<Rightarrow> daemon_resp \<Rightarrow> ownership \<times> docker_reply" where
  "record_create s r resp =
     (let b = take (maxCreateBody + 1) (dr_body resp) in
      if \<not> dr_read_ok resp \<or> \<not> dr_close_ok resp \<or> length b > maxCreateBody then (s, BadGateway)
      else (case unmarshal dec_id [] b of
         None \<Rightarrow> (s, BadGateway)
       | Some cid \<Rightarrow> if cid = [] then (s, BadGateway)
                    else (add_resource r cid s, Relayed (dr_status resp) b)))"

definition record_response ::
  "ownership \<Rightarrow> docker_req \<Rightarrow> daemon_resp \<Rightarrow> ownership \<times> docker_reply" where
  "record_response s r resp =
     (if dr_status resp < 200 \<or> dr_status resp \<ge> 300 \<or>
         \<not> creates_container r \<and> \<not> creates_exec r \<and> \<not> lists_containers r
      then (s, Relayed (dr_status resp) (dr_body resp))
      else if lists_containers r then (s, record_list s resp)
      else record_create s r resp)"

section \<open>The handler\<close>

datatype docker_event =
    DockerDenied string string docker_reason
  | DockerAllowed string string

definition docker_serve ::
  "(string \<Rightarrow> string option) \<Rightarrow> string \<Rightarrow> ownership \<Rightarrow>
     daemon \<Rightarrow> docker_req \<Rightarrow> ownership \<times> docker_event \<times> docker_reply \<times> docker_req list" where
  "docker_serve ev root s dm r =
     (case or_else (destructiveReason r) (or_else (rootReason r) (guardReason ev root r)) of
        Some reason \<Rightarrow> (s, DockerDenied (d_meth r) (d_path r) reason, Refusal reason, [])
      | None \<Rightarrow> (case authorize (daemonInspect dm) s s r of
           Inl reason \<Rightarrow> (s, DockerDenied (d_meth r) (d_path r) reason, Refusal reason, [])
         | Inr u \<Rightarrow> (case record_response s u (dm_serve dm u) of
             (s', reply) \<Rightarrow> (s', DockerAllowed (d_meth u) (d_path u), reply, [u]))))"

definition docker_handle ::
  "(string \<Rightarrow> string option) \<Rightarrow> string \<Rightarrow> ownership \<Rightarrow>
     daemon \<times> docker_req \<Rightarrow> ownership \<times> docker_req list" where
  "docker_handle ev root s q =
     (case docker_serve ev root s (fst q) (snd q) of (s', e, reply, us) \<Rightarrow> (s', us))"

end
