(* ===== verification/Docker_Properties.thy ===== *)
theory Docker_Properties
  imports Docker_Ownership
begin

text \<open>
  What reaches the container daemon: endpoints, bodies and resources, for one request and over any
  run, and where the ids the proxy trusts come from.
\<close>

section \<open>The two readings of a path agree\<close>

lemma cut_at_Cons:
  "cut_at (x # s) c = (if x = c then ([], s, True) else (case cut_at s c of (a, b, ok) \<Rightarrow> (x # a, b, ok)))"
  by (cases "dropWhile (\<lambda>x. x \<noteq> c) s") (auto simp: cut_at_def simp del: dropWhile_eq_Nil_conv)

lemma index_byte_cut:
  "cut_at s c = (case index_byte c s of None \<Rightarrow> (s, [], False) | Some i \<Rightarrow> (take i s, drop (Suc i) s, True))"
  by (induction s) (auto simp: cut_at_Cons cut_at_not_found split: option.split)

lemma hd_split: "hd (split_on c s) = (case index_byte c s of None \<Rightarrow> s | Some i \<Rightarrow> take i s)"
  by (induction s) (auto split: option.splits list.splits)

lemma version_segment:
  "1 < i \<and> p ! 0 = CHR ''v'' \<and> has_digit (drop 1 (take i p)) \<longleftrightarrow> has_prefix (take i p) ''v'' \<and> has_digit (take i p)"
proof (cases p)
  case (Cons x t)
  show ?thesis
  proof (cases i)
    case (Suc j)
    have "has_digit (CHR ''v'' # take j t) = has_digit (take j t)" and "\<not> has_digit []"
      by (simp_all add: has_digit_def contains_any_def)
    then show ?thesis using Cons Suc by (cases j) auto
  qed (simp add: has_digit_def contains_any_def)
qed (simp add: has_digit_def contains_any_def)

text \<open>The endpoint the allowlist checks is the one the ownership check dispatches on.\<close>

lemma apiRoot_dockerPath: "apiRoot p = hd (split_on slash (dockerPath p))"
proof -
  let ?q = "trim_prefix p ''/''"
  show ?thesis
  proof (cases "index_byte slash ?q")
    case None
    then show ?thesis by (simp add: apiRoot_def dockerPath_def index_byte_cut hd_split Let_def)
  next
    case (Some i)
    then show ?thesis
      using version_segment [of i ?q]
      by (simp only: apiRoot_def dockerPath_def index_byte_cut hd_split Let_def option.case prod.case)
        (auto split: option.split)
  qed
qed

lemma dockerPath_suffix: "\<exists>pre. p = pre @ dockerPath p"
proof -
  let ?q = "trim_prefix p ''/''"
  obtain a where a: "p = a @ ?q" by (metis append_Nil prefix_drop trim_prefix_def)
  obtain seg rest ok where c: "cut_at ?q slash = (seg, rest, ok)" by (metis prod_cases3)
  show ?thesis
  proof (cases "ok \<and> has_prefix seg ''v'' \<and> has_digit seg")
    case True
    with c cut_at_found [of ?q slash seg rest] have "?q = seg @ slash # rest" by simp
    then have "p = (a @ seg @ [slash]) @ rest" using a by simp
    moreover have "dockerPath p = rest" using True c by (simp add: dockerPath_def)
    ultimately show ?thesis by metis
  next
    case False
    with c have "dockerPath p = ?q" by (auto simp: dockerPath_def)
    with a show ?thesis by metis
  qed
qed

lemma split_two: "split_on slash p = [a, b] \<Longrightarrow> p = a @ ''/'' @ b"
  using join_split [of slash p] by simp

lemma split_three: "split_on slash p = [a, b, c] \<Longrightarrow> p = a @ ''/'' @ b @ ''/'' @ c"
  using join_split [of slash p] by simp

lemma length_two: "length xs = 2 \<longleftrightarrow> (\<exists>a b. xs = [a, b])" and length_three: "length xs = 3 \<longleftrightarrow> (\<exists>a b c. xs = [a, b, c])"
  by (auto simp: numeral_eq_Suc length_Suc_conv)

section \<open>Resources\<close>

lemma own_get_owned: "own_get s ref \<noteq> [] \<Longrightarrow> own_get s ref \<in> owned s"
  by (force simp: own_get_def lookup_def owned_def dest: map_of_SomeD split: option.splits)

lemma own_resolve_owned: "own_resolve inspect s t ref \<noteq> [] \<Longrightarrow> own_resolve inspect s t ref \<in> owned s \<union> owned t"
  using own_get_owned [of s ref] own_get_owned [of t "inspect ref"]
  by (auto simp: own_resolve_def Let_def split: if_splits)

text \<open>What a forwarded request names, against container ids and exec ids.\<close>

definition names_container :: "string set \<Rightarrow> docker_req \<Rightarrow> bool" where
  "names_container ids u \<longleftrightarrow> (\<exists>pre cid op. d_path u = pre @ ''containers/'' @ cid @ op \<and> cid \<in> ids \<and>
     (op = [] \<or> (\<exists>x \<in> set container_ops. op = ''/'' @ x)))"

definition names_exec :: "string set \<Rightarrow> docker_req \<Rightarrow> bool" where
  "names_exec es u \<longleftrightarrow> (\<exists>e op. dockerPath (d_path u) = ''exec/'' @ e @ ''/'' @ op \<and> e \<in> es \<and>
     op \<in> {''start'', ''json'', ''resize''})"

definition resource_in :: "string set \<Rightarrow> string set \<Rightarrow> docker_req \<Rightarrow> bool" where
  "resource_in ids es u \<longleftrightarrow> creates_container u \<or> lists_containers u \<or> names_container ids u \<or> names_exec es u \<or>
     apiRoot (d_path u) = ''commit'' \<and> dq_get (d_query u) ''container'' \<in> ids \<or>
     apiRoot (d_path u) \<notin> {''containers'', ''exec'', ''commit''}"

definition resource_ok :: "ownership \<Rightarrow> docker_req \<Rightarrow> bool" where
  "resource_ok s u \<longleftrightarrow> resource_in (owned s) (set (execs s)) u"

lemma resource_in_mono: "resource_in ids es u \<Longrightarrow> ids \<subseteq> ids' \<Longrightarrow> es \<subseteq> es' \<Longrightarrow> resource_in ids' es' u"
  unfolding resource_in_def names_container_def names_exec_def by blast

lemma authorize_container_Inr:
  assumes "authorize_container inspect s t r = Inr u"
  defines "parts \<equiv> split_on slash (dockerPath (d_path r))"
  shows "u = r \<and> length parts = 2 \<and> (parts ! 1 = ''create'' \<and> d_meth r = ''POST'' \<or> parts ! 1 = ''json'' \<and> d_meth r = ''GET'') \<or>
    (\<exists>cid. cid \<in> owned s \<union> owned t \<and> (length parts = 2 \<or> length parts = 3 \<and> parts ! 2 \<in> set container_ops) \<and>
      u = r\<lparr>d_path := trim_suffix (d_path r) (dockerPath (d_path r)) @ join_with ''/'' (parts[1 := cid])\<rparr>)"
proof -
  let ?cid = "own_resolve inspect s t (parts ! 1)"
  let ?A = "length parts = 2 \<and> parts ! 1 = ''create'' \<and> d_meth r = ''POST'' \<or>
    length parts = 2 \<and> parts ! 1 = ''json'' \<and> d_meth r = ''GET''"
  show ?thesis
  proof (cases ?A)
    case True
    with assms(1) show ?thesis by (auto simp: authorize_container_def parts_def)
  next
    case False
    with assms(1) have n: "\<not> length parts < 2" "\<not> length parts > 3"
      "\<not> (length parts = 3 \<and> parts ! 2 \<notin> set container_ops)" "?cid \<noteq> []" and
      u: "u = r\<lparr>d_path := trim_suffix (d_path r) (dockerPath (d_path r)) @ join_with ''/'' (parts[1 := ?cid])\<rparr>"
      unfolding authorize_container_def Let_def parts_def [symmetric] by (simp_all only: split: if_splits) simp_all
    from n(1-3) have "length parts = 2 \<or> length parts = 3 \<and> parts ! 2 \<in> set container_ops" by linarith
    with n(4) u own_resolve_owned show ?thesis by blast
  qed
qed

lemma authorize_container_ok:
  assumes "authorize_container inspect s t r = Inr u" and "hd (split_on slash (dockerPath (d_path r))) = ''containers''"
  shows "u = r \<and> (creates_container r \<or> lists_containers r) \<or> names_container (owned s \<union> owned t) u"
proof -
  let ?parts = "split_on slash (dockerPath (d_path r))"
  obtain pre where pre: "d_path r = pre @ dockerPath (d_path r)" using dockerPath_suffix by blast
  have ts: "trim_suffix (d_path r) (dockerPath (d_path r)) = pre"
    by (metis pre trim_suffix_suffix)
  from authorize_container_Inr [OF assms(1)] show ?thesis
  proof (elim disjE exE conjE)
    assume 1: "u = r" "length ?parts = 2"
    then obtain b where b: "?parts = [''containers'', b]" using assms(2) by (auto simp: length_two)
    assume "?parts ! 1 = ''create''" "d_meth r = ''POST''"
    then have "creates_container r" using split_two [OF b] b by (simp add: creates_container_def)
    with 1 show ?thesis by simp
  next
    assume 1: "u = r" "length ?parts = 2"
    then obtain b where b: "?parts = [''containers'', b]" using assms(2) by (auto simp: length_two)
    assume "?parts ! 1 = ''json''" "d_meth r = ''GET''"
    then have "lists_containers r" using split_two [OF b] b by (simp add: lists_containers_def)
    with 1 show ?thesis by simp
  next
    fix cid assume o: "cid \<in> owned s \<union> owned t" and "length ?parts = 2"
      and u: "u = r\<lparr>d_path := trim_suffix (d_path r) (dockerPath (d_path r)) @ join_with ''/'' (?parts[1 := cid])\<rparr>"
    then obtain b where b: "?parts = [''containers'', b]" using assms(2) by (auto simp: length_two)
    with u have "d_path u = pre @ ''containers/'' @ cid @ []" by (simp add: ts)
    with o have "names_container (owned s \<union> owned t) u" unfolding names_container_def by blast
    then show ?thesis ..
  next
    fix cid assume o: "cid \<in> owned s \<union> owned t" and "length ?parts = 3" and op: "?parts ! 2 \<in> set container_ops"
      and u: "u = r\<lparr>d_path := trim_suffix (d_path r) (dockerPath (d_path r)) @ join_with ''/'' (?parts[1 := cid])\<rparr>"
    then obtain b c where b: "?parts = [''containers'', b, c]" using assms(2) by (auto simp: length_three)
    with u have "d_path u = pre @ ''containers/'' @ cid @ ''/'' @ c" by (simp add: ts)
    moreover have "c \<in> set container_ops" using op b by simp
    ultimately have "names_container (owned s \<union> owned t) u" using o unfolding names_container_def by blast
    then show ?thesis ..
  qed
qed

lemma authorize_ok:
  assumes "authorize inspect s t r = Inr u"
  shows "resource_in (owned s \<union> owned t) (set (execs s)) u"
proof -
  let ?parts = "split_on slash (dockerPath (d_path r))"
  consider "hd ?parts = ''containers''" | "hd ?parts = ''exec''" | "hd ?parts = ''commit''"
    | "hd ?parts \<notin> {''containers'', ''exec'', ''commit''}" by blast
  then show ?thesis
  proof cases
    case 1
    then have "authorize_container inspect s t r = Inr u" using assms by (simp add: authorize_def)
    then show ?thesis using authorize_container_ok 1 unfolding resource_in_def by blast
  next
    case 2
    then have "u = r" and "length ?parts = 3" and e: "?parts ! 1 \<in> set (execs s)" "?parts ! 2 \<in> {''start'', ''json'', ''resize''}"
      using assms by (auto simp: authorize_def ownsExec_def Let_def split: if_splits)
    then obtain b c where b: "?parts = [''exec'', b, c]" using 2 by (auto simp: length_three)
    have "names_exec (set (execs s)) u"
      unfolding names_exec_def using split_three [OF b] b e \<open>u = r\<close> by auto
    then show ?thesis by (simp add: resource_in_def)
  next
    case 3
    let ?cid = "own_resolve inspect s t (dq_get (d_query r) ''container'')"
    from 3 assms have "?cid \<noteq> []" and u: "u = r\<lparr>d_query := dq_set (d_query r) ''container'' ?cid\<rparr>"
      by (auto simp: authorize_def Let_def split: if_splits)
    moreover have "dq_get (d_query u) ''container'' = ?cid"
      by (simp add: u dq_get_def dq_set_def lookup_def)
    moreover have "apiRoot (d_path u) = ''commit''" using 3 u by (simp add: apiRoot_dockerPath)
    ultimately show ?thesis using own_resolve_owned unfolding resource_in_def by metis
  next
    case 4
    with assms have "u = r" by (simp add: authorize_def)
    with 4 show ?thesis by (simp add: resource_in_def apiRoot_dockerPath)
  qed
qed

lemma authorize_now: "authorize inspect s s r = Inr u \<Longrightarrow> resource_ok s u"
  using authorize_ok [of inspect s s r u] by (simp add: resource_ok_def)

section \<open>One request\<close>

lemma served_upstream:
  assumes "u \<in> set (snd (snd (snd (docker_serve ev root s dm r))))"
  shows "destructiveReason r = None" and "rootReason r = None" and "guardReason ev root r = None"
    and "authorize (daemonInspect dm) s s r = Inr u"
  using assms by (auto simp: docker_serve_def split: option.splits sum.splits prod.splits)

lemma rooted_dockerPath:
  assumes "has_prefix p ''/''"
  shows "has_suffix p (slash # dockerPath p)"
proof -
  obtain q where p: "p = slash # q" using assms by (auto simp: prefix_def)
  then have q: "trim_prefix p ''/'' = q" by (simp add: trim_prefix_def)
  obtain seg rest ok where c: "cut_at q slash = (seg, rest, ok)" by (metis prod_cases3)
  show ?thesis
  proof (cases "ok \<and> has_prefix seg ''v'' \<and> has_digit seg")
    case True
    with c cut_at_found [of q slash seg rest] have "q = seg @ slash # rest" by simp
    then have "p = (slash # seg) @ slash # rest" using p by simp
    moreover have "dockerPath p = rest" using True c by (simp add: dockerPath_def q)
    ultimately show ?thesis by (metis suffixI)
  next
    case False
    with c have "dockerPath p = q" by (auto simp: dockerPath_def q)
    then show ?thesis by (simp add: p)
  qed
qed

lemma creates_guarded: "creates_container r \<Longrightarrow> has_prefix (d_path r) ''/'' \<Longrightarrow> guarded r"
  using rooted_dockerPath [of "d_path r"] by (simp add: creates_container_def guarded_def)

lemma creates_root: "creates_container r \<Longrightarrow> split_on slash (dockerPath (d_path r)) = [''containers'', ''create'']"
proof -
  have "split_on slash ''containers/create'' = [''containers'', ''create'']" by code_simp
  then show "creates_container r \<Longrightarrow> split_on slash (dockerPath (d_path r)) = [''containers'', ''create'']"
    by (simp add: creates_container_def)
qed

lemma creates_unchanged:
  assumes "creates_container r" and "authorize inspect s t r = Inr u"
  shows "u = r"
  using assms creates_root [OF assms(1)]
  by (simp add: authorize_def authorize_container_def creates_container_def)

lemma create_filter:
  assumes "creates_container r"
  shows "filterReason ev root (d_path r) body = containerReason ev root body"
proof -
  obtain pre where "d_path r = pre @ dockerPath (d_path r)" using dockerPath_suffix by blast
  then have s: "d_path r = pre @ ''containers/create''" using assms by (simp add: creates_container_def)
  have "\<not> has_suffix (d_path r) ''/volumes/create''" and "\<not> has_suffix (d_path r) ''/exec''"
    unfolding s by (auto simp: suffix_to_prefix)
  then show ?thesis by (simp add: filterReason_def)
qed

text \<open>What the filter lets through: the endpoint, and for a create request the decoded body.\<close>

lemma filtered_request:
  assumes "destructiveReason r = None" and "rootReason r = None" and "guardReason ev root r = None"
  shows "apiRoot (d_path r) \<in> set allowedRoots" and "\<not> has_suffix (d_path r) ''/prune''"
    and "creates_container r \<Longrightarrow> has_prefix (d_path r) ''/'' \<Longrightarrow>
      \<exists>body b. d_body r = Some body \<and> length body \<le> maxCreateBody \<and>
        unmarshal dec_create zero_create body = Some b \<and> admissible ev root b"
proof -
  show "apiRoot (d_path r) \<in> set allowedRoots" using assms(2) by (auto simp: rootReason_def Let_def split: if_splits)
  show "\<not> has_suffix (d_path r) ''/prune''" using assms(1) by (auto simp: destructiveReason_def Let_def split: if_splits)
  assume c: "creates_container r" and p: "has_prefix (d_path r) ''/''"
  from assms(3) creates_guarded [OF c p] obtain body where b: "d_body r = Some body" "length body \<le> maxCreateBody"
    and "containerReason ev root body = None"
    by (auto simp: guardReason_def create_filter [OF c] split: option.splits if_splits)
  then obtain b where "unmarshal dec_create zero_create body = Some b" "createReason ev root b = None"
    by (auto simp: containerReason_def split: option.splits)
  with b createReason_None show "\<exists>body b. d_body r = Some body \<and> length body \<le> maxCreateBody \<and>
       unmarshal dec_create zero_create body = Some b \<and> admissible ev root b" by blast
qed

section \<open>A run\<close>

interpretation docker_filter: filtering_proxy "docker_handle ev root" "\<lambda>s. True" resource_ok
proof unfold_locales
  fix s q u assume "u \<in> set (snd (docker_handle ev root s q))"
  then have "u \<in> set (snd (snd (snd (docker_serve ev root s (fst q) (snd q)))))"
    by (auto simp: docker_handle_def split: prod.splits)
  then show "resource_ok s u" by (rule authorize_now [OF served_upstream(4)])
qed simp

text \<open>The ids a daemon reports, with a success, for the create requests it is sent.\<close>

definition reported :: "(docker_req \<Rightarrow> bool) \<Rightarrow> daemon \<Rightarrow> string set" where
  "reported creates dm = {cid. \<exists>u. creates u \<and> 200 \<le> dr_status (dm_serve dm u) \<and> dr_status (dm_serve dm u) < 300 \<and>
     unmarshal dec_id [] (take (maxCreateBody + 1) (dr_body (dm_serve dm u))) = Some cid}"

lemma values_update: "snd ` set (AList.update k v al) \<subseteq> insert v (snd ` set al)"
  by (induction al) auto

lemma owned_add: "owned (add_resource r cid s) \<subseteq> owned s \<union> (if creates_container r then {cid} else {})"
proof -
  let ?cs = "AList.update cid cid (containers s)" and ?name = "dq_get (d_query r) ''name''"
  have 1: "snd ` set ?cs \<subseteq> insert cid (owned s)" using values_update by (simp add: owned_def)
  have "snd ` set (AList.update ?name cid ?cs) \<subseteq> insert cid (snd ` set ?cs)" by (rule values_update)
  with 1 have "snd ` set (AList.update ?name cid ?cs) \<subseteq> insert cid (owned s)" by blast
  with 1 show ?thesis by (simp add: add_resource_def Let_def owned_def)
qed

lemma execs_add: "set (execs (add_resource r cid s)) \<subseteq> set (execs s) \<union> (if creates_container r then {} else {cid})"
  by (auto simp: add_resource_def Let_def)

lemma record_response_state:
  assumes "record_response s u resp = (s', reply)"
  shows "s' = s \<or> (\<exists>cid. s' = add_resource u cid s \<and> 200 \<le> dr_status resp \<and> dr_status resp < 300 \<and>
      (creates_container u \<or> creates_exec u) \<and>
      unmarshal dec_id [] (take (maxCreateBody + 1) (dr_body resp)) = Some cid)"
  using assms
  by (auto simp: record_response_def record_create_def lists_containers_def creates_container_def creates_exec_def
      Let_def split: if_splits option.splits)

lemma record_grows:
  assumes "record_response s u (dm_serve dm u) = (s', reply)"
  shows "owned s' \<subseteq> owned s \<union> reported creates_container dm"
    and "set (execs s') \<subseteq> set (execs s) \<union> reported creates_exec dm"
  using record_response_state [OF assms] owned_add execs_add by (fastforce simp: reported_def split: if_splits)+

lemma handle_grows:
  assumes "docker_handle ev root s (dm, r) = (s', us)"
  shows "owned s' \<subseteq> owned s \<union> reported creates_container dm"
    and "set (execs s') \<subseteq> set (execs s) \<union> reported creates_exec dm"
proof -
  have "s' = s \<or> (\<exists>u reply. record_response s u (dm_serve dm u) = (s', reply))"
    using assms by (auto simp: docker_handle_def docker_serve_def split: option.splits sum.splits prod.splits)
  then show "owned s' \<subseteq> owned s \<union> reported creates_container dm"
    and "set (execs s') \<subseteq> set (execs s) \<union> reported creates_exec dm"
    using record_grows by blast+
qed

lemma run_grows:
  defines "final \<equiv> \<lambda>ev root s qs. snd (docker_filter.run ev root s qs)"
  shows "owned (final ev root s qs) \<subseteq> owned s \<union> (\<Union>q \<in> set qs. reported creates_container (fst q)) \<and>
    set (execs (final ev root s qs)) \<subseteq> set (execs s) \<union> (\<Union>q \<in> set qs. reported creates_exec (fst q))"
proof (induction qs arbitrary: s)
  case (Cons q qs)
  obtain s' us where h: "docker_handle ev root s q = (s', us)" by fastforce
  then have "docker_handle ev root s (fst q, snd q) = (s', us)" by simp
  note g = handle_grows [OF this]
  have "final ev root s (q # qs) = final ev root s' qs"
    using h by (simp add: final_def split: prod.splits)
  with Cons.IH [of s'] g show ?case by auto
qed (simp add: final_def)

text \<open>
  After any run of the jail's requests, with a daemon whose answers change from one to the next,
  the next request that reaches the daemon creates or lists containers, names only a container or
  exec session whose id the daemon reported as created for an earlier request of this run, or uses
  an endpoint that names no container.
\<close>

theorem docker_run_reaches_only_its_own:
  assumes "s = snd (docker_filter.run ev root new_ownership qs)"
    and "u \<in> set (snd (docker_handle ev root s q))"
  shows "resource_ok s u \<and>
    owned s \<subseteq> (\<Union>q \<in> set qs. reported creates_container (fst q)) \<and>
    set (execs s) \<subseteq> (\<Union>q \<in> set qs. reported creates_exec (fst q))"
proof (intro conjI)
  show "resource_ok s u" using docker_filter.filters [OF TrueI assms(2)] .
  have "owned new_ownership = {}" and "execs new_ownership = []" by (simp_all add: new_ownership_def owned_def)
  then show "owned s \<subseteq> (\<Union>q \<in> set qs. reported creates_container (fst q))"
    and "set (execs s) \<subseteq> (\<Union>q \<in> set qs. reported creates_exec (fst q))"
    using run_grows [of ev root new_ownership qs] unfolding assms(1) by simp_all
qed

section \<open>The container list\<close>

definition mine :: "ownership \<Rightarrow> json \<Rightarrow> bool" where
  "mine s j \<longleftrightarrow> (\<exists>cid. dec_id j [] = Some cid \<and> cid \<noteq> [] \<and> own_get s cid = cid)"

lemma keep_owned_filter: "keep_owned s items = Some ts \<Longrightarrow> ts = map snd (filter (\<lambda>(j, t). mine s j) items)"
  by (induction s items arbitrary: ts rule: keep_owned.induct) (auto simp: mine_def split: option.splits if_splits)

lemma keep_owned_total:
  "keep_owned s items =
     (if list_all (\<lambda>(j, t). dec_id j [] \<noteq> None) items then Some (map snd (filter (\<lambda>(j, t). mine s j) items)) else None)"
  by (induction s items rule: keep_owned.induct) (auto simp: mine_def split: option.splits)

lemma filter_written: "map snd (filter (\<lambda>(j, t). P j) (map (\<lambda>j. (j, f j)) js)) = map f (filter P js)"
  by (induction js) auto

text \<open>The text of a list with the containers of others left out.\<close>

definition own_list :: "ownership \<Rightarrow> (json \<times> string) list \<Rightarrow> string" where
  "own_list s items = marshal_raw (map snd (filter (\<lambda>(j, t). mine s j) items))"

text \<open>
  C21. The container list the jail gets is the daemon's list without the containers of others: of the
  items of the body, the ones whose id the proxy recorded for this jail, in the daemon's order and
  in its own text.  It is answered with an error instead, and no part of it passed on, exactly when the
  body is no list or breaks off inside an item, an item does not decode, the connection does not
  close cleanly, or the filtered list is longer than \<open>maxCreateBody\<close>.  For a list written as
  \<open>encoding/json\<close> writes it the jail gets, byte for byte, what would be written for the list of its own
  containers.
\<close>

theorem docker_list_is_filtered:
  assumes "lists_containers u" and "200 \<le> dr_status resp" and "dr_status resp < 300"
  shows "(snd (record_response s u resp) =
      (case list_items (dr_read_ok resp) (dr_body resp) of
         None \<Rightarrow> BadGateway
       | Some items \<Rightarrow>
           if list_all (\<lambda>(j, t). dec_id j [] \<noteq> None) items \<and> dr_close_ok resp \<and>
              length (own_list s items) \<le> 4 * 1024 * 1024
           then Relayed (dr_status resp) (own_list s items)
           else BadGateway)) \<and>
    (\<forall>js. list_all (\<lambda>j. wf_json j \<and> json_depth j \<le> maxNestingDepth \<and> dec_id j [] \<noteq> None) js \<and>
        dr_body resp = json_marshal (JArr js) \<and> dr_close_ok resp \<and>
        length (json_marshal (JArr (filter (mine s) js))) \<le> 4 * 1024 * 1024 \<longrightarrow>
      snd (record_response s u resp) = Relayed (dr_status resp) (json_marshal (JArr (filter (mine s) js))))"
proof (intro conjI allI impI)
  show reply: "snd (record_response s u resp) =
      (case list_items (dr_read_ok resp) (dr_body resp) of
         None \<Rightarrow> BadGateway
       | Some items \<Rightarrow>
           if list_all (\<lambda>(j, t). dec_id j [] \<noteq> None) items \<and> dr_close_ok resp \<and>
              length (own_list s items) \<le> 4 * 1024 * 1024
           then Relayed (dr_status resp) (own_list s items)
           else BadGateway)"
    using assms
    by (auto simp: record_response_def record_list_def filterList_def keep_owned_total own_list_def maxCreateBody_def
        split: option.split)
  fix js assume js: "list_all (\<lambda>j. wf_json j \<and> json_depth j \<le> maxNestingDepth \<and> dec_id j [] \<noteq> None) js \<and>
      dr_body resp = json_marshal (JArr js) \<and> dr_close_ok resp \<and>
      length (json_marshal (JArr (filter (mine s) js))) \<le> 4 * 1024 * 1024"
  then have "list_all (\<lambda>j. wf_json j \<and> json_depth j \<le> maxNestingDepth) js" by (auto simp: list_all_iff)
  then have i: "list_items (dr_read_ok resp) (dr_body resp) = Some (map (\<lambda>j. (j, json_marshal j)) js)"
    using list_items_written [of js] js by simp
  have w: "list_all wf_json (filter (mine s) js)" using js by (auto simp: list_all_iff)
  have "own_list s (map (\<lambda>j. (j, json_marshal j)) js) = json_marshal (JArr (filter (mine s) js))"
    by (simp add: own_list_def filter_written marshal_raw_written [OF w])
  moreover have "list_all (\<lambda>(j, t). dec_id j [] \<noteq> None) (map (\<lambda>j. (j, json_marshal j)) js)"
    using js by (auto simp: list_all_iff)
  ultimately show "snd (record_response s u resp) = Relayed (dr_status resp) (json_marshal (JArr (filter (mine s) js)))"
    using js unfolding reply i by simp
qed

section \<open>A sample jail\<close>

text \<open>A daemon that creates container \<open>c1\<close>, and lists it next to a foreign one.\<close>

definition sample_body :: json where
  "sample_body = JObj [(''Image'', JStr ''go''), (''hostconfig'', JObj [(''Binds'', JArr [JStr ''/w/p/src:/src:ro''])])]"

definition id_json :: "string \<Rightarrow> json" where
  "id_json cid = JObj [(''Id'', JStr cid)]"

definition create_text :: string where "create_text = json_marshal sample_body"
definition made_text :: string where "made_text = json_marshal (id_json ''c1'')"
definition all_text :: string where "all_text = json_marshal (JArr [id_json ''h9'', id_json ''c1''])"

lemma sample_wf:
  "wf_json sample_body" "wf_json (id_json ''c1'')" "wf_json (id_json ''h9'')"
  "json_depth sample_body = 3" "json_depth (id_json cid) = 1"
proof -
  have "list_all (\<lambda>s. list_all (\<lambda>c. byte_code c < 0x80) s)
    [''Image'', ''go'', ''hostconfig'', ''Binds'', ''/w/p/src:/src:ro'', ''Id'', ''c1'', ''h9'']" by code_simp
  then have v: "list_all valid_utf8 [''Image'', ''go'', ''hostconfig'', ''Binds'', ''/w/p/src:/src:ro'', ''Id'', ''c1'', ''h9'']"
    using ascii_valid unfolding list_all_iff by blast
  then show "wf_json sample_body" "wf_json (id_json ''c1'')" "wf_json (id_json ''h9'')"
    by (simp_all add: sample_body_def id_json_def)
qed (simp_all add: sample_body_def id_json_def list_max_def)

lemma sample_texts:
  "json_parse create_text = Some sample_body" "json_parse made_text = Some (id_json ''c1'')"
  "list_items ended all_text = Some (map (\<lambda>j. (j, json_marshal j)) [id_json ''h9'', id_json ''c1''])"
proof -
  have depth: "3 \<le> maxNestingDepth" "1 \<le> maxNestingDepth" by (simp_all add: maxNestingDepth_def)
  show "json_parse create_text = Some sample_body" "json_parse made_text = Some (id_json ''c1'')"
    unfolding create_text_def made_text_def using json_parse_written sample_wf depth by simp_all
  show "list_items ended all_text = Some (map (\<lambda>j. (j, json_marshal j)) [id_json ''h9'', id_json ''c1''])"
    unfolding all_text_def by (rule list_items_written) (use sample_wf depth in simp)
qed

lemma sample_lengths: "length create_text \<le> maxCreateBody" "length made_text \<le> maxCreateBody"
proof -
  have "length create_text = 58" "length made_text = 11" by code_simp+
  then show "length create_text \<le> maxCreateBody" "length made_text \<le> maxCreateBody"
    by (simp_all add: maxCreateBody_def)
qed

definition sample_daemon :: daemon where
  "sample_daemon = \<lparr>dm_get = (\<lambda>path. None),
     dm_serve = (\<lambda>u. \<lparr>dr_status = 201, dr_body = (if d_meth u = ''POST'' then made_text else all_text), dr_read_ok = True, dr_close_ok = True\<rparr>)\<rparr>"

definition create_req :: docker_req where
  "create_req = \<lparr>d_meth = ''POST'', d_path = ''/v1.45/containers/create'', d_query = [(''name'', ''web'')], d_body = Some create_text\<rparr>"

definition start_req :: docker_req where
  "start_req = \<lparr>d_meth = ''POST'', d_path = ''/v1.45/containers/web/start'', d_query = [], d_body = None\<rparr>"

abbreviation sample_serve :: "ownership \<Rightarrow> docker_req \<Rightarrow> ownership \<times> docker_event \<times> docker_reply \<times> docker_req list" where
  "sample_serve s r \<equiv> docker_serve (\<lambda>p. Some (clean p)) ''/w/p'' s sample_daemon r"

definition after_create :: ownership where
  "after_create = \<lparr>containers = [(''c1'', ''c1''), (''web'', ''c1'')], execs = []\<rparr>"

lemma dec_id_json: "dec_id (id_json cid) [] = Some cid"
  by (simp add: id_json_def dec_id_def by_name_def equal_fold_def)

lemma made_id: "unmarshal dec_id [] made_text = Some ''c1''"
  by (simp add: unmarshal_def sample_texts dec_id_json)

lemma sample_create_reason: "containerReason (\<lambda>p. Some (clean p)) ''/w/p'' create_text = None"
proof -
  have "(case dec_create sample_body zero_create of None \<Rightarrow> Some UnparsableCreate
    | Some b \<Rightarrow> createReason (\<lambda>p. Some (clean p)) ''/w/p'' b) = None" by code_simp
  then show ?thesis by (simp add: containerReason_def unmarshal_def sample_texts)
qed

lemma served_create: "sample_serve new_ownership create_req =
  (after_create, DockerAllowed ''POST'' ''/v1.45/containers/create'', Relayed 201 made_text, [create_req])"
proof -
  have 1: "destructiveReason create_req = None" "rootReason create_req = None" "guarded create_req"
    "creates_container create_req" "\<not> lists_containers create_req"
    "add_resource create_req ''c1'' new_ownership = after_create"
    by code_simp+
  have 2: "d_body create_req = Some create_text" "d_meth create_req = ''POST''" "d_path create_req = ''/v1.45/containers/create''"
    by (simp_all add: create_req_def)
  have "guardReason (\<lambda>p. Some (clean p)) ''/w/p'' create_req = None"
    using sample_lengths by (simp add: guardReason_def 1 2(1) create_filter [OF 1(4)] sample_create_reason)
  moreover have a: "authorize i new_ownership new_ownership create_req = Inr create_req" for i
    using creates_root [OF 1(4)] by (simp add: authorize_def authorize_container_def 2(2))
  moreover have "record_response new_ownership create_req (dm_serve sample_daemon create_req) =
      (after_create, Relayed 201 made_text)"
    using sample_lengths by (simp add: record_response_def record_create_def 1 2(2) sample_daemon_def made_id Let_def)
  ultimately show ?thesis by (simp add: docker_serve_def or_else_def 1 2)
qed

theorem docker_run_reaches_only_its_own_witness:
  "resource_ok after_create (start_req\<lparr>d_path := ''/v1.45/containers/c1/start''\<rparr>)"
proof -
  let ?h = "docker_handle (\<lambda>p. Some (clean p)) ''/w/p''"
  have h: "?h new_ownership (sample_daemon, create_req) = (after_create, [create_req])"
    by (simp add: docker_handle_def served_create)
  have s: "after_create = snd (docker_filter.run (\<lambda>p. Some (clean p)) ''/w/p'' new_ownership [(sample_daemon, create_req)])"
    by (simp add: h)
  have a: "authorize i after_create after_create start_req = Inr (start_req\<lparr>d_path := ''/v1.45/containers/c1/start''\<rparr>)" for i
    by code_simp
  have "destructiveReason start_req = None" "rootReason start_req = None" "\<not> guarded start_req" by code_simp+
  then have "start_req\<lparr>d_path := ''/v1.45/containers/c1/start''\<rparr> \<in> set (snd (?h after_create (sample_daemon, start_req)))"
    by (simp add: docker_handle_def docker_serve_def or_else_def a guardReason_def split: prod.splits)
  from docker_run_reaches_only_its_own [OF s this] show ?thesis by blast
qed

definition list_req :: docker_req where
  "list_req = \<lparr>d_meth = ''GET'', d_path = ''/containers/json'', d_query = [], d_body = None\<rparr>"

definition list_resp :: daemon_resp where
  "list_resp = \<lparr>dr_status = 200, dr_body = all_text, dr_read_ok = True, dr_close_ok = True\<rparr>"

theorem docker_list_is_filtered_witness:
  "snd (record_response after_create list_req list_resp) = Relayed 200 (json_marshal (JArr [id_json ''c1'']))"
proof -
  have g: "own_get after_create ''h9'' = []" "own_get after_create ''c1'' = ''c1''" by code_simp+
  have m: "\<not> mine after_create (id_json ''h9'')" "mine after_create (id_json ''c1'')"
    by (simp_all add: mine_def dec_id_json g)
  have c: "length (json_marshal (JArr [id_json ''c1''])) = 13" by code_simp
  have q: "lists_containers list_req" "200 \<le> dr_status list_resp" "dr_status list_resp < 300" by code_simp+
  from docker_list_is_filtered [OF q, of after_create, THEN conjunct2, rule_format, of "[id_json ''h9'', id_json ''c1'']"]
  show ?thesis by (simp add: m c sample_wf list_resp_def all_text_def maxNestingDepth_def dec_id_json)
qed

text \<open>
  Three limits of the filter, for the record: volume creation, which \<open>volumeReason\<close> is written for, is
  not on the endpoint allowlist; the query of a build is not looked at, so \<open>networkmode=host\<close> passes;
  and dot segments are not resolved before the endpoint is matched.
\<close>

lemma volume_create_unreachable:
  "dockerPath (d_path r) = ''volumes/create'' \<Longrightarrow> rootReason r = Some (NotAllowlisted ''volumes'')"
proof -
  have "hd (split_on slash ''volumes/create'') = ''volumes''" "''volumes'' \<notin> set allowedRoots" by code_simp+
  then show "dockerPath (d_path r) = ''volumes/create'' \<Longrightarrow> rootReason r = Some (NotAllowlisted ''volumes'')"
    by (simp add: rootReason_def apiRoot_dockerPath)
qed

lemma build_query_unchecked:
  "sample_serve s \<lparr>d_meth = ''POST'', d_path = ''/build'', d_query = [(''networkmode'', ''host'')], d_body = None\<rparr> =
     (s, DockerAllowed ''POST'' ''/build'', Relayed 201 made_text,
      [\<lparr>d_meth = ''POST'', d_path = ''/build'', d_query = [(''networkmode'', ''host'')], d_body = None\<rparr>])"
proof -
  let ?r = "\<lparr>d_meth = ''POST'', d_path = ''/build'', d_query = [(''networkmode'', ''host'')], d_body = None\<rparr>"
  let ?dm = "sample_daemon"
  have "destructiveReason ?r = None" "rootReason ?r = None" "guardReason (\<lambda>p. Some (clean p)) ''/w/p'' ?r = None"
    by code_simp+
  moreover have "authorize i s s ?r = Inr ?r" for i by code_simp
  moreover have "record_response s ?r (dm_serve ?dm ?r) = (s, Relayed 201 made_text)"
    by code_simp
  ultimately show ?thesis by (simp add: docker_serve_def or_else_def)
qed

lemma dot_segments_unresolved:
  "authorize inspect s t \<lparr>d_meth = ''GET'', d_path = ''/images/../containers/h9/json'', d_query = [], d_body = None\<rparr> =
     Inr \<lparr>d_meth = ''GET'', d_path = ''/images/../containers/h9/json'', d_query = [], d_body = None\<rparr>"
  by code_simp

end
