(* ===== verification/Resources.thy ===== *)
theory Resources
  imports Paths "HOL-Library.Word"
begin

text \<open>
  Resource limits: the cgroup of \<open>--mem-max\<close> (\<open>setupCgroup\<close>, \<open>cgroups.go\<close>), the rlimits of \<open>applyRlimits\<close>
  (\<open>helpers.go\<close>) at 64 bits, and the list of temp files that every exit removes.
\<close>

section \<open>The cgroup\<close>

text \<open>What the cgroup tree answers; a write is given the file and the text.\<close>

record cgroup_world =
  cg_self :: "string option"
  cg_subtree :: "string \<Rightarrow> string"
  cg_pid :: nat
  cg_mkdir_ok :: "string \<Rightarrow> bool"
  cg_write_ok :: "string \<Rightarrow> string \<Rightarrow> bool"
  cg_open_ok :: "string \<Rightarrow> bool"

datatype cgroup_why = NoSelfCgroup | NoV2Mount | NoMemoryController string | CannotCreate string | CannotOpen string

datatype cgroup_refusal = CapUnavailable cgroup_why | MemoryMaxRefused | PidsMaxRefused

text \<open>
  What was done: the directory whose handle is returned (\<open>None\<close>: no handle), the files written in
  order, and what was recorded as degraded.
\<close>

record cgroup_result =
  cr_dir :: "string option"
  cr_tracked :: "string list"
  cr_written :: "(string \<times> string) list"
  cr_degraded :: "string list"

definition unavailable :: "string \<Rightarrow> cgroup_result \<Rightarrow> cgroup_why \<Rightarrow> cgroup_refusal + cgroup_result" where
  "unavailable memMax r why =
     (if memMax \<noteq> [] then Inl (CapUnavailable why)
      else Inr (r\<lparr>cr_dir := None, cr_degraded := cr_degraded r @ [''cgroup-unavailable'']\<rparr>))"

definition self_cgroup :: "string \<Rightarrow> string" where
  "self_cgroup content = fold (\<lambda>l rel. case cut_prefix l ''0::'' of Some after \<Rightarrow> after | None \<Rightarrow> rel)
     (split_on (CHR 0x0A) content) []"

definition memory_step :: "cgroup_world \<Rightarrow> string \<Rightarrow> string \<Rightarrow> cgroup_result \<Rightarrow> cgroup_refusal + cgroup_result" where
  "memory_step w memMax dir r =
     (if memMax = [] then Inr r
      else let f = join_path [dir, ''memory.max'']; g = join_path [dir, ''memory.swap.max''] in
        if \<not> cg_write_ok w f memMax then Inl MemoryMaxRefused
        else let r = r\<lparr>cr_written := cr_written r @ [(f, memMax)]\<rparr> in
          Inr (if cg_write_ok w g ''0'' then r\<lparr>cr_written := cr_written r @ [(g, ''0'')]\<rparr>
               else r\<lparr>cr_degraded := cr_degraded r @ [''cgroup-swap'']\<rparr>))"

definition pids_step :: "cgroup_world \<Rightarrow> nat \<Rightarrow> string \<Rightarrow> cgroup_result \<Rightarrow> cgroup_refusal + cgroup_result" where
  "pids_step w pidsMax dir r =
     (if pidsMax = 0 then Inr r
      else let f = join_path [dir, ''pids.max''] in
        if \<not> cg_write_ok w f (itoa pidsMax) then Inl PidsMaxRefused
        else Inr (r\<lparr>cr_written := cr_written r @ [(f, itoa pidsMax)]\<rparr>))"

definition setupCgroup :: "cgroup_world \<Rightarrow> string \<Rightarrow> nat \<Rightarrow> cgroup_refusal + cgroup_result" where
  "setupCgroup w memMax pidsMax =
     (let r0 = \<lparr>cr_dir = None, cr_tracked = [], cr_written = [], cr_degraded = []\<rparr> in
      case cg_self w of
        None \<Rightarrow> unavailable memMax r0 NoSelfCgroup
      | Some content \<Rightarrow>
          let rel = self_cgroup content in
          if rel = [] then unavailable memMax r0 NoV2Mount
          else let parent = dir_of (join_path [''/sys/fs/cgroup'', rel]) in
            if \<not> contains_sub (cg_subtree w (join_path [parent, ''cgroup.subtree_control''])) ''memory''
            then unavailable memMax r0 (NoMemoryController parent)
            else let dir = join_path [parent, ''azkaban-'' @ itoa (cg_pid w)] in
              if \<not> cg_mkdir_ok w dir then unavailable memMax r0 (CannotCreate dir)
              else bindR (memory_step w memMax dir (r0\<lparr>cr_tracked := [dir]\<rparr>)) (\<lambda>r.
                   bindR (pids_step w pidsMax dir r) (\<lambda>r.
                   if \<not> cg_open_ok w dir then unavailable memMax r (CannotOpen dir)
                   else Inr (r\<lparr>cr_dir := Some dir\<rparr>))))"

text \<open>
  C36. A memory cap that was asked for is never silently missing: when \<open>--mem-max\<close> is given, either the
  run is refused, or the jail gets a handle to a cgroup in whose \<open>memory.max\<close> exactly that value was
  written, and that cgroup is on the list of what is removed at exit.
\<close>

theorem memory_cap_is_enforced_or_refused:
  assumes "memMax \<noteq> []" and "setupCgroup w memMax pidsMax = Inr r"
  shows "\<exists>dir. cr_dir r = Some dir \<and> dir \<in> set (cr_tracked r) \<and>
    (join_path [dir, ''memory.max''], memMax) \<in> set (cr_written r) \<and> ''cgroup-unavailable'' \<notin> set (cr_degraded r)"
  using assms
  by (auto simp: setupCgroup_def unavailable_def memory_step_def pids_step_def Let_def split: option.splits if_splits)

definition sample_cgroups :: cgroup_world where
  "sample_cgroups = \<lparr>cg_self = Some (''0::/user/app'' @ [CHR 0x0A]), cg_subtree = (\<lambda>p. ''cpu memory pids''), cg_pid = 7,
     cg_mkdir_ok = (\<lambda>d. True), cg_write_ok = (\<lambda>f t. True), cg_open_ok = (\<lambda>d. True)\<rparr>"

theorem memory_cap_is_enforced_or_refused_witness:
  "\<exists>r. setupCgroup sample_cgroups ''2G'' 4096 = Inr r \<and> cr_dir r = Some ''/sys/fs/cgroup/user/azkaban-7'' \<and>
     ''cgroup-unavailable'' \<notin> set (cr_degraded r)"
proof -
  have "\<exists>r. setupCgroup sample_cgroups ''2G'' 4096 = Inr r \<and> cr_dir r = Some ''/sys/fs/cgroup/user/azkaban-7''"
  proof -
    have s: "self_cgroup (''0::/user/app'' @ [CHR 0x0A]) = ''/user/app''"
      "dir_of (join_path [''/sys/fs/cgroup'', ''/user/app'']) = ''/sys/fs/cgroup/user''"
      "join_path [''/sys/fs/cgroup/user'', ''azkaban-7''] = ''/sys/fs/cgroup/user/azkaban-7''"
      "contains_sub ''cpu memory pids'' ''memory''" "itoa 7 = ''7''"
      by code_simp+
    show ?thesis
      by (simp add: setupCgroup_def sample_cgroups_def Let_def memory_step_def pids_step_def s [simplified])
  qed
  then obtain r where r: "setupCgroup sample_cgroups ''2G'' 4096 = Inr r" "cr_dir r = Some ''/sys/fs/cgroup/user/azkaban-7''" by blast
  from memory_cap_is_enforced_or_refused [OF _ r(1)] r show ?thesis by auto
qed

section \<open>Per-process limits\<close>

record rlimit =
  rl_cur :: "64 word"
  rl_max :: "64 word"

datatype resource = FSIZE | NPROC | CORE | NOFILE

definition maxFileSize :: "64 word" where "maxFileSize = 4 * 1024 * 1024 * 1024"
definition maxProcs :: "64 word" where "maxProcs = 4096"
definition maxFiles :: "64 word" where "maxFiles = 8192"

definition limit_table :: "(resource \<times> 64 word) list" where
  "limit_table = [(FSIZE, maxFileSize), (NPROC, maxProcs), (CORE, 0), (NOFILE, maxFiles)]"

text \<open>
  \<open>get_ok\<close> and \<open>set_ok\<close> say whether the system calls succeed; the result is the limits and the
  resources that were warned about.
\<close>

definition apply_limit ::
  "(resource \<Rightarrow> bool) \<Rightarrow> (resource \<Rightarrow> bool) \<Rightarrow> resource \<times> 64 word \<Rightarrow>
     (resource \<Rightarrow> rlimit) \<times> resource list \<Rightarrow> (resource \<Rightarrow> rlimit) \<times> resource list" where
  "apply_limit get_ok set_ok l st =
     (case (l, st) of ((res, cur), (lim, warned)) \<Rightarrow>
        if get_ok res \<and> rl_max (lim res) \<noteq> 0 \<and> rl_max (lim res) < cur then (lim, warned)
        else if set_ok res then (lim(res := \<lparr>rl_cur = cur, rl_max = cur\<rparr>), warned)
        else (lim, warned @ [res]))"

definition applyRlimits ::
  "(resource \<Rightarrow> bool) \<Rightarrow> (resource \<Rightarrow> bool) \<Rightarrow> (resource \<Rightarrow> rlimit) \<Rightarrow> (resource \<Rightarrow> rlimit) \<times> resource list" where
  "applyRlimits get_ok set_ok lim = fold (apply_limit get_ok set_ok) limit_table (lim, [])"

definition cap :: "resource \<Rightarrow> 64 word" where
  "cap res = (case res of FSIZE \<Rightarrow> maxFileSize | NPROC \<Rightarrow> maxProcs | CORE \<Rightarrow> 0 | NOFILE \<Rightarrow> maxFiles)"

text \<open>What one step leaves of a resource, and what a whole table does.\<close>

definition limited :: "(resource \<Rightarrow> bool) \<Rightarrow> (resource \<Rightarrow> bool) \<Rightarrow> resource \<Rightarrow> 64 word \<Rightarrow> rlimit \<Rightarrow> rlimit" where
  "limited get_ok set_ok res cur old =
     (if get_ok res \<and> rl_max old \<noteq> 0 \<and> rl_max old < cur then old
      else if set_ok res then \<lparr>rl_cur = cur, rl_max = cur\<rparr> else old)"

lemma apply_limits:
  assumes "fold (apply_limit get_ok set_ok) ls (lim, warned) = (lim', warned')" and "distinct (map fst ls)"
  shows "set warned \<subseteq> set warned' \<and> (res \<notin> fst ` set ls \<longrightarrow> lim' res = lim res) \<and>
    (\<forall>cur. (res, cur) \<in> set ls \<longrightarrow> lim' res = limited get_ok set_ok res cur (lim res) \<and>
       (rl_max (lim' res) \<le> cur \<or> res \<in> set warned'))"
  using assms
proof (induction ls arbitrary: lim warned)
  case (Cons l ls)
  obtain r c where l: "l = (r, c)" by fastforce
  obtain lim1 w1 where 1: "apply_limit get_ok set_ok (r, c) (lim, warned) = (lim1, w1)" by fastforce
  have step: "lim1 = lim(r := limited get_ok set_ok r c (lim r))" "set warned \<subseteq> set w1"
    "rl_max (lim1 r) \<le> c \<or> r \<in> set w1"
    using 1 by (auto simp: apply_limit_def limited_def split: if_splits)
  have "fold (apply_limit get_ok set_ok) ls (lim1, w1) = (lim', warned')" using Cons.prems(1) 1 l by simp
  note IH = Cons.IH [OF this]
  show ?case using IH step Cons.prems(2) l by (cases "res = r") (auto simp: image_iff)
qed simp

text \<open>
  C37. The limits hold and are never loosened: after \<open>applyRlimits\<close> each of the four resources has a hard
  limit no higher than the cap, unless setting it failed, which is warned about; and wherever the old hard
  limit could be read and was not zero, the new one is no higher than it.
\<close>

theorem rlimits_are_capped:
  assumes "applyRlimits get_ok set_ok lim = (lim', warned)"
  shows "(rl_max (lim' res) \<le> cap res \<or> res \<in> set warned) \<and>
    (get_ok res \<and> rl_max (lim res) \<noteq> 0 \<longrightarrow> rl_max (lim' res) \<le> rl_max (lim res))"
proof -
  have d: "distinct (map fst limit_table)" and c: "(res, cap res) \<in> set limit_table"
    by (simp add: limit_table_def, cases res) (simp_all add: limit_table_def cap_def)
  note l = apply_limits [OF assms [unfolded applyRlimits_def] d, of res]
  from l c have "lim' res = limited get_ok set_ok res (cap res) (lim res)" "rl_max (lim' res) \<le> cap res \<or> res \<in> set warned"
    by blast+
  then show ?thesis by (auto simp: limited_def)
qed

theorem rlimits_are_capped_witness:
  "\<exists>lim'. applyRlimits (\<lambda>r. True) (\<lambda>r. True) (\<lambda>r. \<lparr>rl_cur = 100, rl_max = 4000\<rparr>) = (lim', []) \<and>
     rl_max (lim' NPROC) \<le> 4000 \<and> rl_max (lim' CORE) = 0"
proof -
  let ?a = "applyRlimits (\<lambda>r. True) (\<lambda>r. True) (\<lambda>r. \<lparr>rl_cur = 100, rl_max = 4000\<rparr>)"
  obtain lim' where a: "?a = (lim', [])"
    by (simp add: applyRlimits_def limit_table_def apply_limit_def maxFileSize_def maxProcs_def maxFiles_def)
  with rlimits_are_capped [OF a, of NPROC] rlimits_are_capped [OF a, of CORE] show ?thesis by (auto simp: cap_def)
qed

section \<open>Temp files\<close>

definition tempTrack :: "string \<Rightarrow> string list \<Rightarrow> string list" where
  "tempTrack p tracked = tracked @ [p]"

text \<open>The paths removed, and the list left.\<close>

definition tempCleanup :: "string list \<Rightarrow> string list \<times> string list" where
  "tempCleanup tracked = (tracked, [])"

end
