(* ===== verification/Docker_Concurrent.thy ===== *)
theory Docker_Concurrent
  imports Docker_Properties Resources "HOL-Library.Multiset"
begin

text \<open>
  The container proxy under load (\<open>dockerproxy.go\<close>, \<open>dockerownership.go\<close>): the jail's requests are
  served by concurrent goroutines that share the ownership maps.  A request passes the filter and
  reads the maps, is then forwarded or refused after the daemon was asked what its reference means
  and the maps were read again, and at last its response is recorded; other requests may take steps
  in between, each lock being held for one reading or writing only.  The filtering of a container
  list, which reads the map once per entry, is one step here.
\<close>

section \<open>Steps\<close>

text \<open>A request in flight: with the maps as its first reading saw them, or sent to the daemon.\<close>

datatype flight = Arrived docker_req ownership | Sent docker_req

datatype docker_label =
    Denial docker_req docker_reason
  | Accept docker_req
  | Forward docker_req
  | Respond docker_req daemon_resp docker_reply

type_synonym docker_state = "ownership \<times> flight multiset"

definition filter_verdict ::
  "(string \<Rightarrow> string option) \<Rightarrow> string \<Rightarrow> docker_req \<Rightarrow> docker_reason option" where
  "filter_verdict ev root r = or_else (destructiveReason r) (or_else (rootReason r) (guardReason ev root r))"

inductive docker_step ::
  "(string \<Rightarrow> string option) \<Rightarrow> string \<Rightarrow>
     docker_state \<Rightarrow> docker_label \<Rightarrow> docker_state \<Rightarrow> bool"
  for ev root where
  filtered: "filter_verdict ev root r = Some reason \<Longrightarrow>
    docker_step ev root (s, F) (Denial r reason) (s, F)"
| accepted: "filter_verdict ev root r = None \<Longrightarrow>
    docker_step ev root (s, F) (Accept r) (s, add_mset (Arrived r s) F)"
| refused: "authorize (daemonInspect dm) s0 s r = Inl reason \<Longrightarrow>
    docker_step ev root (s, add_mset (Arrived r s0) F) (Denial r reason) (s, F)"
| forwarded: "authorize (daemonInspect dm) s0 s r = Inr u \<Longrightarrow>
    docker_step ev root (s, add_mset (Arrived r s0) F) (Forward u) (s, add_mset (Sent u) F)"
| responded: "record_response s u resp = (s', reply) \<Longrightarrow>
    docker_step ev root (s, add_mset (Sent u) F) (Respond u resp reply) (s', F)"

inductive_cases docker_stepE [elim]: "docker_step ev root c l d"

inductive docker_steps ::
  "(string \<Rightarrow> string option) \<Rightarrow> string \<Rightarrow>
     docker_state \<Rightarrow> docker_label list \<Rightarrow> docker_state \<Rightarrow> bool"
  for ev root c where
  idle: "docker_steps ev root c [] c"
| snoc: "docker_steps ev root c ls d \<Longrightarrow> docker_step ev root d l e \<Longrightarrow>
    docker_steps ev root c (ls @ [l]) e"

inductive_simps docker_steps_Nil [simp]: "docker_steps ev root c [] d"
inductive_simps docker_steps_snoc: "docker_steps ev root c (ls @ [l]) d"

lemma docker_steps_append:
  "docker_steps ev root d ks e \<Longrightarrow> docker_steps ev root c ls d \<Longrightarrow>
     docker_steps ev root c (ls @ ks) e"
proof (induction rule: docker_steps.induct)
  case (snoc ks d' l e)
  then show ?case using docker_steps.snoc [of ev root c "ls @ ks" d' l e] by simp
qed simp

section \<open>The handler is one schedule\<close>

definition forwards_of :: "docker_label list \<Rightarrow> docker_req list" where
  "forwards_of ls = List.map_filter (\<lambda>l. case l of Forward u \<Rightarrow> Some u | _ \<Rightarrow> None) ls"

lemma forwards_of_simps [simp]:
  "forwards_of [] = []" "forwards_of (Forward u # ls) = u # forwards_of ls" "forwards_of (Denial r x # ls) = forwards_of ls"
  "forwards_of (Accept r # ls) = forwards_of ls" "forwards_of (Respond u v y # ls) = forwards_of ls"
  "forwards_of (ls @ ks) = forwards_of ls @ forwards_of ks"
  by (simp_all add: forwards_of_def List.map_filter_def)

lemma docker_handle_verdict:
  "docker_handle ev root s (dm, r) =
     (case filter_verdict ev root r of
        Some reason \<Rightarrow> (s, [])
      | None \<Rightarrow> (case authorize (daemonInspect dm) s s r of
           Inl reason \<Rightarrow> (s, [])
         | Inr u \<Rightarrow> (fst (record_response s u (dm_serve dm u)), [u])))"
  unfolding docker_handle_def docker_serve_def filter_verdict_def [symmetric]
  by (simp split: option.split sum.split prod.split)

text \<open>A request served alone takes the steps without an interruption.\<close>

lemma serve_is_a_schedule:
  assumes "docker_handle ev root s (dm, r) = (s', us)"
  shows "\<exists>ls. docker_steps ev root (s, F) ls (s', F) \<and> forwards_of ls = us"
proof (cases "filter_verdict ev root r")
  case (Some reason)
  then have "docker_steps ev root (s, F) ([] @ [Denial r reason]) (s, F)"
    by (rule docker_steps.snoc [OF docker_steps.idle docker_step.filtered])
  with Some assms show ?thesis
    by (intro exI [of _ "[Denial r reason]"]) (simp add: docker_handle_verdict)
next
  case None
  then have a: "docker_steps ev root (s, F) ([] @ [Accept r]) (s, add_mset (Arrived r s) F)"
    by (rule docker_steps.snoc [OF docker_steps.idle docker_step.accepted])
  show ?thesis
  proof (cases "authorize (daemonInspect dm) s s r")
    case (Inl reason)
    then have "docker_steps ev root (s, F) (([] @ [Accept r]) @ [Denial r reason]) (s, F)"
      by (rule docker_steps.snoc [OF a docker_step.refused])
    with None Inl assms show ?thesis
      by (intro exI [of _ "[Accept r, Denial r reason]"]) (simp add: docker_handle_verdict)
  next
    case (Inr u)
    obtain t reply where resp: "record_response s u (dm_serve dm u) = (t, reply)" by fastforce
    have "docker_steps ev root (s, F) (([] @ [Accept r]) @ [Forward u]) (s, add_mset (Sent u) F)"
      using Inr by (rule docker_steps.snoc [OF a docker_step.forwarded])
    then have "docker_steps ev root (s, F)
        ((([] @ [Accept r]) @ [Forward u]) @ [Respond u (dm_serve dm u) reply]) (t, F)"
      by (rule docker_steps.snoc [OF _ docker_step.responded [OF resp]])
    with None Inr resp assms show ?thesis
      by (intro exI [of _ "[Accept r, Forward u, Respond u (dm_serve dm u) reply]"])
        (simp add: docker_handle_verdict)
  qed
qed

lemma run_is_a_schedule:
  "\<exists>ls. docker_steps ev root (s, F) ls (snd (docker_filter.run ev root s qs), F) \<and>
     forwards_of ls = map snd (fst (docker_filter.run ev root s qs))"
proof (induction qs arbitrary: s)
  case (Cons q qs)
  obtain s' us where h: "docker_handle ev root s (fst q, snd q) = (s', us)" by fastforce
  then obtain ls where 1: "docker_steps ev root (s, F) ls (s', F)" "forwards_of ls = us"
    using serve_is_a_schedule by blast
  obtain ks where 2: "docker_steps ev root (s', F) ks (snd (docker_filter.run ev root s' qs), F)"
    "forwards_of ks = map snd (fst (docker_filter.run ev root s' qs))" using Cons.IH by blast
  obtain tr t where r: "docker_filter.run ev root s' qs = (tr, t)" by fastforce
  from docker_steps_append [OF 2(1) 1(1)] 1(2) 2(2) h r show ?case
    by (intro exI [of _ "ls @ ks"]) (simp add: comp_def)
qed (intro exI [of _ "[]"], simp)

section \<open>Safety under interleaving\<close>

text \<open>The ids of the successful create responses in a trace.\<close>

definition reported_in :: "(docker_req \<Rightarrow> bool) \<Rightarrow> docker_label list \<Rightarrow> string set" where
  "reported_in creates ls = {cid. \<exists>u resp reply. Respond u resp reply \<in> set ls \<and> creates u \<and>
     200 \<le> dr_status resp \<and> dr_status resp < 300 \<and>
     unmarshal dec_id [] (take (maxCreateBody + 1) (dr_body resp)) = Some cid}"

definition seen_in :: "docker_label list \<Rightarrow> ownership \<Rightarrow> bool" where
  "seen_in ls s \<longleftrightarrow> owned s \<subseteq> reported_in creates_container ls \<and>
     set (execs s) \<subseteq> reported_in creates_exec ls"

definition flights_ok :: "docker_label list \<Rightarrow> docker_state \<Rightarrow> bool" where
  "flights_ok ls c \<longleftrightarrow> seen_in ls (fst c) \<and>
     (\<forall>r s0. Arrived r s0 \<in># snd c \<longrightarrow> seen_in ls s0 \<and> Accept r \<in> set ls) \<and>
     (\<forall>u. Sent u \<in># snd c \<longrightarrow> Forward u \<in> set ls)"

lemma reported_in_mono: "set ls \<subseteq> set ks \<Longrightarrow> reported_in creates ls \<subseteq> reported_in creates ks"
  unfolding reported_in_def by blast

lemma seen_in_mono: "seen_in ls s \<Longrightarrow> set ls \<subseteq> set ks \<Longrightarrow> seen_in ks s"
  unfolding seen_in_def using reported_in_mono by blast

lemma record_response_seen:
  assumes "record_response s u resp = (s', reply)" and "seen_in ls s"
  shows "seen_in (ls @ [Respond u resp reply]) s'"
proof -
  let ?ls = "ls @ [Respond u resp reply]"
  have s: "seen_in ?ls s" using assms(2) by (rule seen_in_mono) auto
  show ?thesis
  proof (cases "s' = s")
    case False
    then obtain cid where *: "s' = add_resource u cid s" "200 \<le> dr_status resp" "dr_status resp < 300"
      "creates_container u \<or> creates_exec u"
      "unmarshal dec_id [] (take (maxCreateBody + 1) (dr_body resp)) = Some cid"
      using record_response_state [OF assms(1)] by blast
    have r: "cid \<in> reported_in creates ?ls" if "creates u" for creates
      unfolding reported_in_def using that *(2,3,5) by auto
    show ?thesis
      using s owned_add [of u cid s] execs_add [of u cid s] *(1,4) r [of creates_container] r [of creates_exec]
      by (auto simp: seen_in_def split: if_splits)
  qed (use s in simp)
qed

lemma flights_ok_step:
  assumes "docker_step ev root c l d" and "flights_ok ls c"
  shows "flights_ok (ls @ [l]) d"
  using assms(1)
proof (cases rule: docker_step.cases)
  case (responded s u resp s' reply F)
  then show ?thesis
    using assms(2) record_response_seen [OF responded(4), of ls] seen_in_mono [of ls _ "ls @ [l]"]
    by (auto simp: flights_ok_def)
qed (use assms(2) seen_in_mono [of ls _ "ls @ [l]"] in \<open>auto simp: flights_ok_def\<close>)

lemma flights_ok_start: "flights_ok [] (new_ownership, {#})"
  by (simp add: flights_ok_def seen_in_def new_ownership_def owned_def)

lemma docker_steps_ok: "docker_steps ev root c ls d \<Longrightarrow> flights_ok [] c \<Longrightarrow> flights_ok ls d"
  by (induction rule: docker_steps.induct) (auto intro: flights_ok_step)

lemma responses_follow:
  assumes "docker_steps ev root c ls d" and "flights_ok [] c"
  shows "Respond v resp reply \<in> set ls \<Longrightarrow> Forward v \<in> set ls"
  using assms
proof (induction arbitrary: v resp reply rule: docker_steps.induct)
  case (snoc ls d l e)
  note ok = docker_steps_ok [OF snoc.hyps(1) snoc.prems(2)]
  have "Forward v \<in> set ls" if "l = Respond v resp reply"
    using snoc.hyps(2) unfolding that by (cases rule: docker_step.cases) (use ok in \<open>auto simp: flights_ok_def\<close>)
  with snoc.prems(1) snoc.IH [OF _ snoc.prems(2)] show ?case by auto
qed simp

lemma accepted_pass:
  assumes "docker_steps ev root c ls d"
  shows "Accept r \<in> set ls \<Longrightarrow> filter_verdict ev root r = None"
  using assms by (induction rule: docker_steps.induct) (auto elim: docker_step.cases)

lemma forward_is_authorized:
  assumes "docker_step ev root c (Forward u) d" and "flights_ok ls c"
  shows "resource_in (reported_in creates_container ls) (reported_in creates_exec ls) u"
  using assms(1)
proof (cases rule: docker_step.cases)
  case (forwarded dm s0 s r F)
  then have "seen_in ls s" "seen_in ls s0" using assms(2) by (auto simp: flights_ok_def)
  then show ?thesis using resource_in_mono [OF authorize_ok [OF forwarded(3)]] by (auto simp: seen_in_def)
qed

text \<open>
  C20. Under every interleaving of concurrent requests, with a daemon that may answer anything at any
  time, a request that is forwarded to the daemon was accepted by the filter, and names only
  containers and exec sessions whose ids the daemon has already reported, in the trace so far, as
  created for a request the proxy had forwarded.
\<close>

theorem concurrent_requests_reach_only_their_own:
  assumes "docker_steps ev root (new_ownership, {#}) (ls @ [Forward u]) c"
  shows "resource_in (reported_in creates_container ls) (reported_in creates_exec ls) u \<and>
    (\<forall>v resp reply. Respond v resp reply \<in> set ls \<longrightarrow> Forward v \<in> set ls) \<and>
    (\<exists>r dm s0 s. Accept r \<in> set ls \<and> filter_verdict ev root r = None \<and>
      authorize (daemonInspect dm) s0 s r = Inr u)"
proof (intro conjI)
  obtain d where d: "docker_steps ev root (new_ownership, {#}) ls d"
    and f: "docker_step ev root d (Forward u) c"
    using assms by (auto simp: docker_steps_snoc)
  then have ok: "flights_ok ls d" using docker_steps_ok flights_ok_start by blast
  then show "resource_in (reported_in creates_container ls) (reported_in creates_exec ls) u"
    using forward_is_authorized [OF f] by blast
  show "\<exists>r dm s0 s. Accept r \<in> set ls \<and> filter_verdict ev root r = None \<and>
      authorize (daemonInspect dm) s0 s r = Inr u"
    using f ok accepted_pass [OF d] by (cases rule: docker_step.cases) (auto simp: flights_ok_def)
  show "\<forall>v resp reply. Respond v resp reply \<in> set ls \<longrightarrow> Forward v \<in> set ls"
    using responses_follow [OF d flights_ok_start] by simp
qed

text \<open>
  A race the sequential handler does not have: the start of a container is accepted, and read as
  unknown, before its creation is recorded, and is forwarded after it.
\<close>

definition racing_daemon :: daemon where
  "racing_daemon = \<lparr>dm_get = (\<lambda>p. Some (200, made_text)), dm_serve = dm_serve sample_daemon\<rparr>"

lemma made_first: "decode_first dec_id [] made_text = Some ''c1''"
proof -
  have "json_first (json_marshal (id_json ''c1'') @ []) = Some (id_json ''c1'', [])"
    by (rule json_first_written) (simp_all add: sample_wf maxNestingDepth_def stops_def)
  then show ?thesis by (simp add: decode_first_def made_text_def dec_id_json)
qed

theorem concurrent_requests_reach_only_their_own_witness:
  "\<exists>ls c. docker_steps (\<lambda>p. Some (clean p)) ''/w/p'' (new_ownership, {#})
      (Accept start_req # ls @ [Forward (start_req\<lparr>d_path := ''/v1.45/containers/c1/start''\<rparr>)]) c \<and>
    resource_in (reported_in creates_container (Accept start_req # ls))
      (reported_in creates_exec (Accept start_req # ls)) (start_req\<lparr>d_path := ''/v1.45/containers/c1/start''\<rparr>)"
proof -
  let ?steps = "docker_steps (\<lambda>p. Some (clean p)) ''/w/p''"
  let ?u = "start_req\<lparr>d_path := ''/v1.45/containers/c1/start''\<rparr>"
  have "destructiveReason start_req = None" "rootReason start_req = None" "\<not> guarded start_req" by code_simp+
  then have "filter_verdict (\<lambda>p. Some (clean p)) ''/w/p'' start_req = None"
    by (simp add: filter_verdict_def guardReason_def)
  then have 1: "?steps (new_ownership, {#}) ([] @ [Accept start_req]) (new_ownership, {#Arrived start_req new_ownership#})"
    by (rule docker_steps.snoc [OF docker_steps.idle docker_step.accepted])
  have "docker_handle (\<lambda>p. Some (clean p)) ''/w/p'' new_ownership (sample_daemon, create_req) =
      (after_create, [create_req])"
    by (simp add: docker_handle_def served_create)
  then obtain ls where 2: "?steps (new_ownership, {#Arrived start_req new_ownership#}) ls (after_create, {#Arrived start_req new_ownership#})"
    using serve_is_a_schedule by blast
  have "daemonInspect racing_daemon = (\<lambda>ref. ''c1'')"
    using sample_lengths(2) by (intro ext) (simp add: daemonInspect_def racing_daemon_def made_first)
  moreover have "authorize (\<lambda>ref. ''c1'') new_ownership after_create start_req = Inr ?u" by code_simp
  ultimately have "authorize (daemonInspect racing_daemon) new_ownership after_create start_req = Inr ?u"
    by simp
  then have "?steps (new_ownership, {#}) ((([] @ [Accept start_req]) @ ls) @ [Forward ?u]) (after_create, {#Sent ?u#})"
    by (rule docker_steps.snoc [OF docker_steps_append [OF 2 1] docker_step.forwarded])
  with concurrent_requests_reach_only_their_own [OF this] show ?thesis by auto
qed

section \<open>What a forwarded request is\<close>



section \<open>Starting\<close>

datatype docker_start_error = NoSocketDir | NoDockerListener

record docker_proxy =
  dp_sock :: string
  dp_upstream :: string
  dp_root :: string
  dp_state :: docker_state

text \<open>
  \<open>startDockerFilterProxy\<close>: \<open>dir\<close> is the temp directory made for the socket (\<open>None\<close>: none could be made);
  the tracked temp paths are part of the result.
\<close>

definition startDockerFilterProxy ::
  "(string \<Rightarrow> string option) \<Rightarrow> string option \<Rightarrow> (string \<Rightarrow> bool) \<Rightarrow> string \<Rightarrow> string \<Rightarrow> string list \<Rightarrow>
     (docker_start_error + docker_proxy) \<times> string list" where
  "startDockerFilterProxy ev dir listen_ok realSock cwd tracked =
     (case dir of
        None \<Rightarrow> (Inl NoSocketDir, tracked)
      | Some d \<Rightarrow>
          let tracked = tempTrack d tracked; sock = join_path [d, ''docker.sock''] in
          if \<not> listen_ok sock then (Inl NoDockerListener, tracked)
          else (Inr \<lparr>dp_sock = sock, dp_upstream = realSock, dp_root = realPath ev cwd,
                 dp_state = (new_ownership, {#})\<rparr>, tracked))"

lemma started_proxy_is_fresh:
  assumes "startDockerFilterProxy ev dir listen_ok realSock cwd tracked = (Inr p, tracked')"
  shows "flights_ok [] (dp_state p)"
    and "bindReason ev (dp_root p) (src @ CHR '':'' # rest) = None \<Longrightarrow> CHR '':'' \<notin> set src \<Longrightarrow>
      realPath ev src = realPath ev cwd \<or> has_prefix (realPath ev src) (realPath ev cwd @ ''/'')"
    and "\<exists>d. tracked' = tracked @ [d] \<and> dp_sock p = join_path [d, ''docker.sock'']"
proof -
  from assms obtain d where p: "dp_root p = realPath ev cwd" "dp_state p = (new_ownership, {#})"
    "dp_sock p = join_path [d, ''docker.sock'']" "tracked' = tracked @ [d]"
    by (auto simp: startDockerFilterProxy_def tempTrack_def Let_def split: option.splits if_splits)
  show "flights_ok [] (dp_state p)" unfolding p(2) by (rule flights_ok_start)
  show "\<exists>d. tracked' = tracked @ [d] \<and> dp_sock p = join_path [d, ''docker.sock'']" using p(3,4) by blast
  show "realPath ev src = realPath ev cwd \<or> has_prefix (realPath ev src) (realPath ev cwd @ ''/'')"
    if "bindReason ev (dp_root p) (src @ CHR '':'' # rest) = None" and c: "CHR '':'' \<notin> set src"
  proof -
    have "cut_at (src @ CHR '':'' # rest) (CHR '':'') = (src, rest, True)" using c by (simp add: cut_at_found)
    then show ?thesis using that(1) by (auto simp: bindReason_def pathWithin_def p(1) Let_def split: if_splits)
  qed
qed

end
