(* ===== verification/Elevate_Filter.thy ===== *)
theory Elevate_Filter
  imports Prelude "HOL-Library.Word"
begin

unbundle bit_operations_syntax

text \<open>
  The system-call filter of \<open>elevate.go\<close>, and what the supervisor decodes from a trapped call.  The
  classic BPF machine is given for the four opcodes the filter is written in (load a 32-bit word of
  \<open>struct seccomp_data\<close>, two conditional jumps, return); jumps only go forward, so it always stops.
\<close>

section \<open>The program and its machine\<close>

record sockFilter =
  f_code :: "16 word"
  f_jt :: "8 word"
  f_jf :: "8 word"
  f_k :: "32 word"

record seccompData =
  sd_nr :: "32 word"
  sd_arch :: "32 word"
  sd_args :: "nat \<Rightarrow> 64 word"

definition instr :: "16 word \<Rightarrow> 8 word \<Rightarrow> 8 word \<Rightarrow> 32 word \<Rightarrow> sockFilter" where
  "instr c t f k = \<lparr>f_code = c, f_jt = t, f_jf = f, f_k = k\<rparr>"

definition seccompRetUserNotif :: "32 word" where "seccompRetUserNotif = 0x7fc00000"
definition seccompRetAllow :: "32 word" where "seccompRetAllow = 0x7fff0000"

definition bpf_ld :: "16 word" where "bpf_ld = 0x20"
definition bpf_jeq :: "16 word" where "bpf_jeq = 0x15"
definition bpf_jge :: "16 word" where "bpf_jge = 0x35"
definition bpf_ret :: "16 word" where "bpf_ret = 0x06"

lemmas bpf_opcodes = bpf_ld_def bpf_jeq_def bpf_jge_def bpf_ret_def

definition auditArch :: "string \<Rightarrow> 32 word \<times> bool" where
  "auditArch goarch =
     (if goarch = ''amd64'' then (0xc000003e, True)
      else if goarch = ''arm64'' then (0xc00000b7, True)
      else (0, False))"

definition openat2Syscall :: "32 word" where "openat2Syscall = 437"

definition openSyscall :: "string \<Rightarrow> 32 word" where
  "openSyscall goarch = (if goarch = ''arm64'' then 56 else 257)"

definition elevationFilter :: "string \<Rightarrow> sockFilter list" where
  "elevationFilter goarch =
     (let arch = fst (auditArch goarch); openat = openSyscall goarch in
      [instr bpf_ld 0 0 4,
       instr bpf_jeq 1 0 arch,
       instr bpf_ret 0 0 seccompRetAllow,
       instr bpf_ld 0 0 0,
       instr bpf_jge 0 1 0x40000000,
       instr bpf_ret 0 0 seccompRetAllow,
       instr bpf_jeq 2 0 openat,
       instr bpf_jeq 1 0 openat2Syscall,
       instr bpf_ret 0 0 seccompRetAllow,
       instr bpf_ret 0 0 seccompRetUserNotif])"

definition installElevationFilter :: "string \<Rightarrow> bool \<Rightarrow> (sockFilter list \<Rightarrow> int option) \<Rightarrow> int option" where
  "installElevationFilter goarch no_new_privs seccomp =
     (if \<not> snd (auditArch goarch) then None
      else if \<not> no_new_privs then None
      else seccomp (elevationFilter goarch))"

text \<open>The words of \<open>struct seccomp_data\<close> the filter loads, by their offset.\<close>

definition seccomp_load :: "seccompData \<Rightarrow> 32 word \<Rightarrow> 32 word option" where
  "seccomp_load d off = (if off = 0 then Some (sd_nr d) else if off = 4 then Some (sd_arch d) else None)"

definition jump :: "sockFilter \<Rightarrow> bool \<Rightarrow> nat" where
  "jump i taken = Suc (unat (if taken then f_jt i else f_jf i))"

function bpf_run :: "(32 word \<Rightarrow> 32 word option) \<Rightarrow> sockFilter list \<Rightarrow> nat \<Rightarrow> 32 word \<Rightarrow> 32 word option" where
  "bpf_run load prog pc a =
     (if length prog \<le> pc then None
      else let i = prog ! pc in
        if f_code i = bpf_ld then (case load (f_k i) of None \<Rightarrow> None | Some v \<Rightarrow> bpf_run load prog (Suc pc) v)
        else if f_code i = bpf_jeq then bpf_run load prog (pc + jump i (a = f_k i)) a
        else if f_code i = bpf_jge then bpf_run load prog (pc + jump i (a \<ge> f_k i)) a
        else if f_code i = bpf_ret then Some (f_k i)
        else None)"
  by pat_completeness auto
termination
  by (relation "measure (\<lambda>(load, prog, pc, a). length prog - pc)") (auto simp: jump_def)

declare bpf_run.simps [simp del]

section \<open>Programs the kernel accepts\<close>

text \<open>
  Every load is of a readable word, every jump stays inside, and the last instruction returns:
  such a program always gives a verdict, one of its return values.
\<close>

definition instr_ok :: "(32 word \<Rightarrow> bool) \<Rightarrow> sockFilter list \<Rightarrow> nat \<Rightarrow> bool" where
  "instr_ok readable prog pc \<longleftrightarrow>
     (let i = prog ! pc in
        f_code i = bpf_ret \<or>
        f_code i = bpf_ld \<and> readable (f_k i) \<and> Suc pc < length prog \<or>
        f_code i \<in> {bpf_jeq, bpf_jge} \<and> pc + jump i True < length prog \<and> pc + jump i False < length prog)"

definition bpf_ok :: "(32 word \<Rightarrow> bool) \<Rightarrow> sockFilter list \<Rightarrow> bool" where
  "bpf_ok readable prog \<longleftrightarrow> list_all (instr_ok readable prog) [0..<length prog]"

lemma bpf_okD: "bpf_ok readable prog \<Longrightarrow> pc < length prog \<Longrightarrow> instr_ok readable prog pc"
  by (simp add: bpf_ok_def list_all_iff)

definition verdicts :: "sockFilter list \<Rightarrow> 32 word set" where
  "verdicts prog = f_k ` {i \<in> set prog. f_code i = bpf_ret}"

lemma opcodes_distinct [simp]:
  "bpf_ret \<noteq> bpf_ld" "bpf_ret \<noteq> bpf_jeq" "bpf_ret \<noteq> bpf_jge" "bpf_jeq \<noteq> bpf_ld" "bpf_jge \<noteq> bpf_ld" "bpf_jge \<noteq> bpf_jeq"
  by (simp_all add: bpf_opcodes)

lemma jump_bound: "pc + jump i True < n \<Longrightarrow> pc + jump i False < n \<Longrightarrow> pc + jump i b < n"
  by (cases b) simp_all

lemma bpf_run_total:
  assumes ok: "bpf_ok (\<lambda>k. load k \<noteq> None) prog" and "pc < length prog"
  shows "\<exists>v \<in> verdicts prog. bpf_run load prog pc a = Some v"
  using assms(2)
proof (induction "length prog - pc" arbitrary: pc a rule: less_induct)
  case less
  let ?i = "prog ! pc"
  have smaller: "length prog - (pc + jump ?i b) < length prog - pc" "length prog - Suc pc < length prog - pc" for b
    using less.prems by (simp_all add: jump_def diff_less_mono2)
  from bpf_okD [OF ok less.prems] consider
      "f_code ?i = bpf_ret"
    | v where "f_code ?i = bpf_ld" "load (f_k ?i) = Some v" "Suc pc < length prog"
    | "f_code ?i = bpf_jeq \<or> f_code ?i = bpf_jge" "pc + jump ?i True < length prog" "pc + jump ?i False < length prog"
    by (auto simp: instr_ok_def Let_def)
  then show ?case
  proof cases
    case 1
    then have "f_k ?i \<in> verdicts prog" using less.prems by (auto simp: verdicts_def)
    then show ?thesis using 1 less.prems by (subst bpf_run.simps) (simp add: Let_def)
  next
    case 2
    then show ?thesis using less.hyps [OF smaller(2), of v] less.prems
      by (subst bpf_run.simps) (simp add: Let_def)
  next
    case 3
    then have "pc + jump ?i b < length prog" for b using jump_bound by blast
    then show ?thesis using less.hyps [OF smaller(1)] 3 less.prems
      by (subst bpf_run.simps) (auto simp: Let_def)
  qed
qed

lemma elevationFilter_ok: "bpf_ok (\<lambda>k. k = 0 \<or> k = 4) (elevationFilter goarch)"
  by (simp add: bpf_ok_def elevationFilter_def Let_def instr_def instr_ok_def jump_def upt_rec bpf_opcodes)

lemma bpf_step:
  "pc < length prog \<Longrightarrow> prog ! pc = instr bpf_ret t f k \<Longrightarrow> bpf_run load prog pc a = Some k"
  "pc < length prog \<Longrightarrow> prog ! pc = instr bpf_ld t f k \<Longrightarrow> load k = Some v \<Longrightarrow>
     bpf_run load prog pc a = bpf_run load prog (Suc pc) v"
  "pc < length prog \<Longrightarrow> prog ! pc = instr bpf_jeq t f k \<Longrightarrow>
     bpf_run load prog pc a = bpf_run load prog (pc + Suc (unat (if a = k then t else f))) a"
  "pc < length prog \<Longrightarrow> prog ! pc = instr bpf_jge t f k \<Longrightarrow>
     bpf_run load prog pc a = bpf_run load prog (pc + Suc (unat (if a \<ge> k then t else f))) a"
  by (subst bpf_run.simps; simp add: instr_def jump_def Let_def)+

text \<open>
  C22. The filter traps exactly the two open calls of its own architecture: for every
  architecture, syscall number and argument, it stops with "notify the supervisor" when the call is
  \<open>openat\<close> or \<open>openat2\<close> on that architecture, and with "allow" otherwise, so
  what it does not understand is left to Landlock.
\<close>

theorem filter_traps_opens_only:
  "bpf_run (seccomp_load d) (elevationFilter goarch) 0 0 =
     Some (if sd_arch d = fst (auditArch goarch) \<and> (sd_nr d = openSyscall goarch \<or> sd_nr d = openat2Syscall)
           then seccompRetUserNotif else seccompRetAllow)"
proof -
  have small: "openSyscall goarch < 0x40000000" "openat2Syscall < 0x40000000"
    by (simp_all add: openSyscall_def openat2Syscall_def)
  then have "sd_nr d \<ge> 0x40000000 \<Longrightarrow> sd_nr d \<noteq> openSyscall goarch \<and> sd_nr d \<noteq> openat2Syscall" by auto
  let ?P = "elevationFilter goarch" and ?R = "\<lambda>pc. bpf_run (seccomp_load d) (elevationFilter goarch) pc"
  have P: "length ?P = 10" "?P ! 0 = instr bpf_ld 0 0 4" "?P ! Suc 0 = instr bpf_jeq 1 0 (fst (auditArch goarch))"
    "?P ! 2 = instr bpf_ret 0 0 seccompRetAllow" "?P ! 3 = instr bpf_ld 0 0 0" "?P ! 4 = instr bpf_jge 0 1 0x40000000"
    "?P ! 5 = instr bpf_ret 0 0 seccompRetAllow" "?P ! 6 = instr bpf_jeq 2 0 (openSyscall goarch)"
    "?P ! 7 = instr bpf_jeq 1 0 openat2Syscall" "?P ! 8 = instr bpf_ret 0 0 seccompRetAllow"
    "?P ! 9 = instr bpf_ret 0 0 seccompRetUserNotif"
    by (simp_all add: elevationFilter_def Let_def)
  have ret: "?R 9 a = Some seccompRetUserNotif" "?R 8 a = Some seccompRetAllow" "?R 5 a = Some seccompRetAllow"
    "?R 2 a = Some seccompRetAllow" for a
    using bpf_step(1) [of 9 ?P] bpf_step(1) [of 8 ?P] bpf_step(1) [of 5 ?P] bpf_step(1) [of 2 ?P] by (auto simp: P)
  have 7: "?R 7 a = (if a = openat2Syscall then Some seccompRetUserNotif else Some seccompRetAllow)" for a
    using bpf_step(3) [of 7 ?P] by (simp add: P ret)
  have 6: "?R 6 a = (if a = openSyscall goarch then Some seccompRetUserNotif else ?R 7 a)" for a
    using bpf_step(3) [of 6 ?P] by (simp add: P ret)
  have 4: "?R 4 a = (if a \<ge> 0x40000000 then Some seccompRetAllow else ?R 6 a)" for a
    using bpf_step(4) [of 4 ?P] by (simp add: P ret)
  have 3: "?R 3 a = ?R 4 (sd_nr d)" for a
    using bpf_step(2) [of 3 ?P] by (simp add: P seccomp_load_def)
  have 1: "?R (Suc 0) a = (if a = fst (auditArch goarch) then ?R 3 a else Some seccompRetAllow)" for a
    using bpf_step(3) [of "Suc 0" ?P] ret(4) by (simp add: P numeral_3_eq_3 numeral_2_eq_2)
  have "?R 0 0 = ?R (Suc 0) (sd_arch d)"
    using bpf_step(2) [of 0 ?P] by (simp add: P seccomp_load_def)
  then show ?thesis using small by (simp only: 1 3 4 6 7) (auto simp: not_le [symmetric])
qed

section \<open>Decoding the trapped call\<close>

text \<open>A buffer of \<open>open_how\<close> is little-endian; a short one reads as zero past its end.\<close>

type_synonym byte = "8 word"

definition le64 :: "byte list \<Rightarrow> nat \<Rightarrow> 64 word" where
  "le64 b off =
     (if off + 8 > length b then 0
      else fold (\<lambda>i v. push_bit 8 v OR ucast (b ! (off + i))) [7, 6, 5, 4, 3, 2, 1, 0] 0)"

record openHow =
  oh_flags :: "64 word"
  oh_mode :: "64 word"
  oh_resolve :: "64 word"

text \<open>
  A read of another process's memory, as \<open>os.Open\<close> and \<open>ReadAt\<close> of \<open>/proc/pid/mem\<close> give it: \<open>None\<close> when
  the file does not open, else the bytes read and whether an error came with them.
\<close>

type_synonym memory = "64 word \<Rightarrow> nat \<Rightarrow> (byte list \<times> bool) option"

definition maxPathLen :: nat where "maxPathLen = 4096"

definition readPath :: "memory \<Rightarrow> 64 word \<Rightarrow> string option" where
  "readPath mem addr =
     (case mem addr maxPathLen of
        None \<Rightarrow> None
      | Some (bs, err) \<Rightarrow>
          if bs = [] \<and> err then None
          else if 0 \<in> set bs then Some (map (\<lambda>w. char_of (unat w)) (takeWhile (\<lambda>w. w \<noteq> 0) bs))
          else None)"

definition readOpenHow :: "memory \<Rightarrow> 64 word \<Rightarrow> 64 word \<Rightarrow> openHow option" where
  "readOpenHow mem addr sz =
     (if sz < 8 then None
      else let len = (if sz < 24 then unat sz else 24) in
        (case mem addr len of
           None \<Rightarrow> None
         | Some (bs, err) \<Rightarrow>
             if length bs < 8 \<and> err then None
             else let buf = bs @ replicate (len - length bs) 0 in
               Some \<lparr>oh_flags = le64 buf 0, oh_mode = le64 buf 8, oh_resolve = le64 buf 16\<rparr>))"

definition wantsWrite :: "64 word \<Rightarrow> bool" where
  "wantsWrite flags \<longleftrightarrow>
     (flags AND 0x3 \<noteq> 0 \<or> flags AND (0x40 OR 0x200 OR 0x400 OR 0x410000) \<noteq> 0)"

lemma wantsWrite_mask: "wantsWrite flags \<longleftrightarrow> flags AND 0x410643 \<noteq> 0"
proof -
  have "flags AND 0x410643 = (flags AND 0x3) OR (flags AND 0x410640)"
    by (simp only: bit.conj_disj_distrib [symmetric]) simp
  then show ?thesis by (simp add: wantsWrite_def or_eq_0_iff)
qed

definition le_bytes :: "64 word \<Rightarrow> byte list" where
  "le_bytes w = map (\<lambda>i. ucast (drop_bit (8 * i) w)) [0, 1, 2, 3, 4, 5, 6, 7]"

lemma byte_step: "push_bit 8 (drop_bit 8 v) OR ucast (ucast v :: byte) = (v :: 64 word)"
  by (rule bit_word_eqI) (auto simp: bit_push_bit_iff bit_drop_bit_eq bit_or_iff bit_ucast_iff not_le)

lemma le64_step: "push_bit 8 (drop_bit (8 * Suc i) w) OR ucast (ucast (drop_bit (8 * i) w) :: byte) = drop_bit (8 * i) (w :: 64 word)"
  using byte_step [of "drop_bit (8 * i) w"] by (simp add: drop_bit_drop_bit ac_simps)

text \<open>
  The kernel's little-endian encoding of a 64-bit field is read back exactly, wherever the field
  stands in the buffer.
\<close>

lemma le64_roundtrip: "le64 (pre @ le_bytes w @ post) (length pre) = w"
proof -
  let ?b = "\<lambda>i. ucast (drop_bit (8 * i) w) :: byte"
  have len: "length (le_bytes w) = 8" by (simp add: le_bytes_def)
  have b: "le_bytes w ! i = ?b i" if "i \<in> {0, Suc 0, 2, 3, 4, 5, 6, 7}" for i
    using that by (auto simp: le_bytes_def)
  have nth: "(le_bytes w @ post) ! i = ?b i" if i: "i \<in> {0, Suc 0, 2, 3, 4, 5, 6, 7}" for i
  proof -
    have "i < 8" using i by (elim insertE) simp_all
    then show ?thesis using b [OF i] by (simp only: nth_append len if_True)
  qed
  have "length (pre @ le_bytes w @ post) \<ge> length pre + 8" by (simp add: le_bytes_def)
  then have "le64 (pre @ le_bytes w @ post) (length pre) =
      fold (\<lambda>i v. push_bit 8 v OR ucast (?b i)) [7, 6, 5, 4, 3, 2, 1, 0] 0"
    unfolding le64_def by (simp add: nth)
  also have "\<dots> = w"
  proof -
    have "drop_bit 64 w = 0" by (rule bit_word_eqI) (auto simp: bit_drop_bit_eq dest: bit_imp_le_length)
    then show ?thesis
      using le64_step [of 7 w] le64_step [of 6 w] le64_step [of 5 w] le64_step [of 4 w] le64_step [of 3 w]
        le64_step [of 2 w] le64_step [of 1 w] le64_step [of 0 w]
      by simp
  qed
  finally show ?thesis .
qed

end
