(* ===== verification/Elevate.thy ===== *)
theory Elevate
  imports Complex_Main Elevate_Filter Path_Elements "HOL-Library.AList"
begin

text \<open>
  The elevation supervisor (\<open>elevate.go\<close>): the approver on the terminal with its token bucket, and
  the loop that answers trapped opens.  What the kernel and the terminal do for one notification is
  a \<open>trap\<close>; the supervisor's answers are the ioctls it issues, in order.  Token arithmetic is exact
  (\<open>rat\<close>) where the code uses \<open>float64\<close>; times are nanoseconds of the monotonic clock.
\<close>

section \<open>The approver\<close>

record request =
  rq_pid :: "32 word"
  rq_raw :: string
  rq_path :: string

datatype tty_line = NoTerminal | TooMany string | Prompt "32 word" string "string option" | NoAnswer

record terminal =
  t_tokens :: rat
  t_filled :: int
  t_rate :: rat
  t_burst :: rat
  t_blocked :: bool
  t_said :: bool
  t_out :: "tty_line list"

text \<open>What one question meets: the clock when it is read, and what the terminal's read returns.\<close>

record tty_input =
  in_now :: int
  in_answer :: "string option"

definition approvalRate :: rat where "approvalRate = 10"
definition approvalBurst :: rat where "approvalBurst = 5"

definition newTerminalApprover :: "int \<Rightarrow> bool \<Rightarrow> terminal" where
  "newTerminalApprover now tty_ok =
     \<lparr>t_tokens = approvalBurst, t_filled = now, t_rate = approvalRate, t_burst = approvalBurst,
      t_blocked = (\<not> tty_ok), t_said = False, t_out = []\<rparr>"

definition seconds :: "int \<Rightarrow> rat" where
  "seconds ns = rat_of_int ns / 1000000000"

definition take_token :: "int \<Rightarrow> terminal \<Rightarrow> bool \<times> terminal" where
  "take_token now a =
     (let filled = t_tokens a + seconds (now - t_filled a) * t_rate a;
          tokens = (if filled > t_burst a then t_burst a else filled) in
      if tokens < 1 then (False, a\<lparr>t_tokens := tokens, t_filled := now\<rparr>)
      else (True, a\<lparr>t_tokens := tokens - 1, t_filled := now\<rparr>))"

definition say :: "tty_line \<Rightarrow> terminal \<Rightarrow> terminal" where
  "say l a = a\<lparr>t_out := t_out a @ [l]\<rparr>"

definition terminal_approve :: "tty_input \<Rightarrow> request \<Rightarrow> terminal \<Rightarrow> bool \<times> terminal" where
  "terminal_approve x r a =
     (if t_blocked a then (False, if t_said a then a else say NoTerminal (a\<lparr>t_said := True\<rparr>))
      else (case take_token (in_now x) a of
        (False, a) \<Rightarrow> (False, say (TooMany (rq_path r)) a)
      | (True, a) \<Rightarrow>
          let a = say (Prompt (rq_pid r) (rq_path r) (if rq_raw r \<noteq> rq_path r then Some (rq_raw r) else None)) a in
          (case in_answer x of
             None \<Rightarrow> (False, say NoAnswer a)
           | Some [] \<Rightarrow> (False, say NoAnswer a)
           | Some (c # _) \<Rightarrow> (c = CHR ''y'' \<or> c = CHR ''Y'', a))))"

section \<open>The supervisor\<close>

datatype errno = EPERM | EACCES

datatype answer = Continue "64 word" | Refuse "64 word" errno | Inject "64 word" string

datatype elev_event = Elevation string bool "32 word"

record 'e trap =
  n_id :: "64 word"
  n_pid :: "32 word"
  n_data :: seccompData
  n_mem :: memory
  n_valid :: bool
  n_cwd :: "string option"
  n_open :: "openHow \<Rightarrow> string \<Rightarrow> bool"
  n_inject :: bool
  n_env :: 'e

record 'a elevator =
  e_allow :: "string list"
  e_approver :: 'a
  e_decided :: "(string \<times> bool) list"
  e_grants :: nat
  e_denials :: nat
  e_passthru :: nat
  e_stopped :: bool
  e_log :: "elev_event list"

definition decidedMax :: nat where "decidedMax = 1024"

definition newElevator :: "string list \<Rightarrow> 'a \<Rightarrow> 'a elevator" where
  "newElevator allow ap =
     \<lparr>e_allow = allow, e_approver = ap, e_decided = [], e_grants = 0, e_denials = 0, e_passthru = 0,
      e_stopped = False, e_log = []\<rparr>"

definition AT_FDCWD :: "32 word" where "AT_FDCWD = - 100"

definition elev_resolve :: "string option \<Rightarrow> 32 word \<Rightarrow> string \<Rightarrow> string option" where
  "elev_resolve cwd dirfd raw =
     (if has_prefix raw ''/'' then Some (clean raw)
      else if dirfd \<noteq> AT_FDCWD then None
      else (case cwd of None \<Rightarrow> None | Some d \<Rightarrow> Some (clean (join_path [d, raw]))))"

definition recall :: "'a elevator \<Rightarrow> string \<Rightarrow> bool option" where
  "recall e p = map_of (e_decided e) p"

definition remember :: "string \<Rightarrow> bool \<Rightarrow> 'a elevator \<Rightarrow> 'a elevator" where
  "remember p granted e =
     (let kept = (if length (e_decided e) \<ge> decidedMax then [] else e_decided e) in
      e\<lparr>e_decided := AList.update p granted kept\<rparr>)"

definition elev_pass :: "64 word \<Rightarrow> 'a elevator \<Rightarrow> 'a elevator \<times> answer list" where
  "elev_pass i e = (e\<lparr>e_passthru := e_passthru e + 1\<rparr>, [Continue i])"

definition elev_deny :: "'a elevator \<Rightarrow> 'a elevator" where
  "elev_deny e = e\<lparr>e_denials := e_denials e + 1\<rparr>"

text \<open>
  The first half of \<open>handle\<close>: the path argument and the flags, as the process's memory still gives
  them, and where the path points.
\<close>

definition trap_request :: "string \<Rightarrow> 'e trap \<Rightarrow> (string \<times> 64 word) option" where
  "trap_request goarch n =
     (case readPath (n_mem n) (sd_args (n_data n) 1) of
        None \<Rightarrow> None
      | Some raw \<Rightarrow>
          if sd_nr (n_data n) = openSyscall goarch then Some (raw, sd_args (n_data n) 2)
          else (case readOpenHow (n_mem n) (sd_args (n_data n) 2) (sd_args (n_data n) 3) of
                  None \<Rightarrow> None
                | Some how \<Rightarrow> Some (raw, oh_flags how)))"

definition trap_target :: "string \<Rightarrow> 'e trap \<Rightarrow> (string \<times> string \<times> 64 word) option" where
  "trap_target goarch n =
     (case trap_request goarch n of
        None \<Rightarrow> None
      | Some (raw, flags) \<Rightarrow>
          if \<not> n_valid n then None
          else map_option (\<lambda>path. (raw, path, flags)) (elev_resolve (n_cwd n) (ucast (sd_args (n_data n) 0)) raw))"

definition elev_decide ::
  "('e \<Rightarrow> request \<Rightarrow> 'a \<Rightarrow> bool \<times> 'a) \<Rightarrow> 'e trap \<Rightarrow> string \<Rightarrow> string \<Rightarrow> 'a elevator \<Rightarrow> bool \<times> 'a elevator" where
  "elev_decide approve n raw path e =
     (case recall e path of
        Some granted \<Rightarrow> (granted, e)
      | None \<Rightarrow>
          (case approve (n_env n) \<lparr>rq_pid = n_pid n, rq_raw = raw, rq_path = path\<rparr> (e_approver e) of
             (granted, ap) \<Rightarrow>
               (granted, (remember path granted (e\<lparr>e_approver := ap\<rparr>))
                  \<lparr>e_log := e_log e @ [Elevation path granted (n_pid n)]\<rparr>)))"

text \<open>\<open>O_RDONLY | O_CLOEXEC\<close>, and neither symbolic nor magic links on the way.\<close>

definition jail_how :: openHow where
  "jail_how = \<lparr>oh_flags = 0x80000, oh_mode = 0, oh_resolve = 0x04 OR 0x02\<rparr>"

definition openForJail :: "'e trap \<Rightarrow> string \<Rightarrow> bool" where
  "openForJail n path = n_open n jail_how path"

definition elev_grant :: "'e trap \<Rightarrow> string \<Rightarrow> 'a elevator \<Rightarrow> 'a elevator \<times> answer list" where
  "elev_grant n path e =
     (if \<not> openForJail n path then (elev_deny e, [Refuse (n_id n) EACCES])
      else if \<not> n_inject n then (elev_deny e, [Inject (n_id n) path, Refuse (n_id n) EPERM])
      else (e\<lparr>e_grants := e_grants e + 1\<rparr>, [Inject (n_id n) path]))"

definition elev_handle ::
  "string \<Rightarrow> ('e \<Rightarrow> request \<Rightarrow> 'a \<Rightarrow> bool \<times> 'a) \<Rightarrow> 'e trap \<Rightarrow> 'a elevator \<Rightarrow> 'a elevator \<times> answer list" where
  "elev_handle goarch approve n e =
     (case trap_target goarch n of
        None \<Rightarrow> elev_pass (n_id n) e
      | Some (raw, path, flags) \<Rightarrow>
          if underAllowlist (e_allow e) path then elev_pass (n_id n) e
          else if wantsWrite flags then elev_pass (n_id n) e
          else (case elev_decide approve n raw path e of
            (granted, e) \<Rightarrow>
              if \<not> granted then (elev_deny e, [Refuse (n_id n) EPERM])
              else elev_grant n path e))"

text \<open>The loop of \<open>serve\<close>; the list ends where the listener gives an error.\<close>

fun elev_serve ::
  "string \<Rightarrow> ('e \<Rightarrow> request \<Rightarrow> 'a \<Rightarrow> bool \<times> 'a) \<Rightarrow> 'e trap list \<Rightarrow> 'a elevator \<Rightarrow> 'a elevator \<times> answer list list" where
  "elev_serve goarch approve [] e = (e, [])"
| "elev_serve goarch approve (n # ns) e =
     (case elev_handle goarch approve n e of (e, as) \<Rightarrow>
      (case elev_serve goarch approve ns e of (e, ass) \<Rightarrow> (e, as # ass)))"

text \<open>
  \<open>recvNotif\<close>: what the listener gives, one call after the other.  An interrupted call is made again;
  any other error ends the loop.
\<close>

datatype 'e received = Interrupted | ListenerError | Notified "'e trap"

fun recvNotif :: "'e received list \<Rightarrow> ('e trap \<times> 'e received list) option" where
  "recvNotif [] = None"
| "recvNotif (Interrupted # rs) = recvNotif rs"
| "recvNotif (ListenerError # rs) = None"
| "recvNotif (Notified n # rs) = Some (n, rs)"

fun notifications :: "'e received list \<Rightarrow> 'e trap list" where
  "notifications [] = []"
| "notifications (Interrupted # rs) = notifications rs"
| "notifications (ListenerError # rs) = []"
| "notifications (Notified n # rs) = n # notifications rs"

lemma notifications_recvNotif:
  "notifications rs = (case recvNotif rs of None \<Rightarrow> [] | Some (n, rest) \<Rightarrow> n # notifications rest)"
  by (induction rs rule: recvNotif.induct) auto

lemma recvNotif_shrinks: "recvNotif rs = Some (n, rest) \<Longrightarrow> length rest < length rs"
  by (induction rs rule: recvNotif.induct) auto

definition elev_stats :: "'a elevator \<Rightarrow> nat \<times> nat \<times> nat" where
  "elev_stats e = (e_grants e, e_denials e, e_passthru e)"

definition elev_close :: "'a elevator \<Rightarrow> 'a elevator \<times> bool" where
  "elev_close e = (if e_stopped e then (e, False) else (e\<lparr>e_stopped := True\<rparr>, True))"

text \<open>
  The descriptor the inner stage sends: \<open>None\<close> in turn is a failed receive, a control buffer that
  does not parse, and a message that carries no descriptors.
\<close>

datatype recv_error = RecvFailed | NotParsed | NoControl | NoRights | NoDescriptor

definition recvListener :: "int list option list option option \<Rightarrow> recv_error + int" where
  "recvListener r =
     (case r of
        None \<Rightarrow> Inl RecvFailed
      | Some None \<Rightarrow> Inl NotParsed
      | Some (Some []) \<Rightarrow> Inl NoControl
      | Some (Some (None # _)) \<Rightarrow> Inl NoRights
      | Some (Some (Some [] # _)) \<Rightarrow> Inl NoDescriptor
      | Some (Some (Some (fd # _) # _)) \<Rightarrow> Inr fd)"

end
