(* ===== verification/Elevate_Properties.thy ===== *)
theory Elevate_Properties
  imports Elevate
begin

text \<open>
  What the supervisor promises: a descriptor is only handed out with a human's consent, prompts are
  bounded by the token bucket, every trapped call is answered, and the decision cache is bounded.
  The supervisor only knows its approver through the locales below; the terminal is the instance.
\<close>

section \<open>One notification\<close>

lemma elev_decide_cases:
  assumes "elev_decide approve n raw path e = (granted, e')"
  obtains (seen) "recall e path = Some granted" "e' = e"
  | (asked) ap where "recall e path = None"
      "approve (n_env n) \<lparr>rq_pid = n_pid n, rq_raw = raw, rq_path = path\<rparr> (e_approver e) = (granted, ap)"
      "e' = (remember path granted (e\<lparr>e_approver := ap\<rparr>))\<lparr>e_log := e_log e @ [Elevation path granted (n_pid n)]\<rparr>"
  using assms by (auto simp: elev_decide_def split: option.splits prod.splits)

lemma elev_handle_cases:
  assumes "elev_handle goarch approve n e = (e', as)"
  obtains (floor) "e' = e\<lparr>e_passthru := e_passthru e + 1\<rparr>" "as = [Continue (n_id n)]"
  | (decided) raw path flags granted d where "trap_target goarch n = Some (raw, path, flags)"
      "\<not> underAllowlist (e_allow e) path" "\<not> wantsWrite flags"
      "elev_decide approve n raw path e = (granted, d)"
      "(e', as) = (if granted then elev_grant n path d else (elev_deny d, [Refuse (n_id n) EPERM]))"
  using assms by (auto simp: elev_handle_def elev_pass_def split: option.splits prod.splits if_splits)

lemma elev_grant_state:
  "elev_grant n path e = (e', as) \<Longrightarrow>
     e_approver e' = e_approver e \<and> e_decided e' = e_decided e \<and> e_allow e' = e_allow e \<and> e_log e' = e_log e \<and>
     e_grants e' + e_denials e' + e_passthru e' = Suc (e_grants e + e_denials e + e_passthru e)"
  by (auto simp: elev_grant_def elev_deny_def split: if_splits)

lemma elev_grant_answers:
  "elev_grant n path e = (e', as) \<Longrightarrow> Inject i p \<in> set as \<Longrightarrow> i = n_id n \<and> p = path"
  by (auto simp: elev_grant_def split: if_splits)

lemma remember_state [simp]:
  "e_approver (remember p g e) = e_approver e" "e_allow (remember p g e) = e_allow e"
  "e_grants (remember p g e) = e_grants e" "e_denials (remember p g e) = e_denials e"
  "e_passthru (remember p g e) = e_passthru e" "e_log (remember p g e) = e_log e"
  by (simp_all add: remember_def Let_def)

lemma recall_remember: "recall (remember p g e) q = Some b \<Longrightarrow> (q = p \<and> b = g) \<or> recall e q = Some b"
  by (auto simp: recall_def remember_def Let_def update_conv split: if_splits)

lemma elev_deny_state [simp]:
  "e_approver (elev_deny e) = e_approver e" "e_allow (elev_deny e) = e_allow e" "e_decided (elev_deny e) = e_decided e"
  "e_log (elev_deny e) = e_log e" "e_denials (elev_deny e) = Suc (e_denials e)" "e_grants (elev_deny e) = e_grants e"
  "e_passthru (elev_deny e) = e_passthru e"
  by (simp_all add: elev_deny_def)

lemma handle_state:
  assumes "elev_handle goarch approve n e = (e', as)"
  shows "e_allow e' = e_allow e \<and>
    e_grants e' + e_denials e' + e_passthru e' = Suc (e_grants e + e_denials e + e_passthru e)"
  using assms
proof (cases rule: elev_handle_cases)
  case (decided raw path flags granted d)
  from decided(4) have "e_allow d = e_allow e \<and> e_grants d = e_grants e \<and> e_denials d = e_denials e \<and> e_passthru d = e_passthru e"
    by (cases rule: elev_decide_cases) simp_all
  with decided(5) elev_grant_state [of n path d e' as] show ?thesis by (auto split: if_splits)
qed simp

section \<open>The decision cache\<close>

definition cache_ok :: "'a elevator \<Rightarrow> bool" where
  "cache_ok e \<longleftrightarrow> distinct (map fst (e_decided e)) \<and> length (e_decided e) \<le> decidedMax"

lemma update_length: "length (AList.update k v al) \<le> Suc (length al)"
  by (induction al) auto

lemma remember_cache: "cache_ok e \<Longrightarrow> cache_ok (remember p g e)"
  using update_length [of p g "e_decided e"]
  by (auto simp: cache_ok_def remember_def Let_def distinct_update decidedMax_def)

lemma handle_cache:
  assumes "elev_handle goarch approve n e = (e', as)" and "cache_ok e"
  shows "cache_ok e'"
  using assms(1)
proof (cases rule: elev_handle_cases)
  case (decided raw path flags granted d)
  from decided(4) have "cache_ok d"
  proof (cases rule: elev_decide_cases)
    case (asked ap)
    have "cache_ok (e\<lparr>e_approver := ap\<rparr>)" using assms(2) by (simp add: cache_ok_def)
    from remember_cache [OF this] asked(3) show ?thesis by (simp add: cache_ok_def)
  qed (use assms(2) in simp)
  moreover have "e_decided e' = e_decided d"
    using decided(5) elev_grant_state [of n path d e' as] by (auto split: if_splits)
  ultimately show ?thesis by (simp add: cache_ok_def)
qed (use assms(2) in \<open>simp add: cache_ok_def\<close>)

lemma elev_serve_Cons:
  assumes "elev_serve goarch approve (n # ns) e = (e', ass)"
  obtains d as rest where "elev_handle goarch approve n e = (d, as)" "elev_serve goarch approve ns d = (e', rest)" "ass = as # rest"
  using assms by (auto split: prod.splits)

text \<open>
  C26. Over any run, with any approver, the trusted process stays bounded and accounts for every
  trapped call: the decision cache holds each path once and at most 1024 of them, and grants,
  denials and pass-throughs add up to the number of notifications.
\<close>

theorem supervisor_state_is_bounded:
  assumes "elev_serve goarch approve ns (newElevator allow ap) = (e, ass)"
  shows "distinct (map fst (e_decided e)) \<and> length (e_decided e) \<le> 1024 \<and>
    e_grants e + e_denials e + e_passthru e = length ns \<and> length ass = length ns"
proof -
  have "cache_ok d \<Longrightarrow> elev_serve goarch approve ns d = (e, ass) \<Longrightarrow>
      cache_ok e \<and> e_grants e + e_denials e + e_passthru e = e_grants d + e_denials d + e_passthru d + length ns \<and>
      length ass = length ns" for d
  proof (induction ns arbitrary: d ass)
    case (Cons n ns)
    from Cons.prems(2) obtain d' as rest where 1: "elev_handle goarch approve n d = (d', as)"
      and 2: "elev_serve goarch approve ns d' = (e, rest)" "ass = as # rest" by (rule elev_serve_Cons)
    from Cons.IH [OF handle_cache [OF 1 Cons.prems(1)] 2(1)] handle_state [OF 1] 2(2) show ?case by simp
  qed simp
  from this [OF _ assms] show ?thesis by (simp add: cache_ok_def newElevator_def decidedMax_def)
qed

text \<open>
  The requests that may be elevated: the notification is still valid after its memory was read, path and
  flags were readable, none of O_WRONLY, O_RDWR, O_CREAT, O_TRUNC, O_APPEND and O_TMPFILE is set
  (0x410643), the path resolves, and the static allowlist does not already open it.
\<close>

definition call_flags :: "string \<Rightarrow> 'e trap \<Rightarrow> 64 word option" where
  "call_flags goarch n =
     (if sd_nr (n_data n) = openSyscall goarch then Some (sd_args (n_data n) 2)
      else map_option oh_flags (readOpenHow (n_mem n) (sd_args (n_data n) 2) (sd_args (n_data n) 3)))"

definition elevatable :: "string \<Rightarrow> string list \<Rightarrow> 'e trap \<Rightarrow> string \<Rightarrow> string \<Rightarrow> bool" where
  "elevatable goarch allow n raw path \<longleftrightarrow>
     n_valid n \<and> readPath (n_mem n) (sd_args (n_data n) 1) = Some raw \<and>
     (\<exists>flags. call_flags goarch n = Some flags \<and> flags AND 0x410643 = 0) \<and>
     elev_resolve (n_cwd n) (ucast (sd_args (n_data n) 0)) raw = Some path \<and>
     \<not> (\<exists>a rest. a \<in> set allow \<and> a \<noteq> [] \<and> (path = a \<or> path = trim_suffix a ''/'' @ ''/'' @ rest))"

lemma elevatable_iff:
  "elevatable goarch allow n raw path \<longleftrightarrow>
     (\<exists>flags. trap_target goarch n = Some (raw, path, flags) \<and> \<not> underAllowlist allow path \<and> \<not> wantsWrite flags)"
proof -
  have u: "underAllowlist allow path \<longleftrightarrow>
      (\<exists>a rest. a \<in> set allow \<and> a \<noteq> [] \<and> (path = a \<or> path = trim_suffix a ''/'' @ ''/'' @ rest))"
    by (auto simp: underAllowlist_def list_ex_iff prefix_def)
  show ?thesis
    unfolding elevatable_def u [symmetric] trap_target_def trap_request_def call_flags_def wantsWrite_mask
    by (auto split: option.splits if_splits)
qed

text \<open>
  C27. Every trapped call is answered, and its last answer names it, so no caller is left waiting.  A
  call that may not be elevated (\<open>elevatable\<close>: stale, unreadable, unresolved, opened for writing, or
  open to the jail already) is let continue, for Landlock to decide, and nothing but the count of such
  calls changes: nobody is asked and nothing is remembered.  Any other call gets the decision
  remembered for its path, or else the approver's: a refusal is EPERM; after a grant a file that
  the supervisor cannot open is EACCES, and a descriptor that cannot be injected is EPERM as a second answer.
\<close>

theorem every_trap_is_answered:
  assumes "elev_handle goarch approve n e = (e', as)"
  shows "(as \<noteq> [] \<and> last as \<in> {Continue (n_id n), Refuse (n_id n) EPERM, Refuse (n_id n) EACCES} \<union> range (Inject (n_id n))) \<and>
    (\<not> (\<exists>raw path. elevatable goarch (e_allow e) n raw path) \<longrightarrow>
       as = [Continue (n_id n)] \<and> e' = e\<lparr>e_passthru := e_passthru e + 1\<rparr>) \<and>
    (\<forall>raw path. elevatable goarch (e_allow e) n raw path \<longrightarrow>
       (\<exists>granted. (recall e path = Some granted \<or> recall e path = None \<and>
            fst (approve (n_env n) \<lparr>rq_pid = n_pid n, rq_raw = raw, rq_path = path\<rparr> (e_approver e)) = granted) \<and>
          as = (if \<not> granted then [Refuse (n_id n) EPERM]
                else if \<not> n_open n jail_how path then [Refuse (n_id n) EACCES]
                else if \<not> n_inject n then [Inject (n_id n) path, Refuse (n_id n) EPERM]
                else [Inject (n_id n) path])))"
  using assms
proof (cases rule: elev_handle_cases)
  case floor
  have "\<not> elevatable goarch (e_allow e) n raw path" for raw path
    using assms floor
    by (auto simp: elevatable_iff elev_handle_def elev_grant_def split: prod.splits if_splits)
  with floor show ?thesis by simp
next
  case (decided raw path flags granted d)
  have t: "elevatable goarch (e_allow e) n r p \<longleftrightarrow> r = raw \<and> p = path" for r p
    using decided(1-3) by (auto simp: elevatable_iff)
  have g: "recall e path = Some granted \<or> recall e path = None \<and>
      fst (approve (n_env n) \<lparr>rq_pid = n_pid n, rq_raw = raw, rq_path = path\<rparr> (e_approver e)) = granted"
    using decided(4) by (cases rule: elev_decide_cases) simp_all
  have as: "as = (if \<not> granted then [Refuse (n_id n) EPERM]
      else if \<not> n_open n jail_how path then [Refuse (n_id n) EACCES]
      else if \<not> n_inject n then [Inject (n_id n) path, Refuse (n_id n) EPERM] else [Inject (n_id n) path])"
    using decided(5) by (auto simp: elev_grant_def openForJail_def split: if_splits)
  have "as \<noteq> [] \<and> last as \<in> {Continue (n_id n), Refuse (n_id n) EPERM, Refuse (n_id n) EACCES} \<union> range (Inject (n_id n))"
    unfolding as by simp
  with g as show ?thesis unfolding t by blast
qed

section \<open>Approvers\<close>

text \<open>
  An approver grants only what a human, asked with a prompt, consented to.
\<close>

locale approver =
  fixes approve :: "'e \<Rightarrow> request \<Rightarrow> 'a \<Rightarrow> bool \<times> 'a"
    and prompts :: "'a \<Rightarrow> nat"
    and consents :: "'e \<Rightarrow> bool"
  assumes asked: "approve x r s = (True, s') \<Longrightarrow> consents x \<and> prompts s' = Suc (prompts s)"
begin

definition consented :: "string \<Rightarrow> 'e trap \<Rightarrow> string \<Rightarrow> bool" where
  "consented goarch n p \<longleftrightarrow> consents (n_env n) \<and> (\<exists>raw flags. trap_target goarch n = Some (raw, p, flags))"

lemma handle_consent:
  assumes "elev_handle goarch approve n e = (e', as)"
  shows "(Inject i p \<in> set as \<longrightarrow> recall e p = Some True \<or> consented goarch n p) \<and>
    (recall e' p = Some True \<longrightarrow> recall e p = Some True \<or> consented goarch n p)"
  using assms
proof (cases rule: elev_handle_cases)
  case (decided raw path flags granted d)
  have d: "(granted \<longrightarrow> recall e path = Some True \<or> consented goarch n path) \<and>
      (recall d p = Some True \<longrightarrow> recall e p = Some True \<or> consented goarch n p)"
    using decided(4)
  proof (cases rule: elev_decide_cases)
    case (asked ap)
    have g: "granted \<longrightarrow> consented goarch n path"
      using approver.asked [OF approver_axioms, of "n_env n"] asked(2) decided(1) by (auto simp: consented_def)
    have "recall d p = recall (remember path granted (e\<lparr>e_approver := ap\<rparr>)) p"
      using asked(3) by (simp add: recall_def)
    then have "recall d p = Some True \<longrightarrow> p = path \<and> granted \<or> recall e p = Some True"
      using recall_remember [of path granted "e\<lparr>e_approver := ap\<rparr>" p True] by (auto simp: recall_def)
    with g show ?thesis by blast
  qed auto
  show ?thesis
  proof (cases granted)
    case True
    then have "elev_grant n path d = (e', as)" using decided(5) by simp
    with d True elev_grant_state [of n path d e' as] elev_grant_answers [of n path d e' as i p] show ?thesis
      by (auto simp: recall_def)
  next
    case False
    with d decided(5) show ?thesis by (auto simp: recall_def)
  qed
qed (simp_all add: recall_def)

lemma serve_consent:
  assumes "elev_serve goarch approve ns e = (e', ass)" and "j < length ns" and "Inject i p \<in> set (ass ! j)"
  shows "recall e p = Some True \<or> (\<exists>k \<le> j. consented goarch (ns ! k) p)"
  using assms
proof (induction ns arbitrary: e ass j)
  case (Cons n ns)
  from Cons.prems(1) obtain d as rest where 1: "elev_handle goarch approve n e = (d, as)"
    and 2: "elev_serve goarch approve ns d = (e', rest)" "ass = as # rest" by (rule elev_serve_Cons)
  show ?case
  proof (cases j)
    case 0
    then show ?thesis using handle_consent [OF 1, of i p] Cons.prems(3) 2(2) by auto
  next
    case (Suc m)
    then have "recall d p = Some True \<or> (\<exists>k \<le> m. consented goarch (ns ! k) p)"
      using Cons.IH [OF 2(1), of m] Cons.prems 2(2) by simp
    then show ?thesis
      using handle_consent [OF 1, of i p] Suc by (metis Suc_le_mono nth_Cons_0 nth_Cons_Suc zero_le)
  qed
qed simp

end

fun in_order :: "('e \<Rightarrow> int) \<Rightarrow> int \<Rightarrow> 'e trap list \<Rightarrow> bool" where
  "in_order now t [] \<longleftrightarrow> True"
| "in_order now t (n # ns) \<longleftrightarrow> t \<le> now (n_env n) \<and> in_order now (now (n_env n)) ns"

text \<open>An approver whose prompts are paid from a budget that time refills.\<close>

locale limited_approver = approver approve prompts consents
  for approve :: "'e \<Rightarrow> request \<Rightarrow> 'a \<Rightarrow> bool \<times> 'a" and prompts :: "'a \<Rightarrow> nat" and consents :: "'e \<Rightarrow> bool" +
  fixes budget :: "'a \<Rightarrow> rat" and clock :: "'a \<Rightarrow> int" and now :: "'e \<Rightarrow> int" and rate :: rat and ok :: "'a \<Rightarrow> bool"
  assumes paid: "ok s \<Longrightarrow> clock s \<le> now x \<Longrightarrow> approve x r s = (g, s') \<Longrightarrow>
      budget s' + of_nat (prompts s') \<le> budget s + of_nat (prompts s) + rate * seconds (clock s' - clock s) \<and>
      clock s \<le> clock s' \<and> clock s' \<le> now x \<and> ok s'"
    and solvent: "ok s \<Longrightarrow> 0 \<le> budget s"
    and rate_nonneg: "0 \<le> rate"
begin

definition within_budget :: "'a \<Rightarrow> 'a \<Rightarrow> bool" where
  "within_budget s s' \<longleftrightarrow> ok s' \<and> clock s \<le> clock s' \<and>
     budget s' + of_nat (prompts s') \<le> budget s + of_nat (prompts s) + rate * seconds (clock s' - clock s)"

lemma within_budget_trans: "within_budget a b \<Longrightarrow> within_budget b c \<Longrightarrow> within_budget a c"
  by (auto simp: within_budget_def seconds_def field_simps)

lemma handle_budget:
  assumes "elev_handle goarch approve n e = (e', as)" and "ok (e_approver e)" and "clock (e_approver e) \<le> now (n_env n)"
  shows "within_budget (e_approver e) (e_approver e') \<and> clock (e_approver e') \<le> now (n_env n)"
  using assms(1)
proof (cases rule: elev_handle_cases)
  case (decided raw path flags granted d)
  have "within_budget (e_approver e) (e_approver d) \<and> clock (e_approver d) \<le> now (n_env n)"
    using decided(4)
  proof (cases rule: elev_decide_cases)
    case (asked ap)
    then show ?thesis using paid [OF assms(2,3) asked(2)] by (simp add: within_budget_def)
  qed (use assms(2,3) in \<open>simp add: within_budget_def seconds_def\<close>)
  moreover have "e_approver e' = e_approver d"
    using decided(5) elev_grant_state [of n path d e' as] by (auto split: if_splits)
  ultimately show ?thesis by simp
qed (use assms(2,3) in \<open>simp add: within_budget_def seconds_def\<close>)

lemma serve_budget:
  assumes "elev_serve goarch approve ns e = (e', ass)" and "ok (e_approver e)" and "clock (e_approver e) \<le> t"
    and "in_order now t ns" and "\<forall>n \<in> set ns. now (n_env n) \<le> u" and "t \<le> u"
  shows "within_budget (e_approver e) (e_approver e') \<and> clock (e_approver e') \<le> u"
  using assms
proof (induction ns arbitrary: e ass t)
  case (Cons n ns)
  from Cons.prems(1) obtain d as rest where 1: "elev_handle goarch approve n e = (d, as)"
    and 2: "elev_serve goarch approve ns d = (e', rest)" "ass = as # rest" by (rule elev_serve_Cons)
  have "clock (e_approver e) \<le> now (n_env n)" using Cons.prems(3,4) by simp
  note h = handle_budget [OF 1 Cons.prems(2) this]
  have "within_budget (e_approver d) (e_approver e') \<and> clock (e_approver e') \<le> u"
    by (rule Cons.IH [OF 2(1), of "now (n_env n)"]) (use h Cons.prems in \<open>auto simp: within_budget_def\<close>)
  with h within_budget_trans show ?case by blast
qed (simp add: within_budget_def seconds_def)

lemma serve_prompts:
  assumes "elev_serve goarch approve ns e = (e', ass)" and "ok (e_approver e)" and "clock (e_approver e) = t"
    and "in_order now t ns" and "\<forall>n \<in> set ns. now (n_env n) \<le> u" and "t \<le> u" and "prompts (e_approver e) = 0"
  shows "of_nat (prompts (e_approver e')) \<le> budget (e_approver e) + rate * seconds (u - t)"
proof -
  from serve_budget [OF assms(1,2) _ assms(4-6)] assms(3)
  have w: "within_budget (e_approver e) (e_approver e')" and c: "clock (e_approver e') \<le> u" by auto
  have "rate * seconds (clock (e_approver e') - t) \<le> rate * seconds (u - t)"
    using c rate_nonneg by (intro mult_left_mono) (simp_all add: seconds_def divide_right_mono)
  with w solvent [of "e_approver e'"] assms(3,7) show ?thesis by (simp add: within_budget_def)
qed

end

section \<open>The terminal\<close>

definition is_prompt :: "tty_line \<Rightarrow> bool" where
  "is_prompt l = (case l of Prompt pid p raw \<Rightarrow> True | _ \<Rightarrow> False)"

definition terminal_prompts :: "terminal \<Rightarrow> nat" where
  "terminal_prompts a = length (filter is_prompt (t_out a))"

definition says_yes :: "tty_input \<Rightarrow> bool" where
  "says_yes x \<longleftrightarrow> (\<exists>c cs. in_answer x = Some (c # cs) \<and> c \<in> {CHR ''y'', CHR ''Y''})"

definition bucket_ok :: "terminal \<Rightarrow> bool" where
  "bucket_ok a \<longleftrightarrow> 0 \<le> t_tokens a \<and> t_tokens a \<le> t_burst a \<and> t_rate a = approvalRate \<and> t_burst a = approvalBurst"

lemma take_token_paid:
  assumes "bucket_ok a" and "t_filled a \<le> now" and "take_token now a = (g, a')"
  shows "t_tokens a' + (if g then 1 else 0) \<le> t_tokens a + 10 * seconds (now - t_filled a) \<and>
    t_filled a' = now \<and> bucket_ok a' \<and> t_out a' = t_out a"
proof -
  have "0 \<le> seconds (now - t_filled a)" using assms(2) by (simp add: seconds_def)
  then show ?thesis using assms(1,3)
    by (auto simp: take_token_def bucket_ok_def Let_def approvalRate_def approvalBurst_def split: if_splits)
qed

interpretation terminal: limited_approver terminal_approve terminal_prompts says_yes t_tokens t_filled in_now 10 bucket_ok
proof unfold_locales
  show "says_yes x \<and> terminal_prompts s' = Suc (terminal_prompts s)" if "terminal_approve x r s = (True, s')" for x r s s'
    using that by (auto simp: terminal_approve_def take_token_def say_def says_yes_def terminal_prompts_def is_prompt_def Let_def
        split: if_splits option.splits list.splits prod.splits)
next
  fix s s' x r g
  assume *: "bucket_ok s" "t_filled s \<le> in_now x" "terminal_approve x r s = (g, s')"
  obtain g1 a1 where t: "take_token (in_now x) s = (g1, a1)" by fastforce
  have say [simp]: "t_tokens (say l a) = t_tokens a" "t_filled (say l a) = t_filled a" "bucket_ok (say l a) = bucket_ok a"
    "terminal_prompts (say l a) = terminal_prompts a + (if is_prompt l then 1 else 0)" for l a
    by (simp_all add: say_def bucket_ok_def terminal_prompts_def)
  have "bucket_ok (s\<lparr>t_said := True\<rparr>) = bucket_ok s" "terminal_prompts (s\<lparr>t_said := True\<rparr>) = terminal_prompts s"
    by (simp_all add: bucket_ok_def terminal_prompts_def)
  moreover have "terminal_prompts a1 = terminal_prompts s"
    using take_token_paid [OF *(1,2) t] by (simp add: terminal_prompts_def)
  ultimately show "t_tokens s' + of_nat (terminal_prompts s') \<le> t_tokens s + of_nat (terminal_prompts s) + 10 * seconds (t_filled s' - t_filled s) \<and>
      t_filled s \<le> t_filled s' \<and> t_filled s' \<le> in_now x \<and> bucket_ok s'"
    using take_token_paid [OF *(1,2) t] *
    by (auto simp: terminal_approve_def t is_prompt_def seconds_def Let_def split: if_splits option.splits list.splits bool.splits)
qed (simp_all add: bucket_ok_def)

text \<open>
  C24. A descriptor is only ever injected with consent: whatever the jail asks, in any order, the
  path handed out is the one of the trapped call being answered, is outside the allowlist, was
  asked for without a write intent, and a human answered yes to a prompt for a trapped call (this
  one or an earlier one of the run) that meant the same path.  The supervisor's own open of it is
  read-only.
\<close>

theorem injection_needs_consent:
  assumes "elev_serve goarch terminal_approve ns (newElevator allow ap) = (e, ass)"
    and "j < length ns" and "Inject i p \<in> set (ass ! j)"
  shows "i = n_id (ns ! j) \<and> \<not> underAllowlist allow p \<and> \<not> wantsWrite (oh_flags jail_how) \<and>
    (\<exists>raw flags. trap_target goarch (ns ! j) = Some (raw, p, flags) \<and> \<not> wantsWrite flags) \<and>
    (\<exists>k \<le> j. says_yes (n_env (ns ! k)) \<and> (\<exists>raw flags. trap_target goarch (ns ! k) = Some (raw, p, flags)))"
proof -
  have own: "j < length ns \<Longrightarrow> Inject i p \<in> set (ass ! j) \<Longrightarrow> elev_serve goarch terminal_approve ns d = (e, ass) \<Longrightarrow>
      i = n_id (ns ! j) \<and> \<not> underAllowlist (e_allow d) p \<and>
      (\<exists>raw flags. trap_target goarch (ns ! j) = Some (raw, p, flags) \<and> \<not> wantsWrite flags)" for d
  proof (induction ns arbitrary: d ass j)
    case (Cons n ns)
    from Cons.prems(3) obtain d' as rest where 1: "elev_handle goarch terminal_approve n d = (d', as)"
      and 2: "elev_serve goarch terminal_approve ns d' = (e, rest)" "ass = as # rest" by (rule elev_serve_Cons)
    show ?case
    proof (cases j)
      case 0
      with Cons.prems(2) 2(2) have "Inject i p \<in> set as" by simp
      from 1 this 0 show ?thesis
        by (cases rule: elev_handle_cases) (auto split: if_splits dest: elev_grant_answers [OF sym])
    next
      case (Suc m)
      then show ?thesis using Cons.IH [of m rest d'] Cons.prems 2 handle_state [OF 1] by simp
    qed
  qed simp
  have "\<not> wantsWrite (oh_flags jail_how)" by (simp add: wantsWrite_def jail_how_def)
  with own [OF assms(2,3,1)] terminal.serve_consent [OF assms] show ?thesis
    by (simp add: terminal.consented_def newElevator_def recall_def)
qed

text \<open>
  C25. The human is not worn down: over a run from time \<open>t\<close> to time \<open>u\<close> the terminal shows at most five
  prompts, plus ten for every second elapsed, however many opens the jail traps.
\<close>

theorem prompts_are_rate_limited:
  assumes "elev_serve goarch terminal_approve ns (newElevator allow (newTerminalApprover t tty)) = (e, ass)"
    and "in_order in_now t ns" and "\<forall>n \<in> set ns. in_now (n_env n) \<le> u" and "t \<le> u"
  shows "of_nat (terminal_prompts (e_approver e)) \<le> 5 + 10 * seconds (u - t)"
proof -
  have "bucket_ok (newTerminalApprover t tty)" "terminal_prompts (newTerminalApprover t tty) = 0"
    by (simp_all add: newTerminalApprover_def bucket_ok_def terminal_prompts_def approvalBurst_def)
  with terminal.serve_prompts [OF assms(1) _ _ assms(2-4)] show ?thesis
    by (simp add: newElevator_def newTerminalApprover_def approvalBurst_def)
qed

section \<open>A sample run\<close>

text \<open>The jail opens a CA bundle twice; the human answers the one prompt there is.\<close>

definition ca_path :: string where "ca_path = ''/etc/ca.pem''"

definition open_trap :: "int \<Rightarrow> string option \<Rightarrow> tty_input trap" where
  "open_trap now answer = \<lparr>n_id = 7, n_pid = 42, n_data = \<lparr>sd_nr = 257, sd_arch = 0xc000003e, sd_args = (\<lambda>i. 0)\<rparr>,
     n_mem = (\<lambda>a len. Some (map of_char ca_path @ [0], False)), n_valid = True, n_cwd = Some ''/w'',
     n_open = (\<lambda>how p. True), n_inject = True, n_env = \<lparr>in_now = now, in_answer = answer\<rparr>\<rparr>"

definition sample_traps :: "tty_input trap list" where
  "sample_traps = [open_trap 1000000000 (Some ''y''), open_trap 2000000000 None]"

definition sample_start :: "terminal elevator" where
  "sample_start = newElevator [''/w''] (newTerminalApprover 0 True)"

lemma open_trap_simps [simp]:
  "n_id (open_trap now answer) = 7" "n_pid (open_trap now answer) = 42" "n_valid (open_trap now answer)"
  "n_inject (open_trap now answer)" "openForJail (open_trap now answer) p"
  "n_env (open_trap now answer) = \<lparr>in_now = now, in_answer = answer\<rparr>"
  by (simp_all add: open_trap_def openForJail_def)

lemma sample_target [simp]: "trap_target ''amd64'' (open_trap now answer) = Some (ca_path, ca_path, 0)"
proof -
  have "readPath (n_mem (open_trap now answer)) 0 = Some ca_path"
    unfolding open_trap_def by code_simp
  moreover have "has_prefix ca_path ''/''" "clean ca_path = ca_path" by code_simp+
  ultimately show ?thesis
    by (simp add: trap_target_def trap_request_def elev_resolve_def open_trap_def openSyscall_def)
qed

lemma sample_elevation:
  "\<exists>e. elev_serve ''amd64'' terminal_approve sample_traps sample_start = (e, [[Inject 7 ca_path], [Inject 7 ca_path]]) \<and>
     terminal_prompts (e_approver e) = 1 \<and> e_grants e = 2"
proof -
  have u: "\<not> underAllowlist [''/w''] ca_path" by code_simp
  show ?thesis
    by (simp add: sample_traps_def sample_start_def elev_handle_def u wantsWrite_def elev_decide_def
        recall_def remember_def Let_def newElevator_def decidedMax_def newTerminalApprover_def approvalBurst_def approvalRate_def
        terminal_approve_def take_token_def seconds_def elev_grant_def say_def
        terminal_prompts_def is_prompt_def)
qed

theorem supervisor_state_is_bounded_witness:
  "\<exists>e. elev_serve ''amd64'' terminal_approve sample_traps sample_start = (e, [[Inject 7 ca_path], [Inject 7 ca_path]]) \<and>
     e_grants e + e_denials e + e_passthru e = 2"
proof -
  obtain e where e: "elev_serve ''amd64'' terminal_approve sample_traps sample_start = (e, [[Inject 7 ca_path], [Inject 7 ca_path]])"
    using sample_elevation by blast
  with supervisor_state_is_bounded [of "''amd64''" terminal_approve sample_traps "[''/w'']"] show ?thesis
    by (auto simp: sample_start_def sample_traps_def)
qed

theorem every_trap_is_answered_witness:
  "snd (elev_handle ''amd64'' terminal_approve ((open_trap 0 None)\<lparr>n_valid := False\<rparr>)
     (newElevator [''/w''] (newTerminalApprover 0 True))) = [Continue 7]"
proof -
  let ?n = "(open_trap 0 None)\<lparr>n_valid := False\<rparr>"
  obtain e as where h: "elev_handle ''amd64'' terminal_approve ?n (newElevator [''/w''] (newTerminalApprover 0 True)) = (e, as)"
    by fastforce
  have "\<not> elevatable ''amd64'' allow ?n raw path" for allow raw path by (simp add: elevatable_def)
  moreover have "n_id ?n = 7" by (simp add: open_trap_def)
  ultimately show ?thesis using every_trap_is_answered [OF h] h by simp
qed

theorem injection_needs_consent_witness:
  "\<not> underAllowlist [''/w''] ca_path \<and> says_yes \<lparr>in_now = 1000000000, in_answer = Some ''y''\<rparr>"
proof -
  obtain e where e: "elev_serve ''amd64'' terminal_approve sample_traps sample_start = (e, [[Inject 7 ca_path], [Inject 7 ca_path]])"
    using sample_elevation by blast
  from injection_needs_consent [OF e [unfolded sample_start_def], of 0 7 ca_path] show ?thesis
    by (simp add: sample_traps_def)
qed

theorem prompts_are_rate_limited_witness:
  "\<exists>e ass. elev_serve ''amd64'' terminal_approve sample_traps sample_start = (e, ass) \<and>
     of_nat (terminal_prompts (e_approver e)) \<le> (25 :: rat)"
proof -
  obtain e where e: "elev_serve ''amd64'' terminal_approve sample_traps sample_start = (e, [[Inject 7 ca_path], [Inject 7 ca_path]])"
    using sample_elevation by blast
  from prompts_are_rate_limited [OF e [unfolded sample_start_def], of 2000000000] e show ?thesis
    by (simp add: sample_traps_def seconds_def)
qed

end
