(* ===== verification/Elevate_Abi.thy ===== *)
theory Elevate_Abi
  imports Elevate
begin

text \<open>
  The supervisor's answers as the bytes it hands to the kernel (\<open>elevate.go\<close>): the structs of
  \<open>seccomp_unotify(2)\<close>, whose layout is ABI, the request numbers, which hold the size of the struct, and
  \<open>respondError\<close>, \<open>respondContinue\<close>, \<open>injectFD\<close>.  Words are stored in the order of the machine, little endian.
\<close>

section \<open>The structs\<close>

text \<open>A field is its size in bytes; each starts at a multiple of its size and the struct ends at one of the largest.\<close>

definition align :: "nat \<Rightarrow> nat \<Rightarrow> nat" where
  "align a n = (n + a - 1) div a * a"

definition struct_size :: "nat list \<Rightarrow> nat" where
  "struct_size fs = align (foldr max fs 1) (foldl (\<lambda>n f. align f n + f) 0 fs)"

definition seccompData_layout :: "nat list" where
  "seccompData_layout = [4, 4, 8] @ [8, 8, 8, 8, 8, 8]"

definition seccompNotif_layout :: "nat list" where
  "seccompNotif_layout = [8, 4, 4] @ seccompData_layout"

record seccompNotifResp =
  nr_id :: "64 word"
  nr_val :: "64 word"
  nr_error :: "32 word"
  nr_flags :: "32 word"

definition seccompNotifResp_layout :: "nat list" where
  "seccompNotifResp_layout = [8, 8, 4, 4]"

record seccompNotifAddfd =
  na_id :: "64 word"
  na_flags :: "32 word"
  na_src :: "32 word"
  na_new :: "32 word"
  na_newflags :: "32 word"

definition seccompNotifAddfd_layout :: "nat list" where
  "seccompNotifAddfd_layout = [8, 4, 4, 4, 4]"

definition ioctlNotifRecv :: nat where "ioctlNotifRecv = 0xc0502100"
definition ioctlNotifSend :: nat where "ioctlNotifSend = 0xc0182101"
definition ioctlNotifIDValid :: nat where "ioctlNotifIDValid = 0x40082102"
definition ioctlNotifAddfd :: nat where "ioctlNotifAddfd = 0x40182103"

definition seccompNotifContinue :: "32 word" where "seccompNotifContinue = 1"
definition seccompAddfdSend :: "32 word" where "seccompAddfdSend = 2"

text \<open>\<open>_IOW\<close> (1) and \<open>_IOWR\<close> (3) of the type \<open>!\<close>: direction, size, type and number, each in its bits.\<close>

definition ioctl_number :: "nat \<Rightarrow> nat \<Rightarrow> nat \<Rightarrow> nat" where
  "ioctl_number dir num bytes = dir * 2 ^ 30 + bytes * 2 ^ 16 + 0x21 * 2 ^ 8 + num"

text \<open>The numbers that are spelled out hold the sizes of the structs as Go lays them out.\<close>

lemma ioctl_numbers_match_structs:
  "ioctlNotifRecv = ioctl_number 3 0 (struct_size seccompNotif_layout)"
  "ioctlNotifSend = ioctl_number 3 1 (struct_size seccompNotifResp_layout)"
  "ioctlNotifIDValid = ioctl_number 1 2 (struct_size [8])"
  "ioctlNotifAddfd = ioctl_number 1 3 (struct_size seccompNotifAddfd_layout)"
  by (simp_all add: ioctlNotifRecv_def ioctlNotifSend_def ioctlNotifIDValid_def ioctlNotifAddfd_def ioctl_number_def
      struct_size_def align_def seccompNotif_layout_def seccompData_layout_def seccompNotifResp_layout_def
      seccompNotifAddfd_layout_def)

section \<open>The bytes\<close>

fun le_bytes :: "nat \<Rightarrow> nat \<Rightarrow> 8 word list" where
  "le_bytes 0 n = []"
| "le_bytes (Suc w) n = of_nat n # le_bytes w (n div 256)"

fun le_value :: "8 word list \<Rightarrow> nat" where
  "le_value [] = 0"
| "le_value (b # bs) = unat b + 256 * le_value bs"

definition resp_bytes :: "seccompNotifResp \<Rightarrow> 8 word list" where
  "resp_bytes r =
     le_bytes 8 (unat (nr_id r)) @ le_bytes 8 (unat (nr_val r)) @ le_bytes 4 (unat (nr_error r)) @ le_bytes 4 (unat (nr_flags r))"

definition addfd_bytes :: "seccompNotifAddfd \<Rightarrow> 8 word list" where
  "addfd_bytes a =
     le_bytes 8 (unat (na_id a)) @ le_bytes 4 (unat (na_flags a)) @ le_bytes 4 (unat (na_src a)) @
     le_bytes 4 (unat (na_new a)) @ le_bytes 4 (unat (na_newflags a))"

text \<open>An errno as \<open>int32\<close>, negated.\<close>

definition errno_number :: "errno \<Rightarrow> 32 word" where
  "errno_number e = (case e of EPERM \<Rightarrow> 1 | EACCES \<Rightarrow> 13)"

type_synonym ioctl_call = "nat \<times> 8 word list"

definition respondError :: "64 word \<Rightarrow> errno \<Rightarrow> ioctl_call" where
  "respondError i e = (ioctlNotifSend, resp_bytes \<lparr>nr_id = i, nr_val = 0, nr_error = - errno_number e, nr_flags = 0\<rparr>)"

definition respondContinue :: "64 word \<Rightarrow> ioctl_call" where
  "respondContinue i = (ioctlNotifSend, resp_bytes \<lparr>nr_id = i, nr_val = 0, nr_error = 0, nr_flags = seccompNotifContinue\<rparr>)"

definition injectFD :: "64 word \<Rightarrow> 32 word \<Rightarrow> ioctl_call" where
  "injectFD i src = (ioctlNotifAddfd, addfd_bytes \<lparr>na_id = i, na_flags = seccompAddfdSend, na_src = src, na_new = 0, na_newflags = 0\<rparr>)"

text \<open>The call an answer of the supervisor is; \<open>fd\<close> is the descriptor opened for a path.\<close>

definition answer_call :: "(string \<Rightarrow> 32 word) \<Rightarrow> answer \<Rightarrow> ioctl_call" where
  "answer_call fd a =
     (case a of
        Continue i \<Rightarrow> respondContinue i
      | Refuse i e \<Rightarrow> respondError i e
      | Inject i path \<Rightarrow> injectFD i (fd path))"

section \<open>What the kernel is told\<close>

text \<open>
  The meaning \<open>seccomp_unotify(2)\<close> gives to the bytes: which waiting call is meant and whether it goes on,
  fails, returns a value or gets a descriptor.
\<close>

datatype told = GoesOn "64 word" | Fails "64 word" "32 word" | Returns "64 word" "64 word" | GetsFd "64 word" "32 word"

definition kernel_told :: "ioctl_call \<Rightarrow> told option" where
  "kernel_told call =
     (case call of (num, bs) \<Rightarrow>
        let i = of_nat (le_value (take 8 bs)) in
        if num = ioctlNotifSend \<and> length bs = 24 then
          let err = of_nat (le_value (take 4 (drop 16 bs))); flags = of_nat (le_value (drop 20 bs)) :: 32 word in
          Some (if flags = seccompNotifContinue then GoesOn i
                else if err \<noteq> 0 then Fails i err
                else Returns i (of_nat (le_value (take 8 (drop 8 bs)))))
        else if num = ioctlNotifAddfd \<and> length bs = 24 \<and> of_nat (le_value (take 4 (drop 8 bs))) = seccompAddfdSend
          then Some (GetsFd i (of_nat (le_value (take 4 (drop 12 bs)))))
        else None)"

lemma le_bytes_length [simp]: "length (le_bytes w n) = w"
  by (induction w arbitrary: n) simp_all

lemma le_round_trip: "n < 256 ^ w \<Longrightarrow> le_value (le_bytes w n) = n"
proof (induction w arbitrary: n)
  case (Suc w)
  then have "n div 256 < 256 ^ w" by (simp add: less_mult_imp_div_less)
  then show ?case using Suc.IH [of "n div 256"] by (simp add: unat_of_nat)
qed simp

lemma le_word64 [simp]: "le_value (le_bytes 8 (unat (w :: 64 word))) = unat w"
  using unsigned_less [of w] by (intro le_round_trip) simp

lemma le_word32 [simp]: "le_value (le_bytes 4 (unat (w :: 32 word))) = unat w"
  using unsigned_less [of w] by (intro le_round_trip) simp

lemma kernel_told_resp:
  "kernel_told (ioctlNotifSend, resp_bytes r) =
     Some (if nr_flags r = seccompNotifContinue then GoesOn (nr_id r)
           else if nr_error r \<noteq> 0 then Fails (nr_id r) (nr_error r) else Returns (nr_id r) (nr_val r))"
  by (simp add: kernel_told_def resp_bytes_def)

lemma kernel_told_addfd:
  "na_flags a = seccompAddfdSend \<Longrightarrow> kernel_told (ioctlNotifAddfd, addfd_bytes a) = Some (GetsFd (na_id a) (na_src a))"
  by (simp add: kernel_told_def addfd_bytes_def ioctlNotifAddfd_def ioctlNotifSend_def)

text \<open>
  Every answer reaches the kernel as itself, for the call it is meant for; no refusal is read as a
  success, and a descriptor is handed over by an injection only.
\<close>

lemma answers_are_understood:
  "kernel_told (answer_call fd a) =
     Some (case a of Continue i \<Rightarrow> GoesOn i | Refuse i e \<Rightarrow> Fails i (- errno_number e) | Inject i path \<Rightarrow> GetsFd i (fd path))"
  by (cases a)
    (auto simp: answer_call_def respondContinue_def respondError_def injectFD_def kernel_told_resp kernel_told_addfd
      seccompNotifContinue_def errno_number_def split: errno.splits)

lemma only_injection_hands_over: "kernel_told (answer_call fd a) = Some (GetsFd i d) \<longleftrightarrow> (\<exists>path. a = Inject i path \<and> d = fd path)"
  by (cases a) (auto simp: answers_are_understood)

end
