(* ===== verification/Rollback.thy ===== *)
theory Rollback
  imports Paths "HOL-Library.Word" "HOL-Library.AList" "HOL-Library.List_Lexorder" "HOL-Library.Char_ord"
begin

text \<open>
  Snapshots, their comparison and what is put back (\<open>rollback.go\<close>, \<open>finishRollback\<close> of \<open>main.go\<close>).  A tree is
  what the walk of a root meets; the object store maps the two levels of names under
  \<open>rollback/objects\<close> to contents.  \<open>sha256\<close>, in hexadecimal, is the parameter \<open>se_hash\<close>; whether an
  object can be written is \<open>se_put\<close>.  Times are nanoseconds (\<open>Time_Text\<close>); the sessions' files as text are in
  \<open>Rollback_Disk\<close>.
\<close>

section \<open>Snapshots\<close>

definition rollbackSkip :: "string list" where
  "rollbackSkip = [''.git'', ''node_modules'', ''target'', ''vendor'', ''.venv'', ''__pycache__'', ''.mypy_cache'',
     ''.pytest_cache'', ''.next'', ''.nuxt'', ''dist'', ''build'']"

definition rollbackMaxFiles :: nat where "rollbackMaxFiles = 20000"

definition rollbackMaxFileSize :: int where "rollbackMaxFileSize = 64 * 1024 * 1024"

record snapEntry =
  e_path :: string
  e_hash :: string
  e_size :: int
  e_mode :: nat
  e_mod :: int

record snapshot =
  s_version :: int
  s_taken :: int
  s_roots :: "string list"
  s_entries :: "snapEntry list"
  s_skipped :: "string list"

datatype change_kind = Deleted | Modified | Added

record change =
  c_path :: string
  c_kind :: change_kind
  c_hash :: string
  c_size :: int

definition rollbackDir :: "string \<Rightarrow> string option \<Rightarrow> string" where
  "rollbackDir xdg_state home =
     (if xdg_state \<noteq> [] then join_path [xdg_state, ''azkaban'', ''rollback'']
      else (case home of
              None \<Rightarrow> []
            | Some h \<Rightarrow> join_path [join_path [h, ''.local'', ''state''], ''azkaban'', ''rollback'']))"

definition rollbackStore :: "string \<Rightarrow> string option \<Rightarrow> string" where
  "rollbackStore xdg_state home = join_path [rollbackDir xdg_state home, ''objects'']"

text \<open>
  What \<open>filepath.WalkDir\<close> meets: a regular file with its \<open>Info\<close>, anything else that is no directory,
  a directory with the entries that could be read and the error of reading it.  A file's content is
  read twice, once for its hash (\<open>fi_content\<close>) and once to be copied (\<open>fi_copy\<close>); the two differ when the
  file changes in between.
\<close>

record file_info =
  fi_size :: int
  fi_mode :: nat
  fi_mod :: int
  fi_content :: "string option"
  fi_copy :: "string option"

datatype node =
    Regular "string + file_info"
  | Special
  | Directory "string option" "(string \<times> node) list"

record tree =
  tr_stat :: "string \<Rightarrow> bool option"
  tr_node :: "string \<Rightarrow> node"

definition base_of :: "string \<Rightarrow> string" where
  "base_of p = last (split_on slash p)"

datatype visit = VisitError string string | VisitFile string "string + file_info"

text \<open>The calls of the walk's function that do something, in order; \<open>SkipDir\<close> only looks at a name.\<close>

fun visits :: "string \<Rightarrow> string \<Rightarrow> node \<Rightarrow> visit list" where
  "visits p name (Regular info) = [VisitFile p info]"
| "visits p name Special = []"
| "visits p name (Directory err cs) =
     (if name \<in> set rollbackSkip then []
      else (case err of None \<Rightarrow> [] | Some m \<Rightarrow> [VisitError p m]) @
        concat (map (\<lambda>(n, c). visits (join_path [p, n]) n c) cs))"

type_synonym objects = "((string \<times> string) \<times> string) list"

definition object_key :: "string \<Rightarrow> string \<times> string" where
  "object_key sm = (take 2 sm, drop 2 sm)"

record store_env =
  se_hash :: "string \<Rightarrow> string"
  se_put :: "string \<Rightarrow> bool"
  se_set :: bool

definition storeFile :: "store_env \<Rightarrow> string option \<Rightarrow> string option \<Rightarrow> objects \<Rightarrow> string option \<times> objects" where
  "storeFile env content copy objs =
     (case content of
        None \<Rightarrow> (None, objs)
      | Some c \<Rightarrow>
          let sm = se_hash env c in
          if \<not> se_set env then (Some sm, objs)
          else if map_of objs (object_key sm) \<noteq> None then (Some sm, objs)
          else if \<not> se_put env sm then (None, objs)
          else (case copy of
                  None \<Rightarrow> (None, objs)
                | Some c' \<Rightarrow> (Some sm, AList.update (object_key sm) c' objs)))"

text \<open>The notes on what was left out: \<open>%s (%v)\<close> and \<open>%s (over %d files)\<close>.\<close>

definition skip_error :: "string \<Rightarrow> string \<Rightarrow> string" where
  "skip_error p m = p @ '' ('' @ m @ '')''"

definition skip_many :: "string \<Rightarrow> string" where
  "skip_many root = root @ '' (over '' @ itoa rollbackMaxFiles @ '' files)''"

record walk_state =
  w_entries :: "snapEntry list"
  w_skipped :: "string list"
  w_count :: nat
  w_objects :: objects

definition walk_file :: "store_env \<Rightarrow> string \<Rightarrow> file_info \<Rightarrow> walk_state \<Rightarrow> walk_state" where
  "walk_file env p fi ws =
     (case (if fi_size fi \<le> rollbackMaxFileSize then storeFile env (fi_content fi) (fi_copy fi) (w_objects ws) else (None, w_objects ws)) of
        (h, objs) \<Rightarrow>
          ws\<lparr>w_objects := objs,
             w_entries := w_entries ws @
               [\<lparr>e_path = p, e_hash = (case h of Some sm \<Rightarrow> sm | None \<Rightarrow> []), e_size = fi_size fi,
                 e_mode = fi_mode fi, e_mod = fi_mod fi\<rparr>]\<rparr>)"

text \<open>One call of the walk's function; \<open>False\<close> is \<open>SkipAll\<close>.\<close>

definition walk_visit :: "store_env \<Rightarrow> string \<Rightarrow> visit \<Rightarrow> walk_state \<Rightarrow> bool \<times> walk_state" where
  "walk_visit env root v ws =
     (case v of
        VisitError p m \<Rightarrow> (True, ws\<lparr>w_skipped := w_skipped ws @ [skip_error p m]\<rparr>)
      | VisitFile p info \<Rightarrow>
          let ws = ws\<lparr>w_count := w_count ws + 1\<rparr> in
          if w_count ws > rollbackMaxFiles then (False, ws\<lparr>w_skipped := w_skipped ws @ [skip_many root]\<rparr>)
          else (case info of
                  Inl m \<Rightarrow> (True, ws\<lparr>w_skipped := w_skipped ws @ [skip_error p m]\<rparr>)
                | Inr fi \<Rightarrow> (True, walk_file env p fi ws)))"

fun walk :: "store_env \<Rightarrow> string \<Rightarrow> visit list \<Rightarrow> walk_state \<Rightarrow> walk_state" where
  "walk env root [] ws = ws"
| "walk env root (v # vs) ws =
     (case walk_visit env root v ws of (go, ws) \<Rightarrow> if go then walk env root vs ws else ws)"

definition root_visits :: "tree \<Rightarrow> string \<Rightarrow> visit list" where
  "root_visits t root = (if tr_stat t root = Some True then visits root (base_of root) (tr_node t root) else [])"

definition walk_root :: "store_env \<Rightarrow> tree \<Rightarrow> walk_state \<Rightarrow> string \<Rightarrow> walk_state" where
  "walk_root env t ws root = walk env root (root_visits t root) (ws\<lparr>w_count := 0\<rparr>)"

definition takeSnapshot :: "store_env \<Rightarrow> bool \<Rightarrow> tree \<Rightarrow> int \<Rightarrow> string list \<Rightarrow> objects \<Rightarrow> (snapshot \<times> objects) option" where
  "takeSnapshot env mkdir_ok t now roots objs =
     (if se_set env \<and> \<not> mkdir_ok then None
      else let ws = foldl (walk_root env t) \<lparr>w_entries = [], w_skipped = [], w_count = 0, w_objects = objs\<rparr> roots in
        Some (\<lparr>s_version = 1, s_taken = now, s_roots = roots, s_entries = sort_key e_path (w_entries ws), s_skipped = w_skipped ws\<rparr>,
              w_objects ws))"

section \<open>Comparing and restoring\<close>

text \<open>The map built in a loop: the last entry of a path wins.\<close>

definition snap_map :: "snapEntry list \<Rightarrow> string \<Rightarrow> snapEntry option" where
  "snap_map es = map_of (rev (map (\<lambda>e. (e_path e, e)) es))"

definition before_change :: "(string \<Rightarrow> snapEntry option) \<Rightarrow> snapEntry \<Rightarrow> change list" where
  "before_change now e =
     (case now (e_path e) of
        None \<Rightarrow> [\<lparr>c_path = e_path e, c_kind = Deleted, c_hash = e_hash e, c_size = e_size e\<rparr>]
      | Some cur \<Rightarrow>
          if e_hash cur \<noteq> e_hash e \<or> e_size cur \<noteq> e_size e
          then [\<lparr>c_path = e_path e, c_kind = Modified, c_hash = e_hash e, c_size = e_size e\<rparr>]
          else [])"

definition after_change :: "(string \<Rightarrow> snapEntry option) \<Rightarrow> snapEntry \<Rightarrow> change list" where
  "after_change was e =
     (if was (e_path e) = None then [\<lparr>c_path = e_path e, c_kind = Added, c_hash = [], c_size = e_size e\<rparr>] else [])"

definition diffSnapshots :: "snapshot \<Rightarrow> snapshot \<Rightarrow> change list" where
  "diffSnapshots before after =
     sort_key c_path
       (concat (map (before_change (snap_map (s_entries after))) (s_entries before)) @
        concat (map (after_change (snap_map (s_entries before))) (s_entries after)))"

datatype restore_error = WasAdded | NotStored | ShortHash | ObjectMissing | HashMismatch | NoDirectory | WriteFailed

text \<open>
  The bytes written and the path they go to, with mode \<open>0600\<close>; the last two arguments say whether
  the directory could be made and the file written.  \<open>ShortHash\<close> is the panic of a slice out of range: the
  first two characters name a directory, the first twelve stand in the message of a missing object.
\<close>

definition restore :: "store_env \<Rightarrow> objects \<Rightarrow> bool \<Rightarrow> bool \<Rightarrow> change \<Rightarrow> restore_error + string \<times> string" where
  "restore env objs mkdir_ok write_ok c =
     (if c_kind c = Added then Inl WasAdded
      else if c_hash c = [] then Inl NotStored
      else if length (c_hash c) < 2 then Inl ShortHash
      else (case map_of objs (object_key (c_hash c)) of
              None \<Rightarrow> if length (c_hash c) < 12 then Inl ShortHash else Inl ObjectMissing
            | Some data \<Rightarrow>
                if se_hash env data \<noteq> c_hash c then Inl HashMismatch
                else if \<not> mkdir_ok then Inl NoDirectory
                else if \<not> write_ok then Inl WriteFailed
                else Inr (c_path c, data)))"

section \<open>Sessions\<close>

text \<open>The snapshots are pointers; a file may leave either nil.\<close>

record rollbackSession =
  rs_id :: string
  rs_cmd :: "string list"
  rs_cwd :: string
  rs_start :: int
  rs_end :: int
  rs_before :: "snapshot option"
  rs_after :: "snapshot option"

text \<open>The session directory: each file name with what it decodes to, in the order \<open>ReadDir\<close> lists them.\<close>

type_synonym session_dir = "(string \<times> rollbackSession option) list"

definition session_file :: "string \<Rightarrow> string" where
  "session_file i = i @ ''.json''"

definition session_path :: "string \<Rightarrow> string \<Rightarrow> string" where
  "session_path rd i = join_path [rd, session_file i]"

definition loadSession :: "session_dir \<Rightarrow> string \<Rightarrow> rollbackSession option" where
  "loadSession dir i = (case map_of dir (session_file i) of Some (Some s) \<Rightarrow> Some s | _ \<Rightarrow> None)"

definition listSessions :: "session_dir \<Rightarrow> rollbackSession list" where
  "listSessions dir =
     sort_key (\<lambda>s. - rs_start s)
       (List.map_filter (\<lambda>(f, s). if has_suffix f ''.json'' then s else None) dir)"

text \<open>What \<open>diffSnapshots\<close> gives for a session; \<open>None\<close> is the nil dereference.\<close>

definition session_changes :: "rollbackSession \<Rightarrow> change list option" where
  "session_changes s =
     (case (rs_before s, rs_after s) of
        (Some before, Some after) \<Rightarrow> Some (diffSnapshots before after)
      | _ \<Rightarrow> None)"

text \<open>A loop that a panic ends: the results so far, and whether it did.\<close>

fun until_panic :: "('a \<Rightarrow> 'b option) \<Rightarrow> 'a list \<Rightarrow> 'b list \<times> bool" where
  "until_panic f [] = ([], False)"
| "until_panic f (x # xs) =
     (case f x of
        None \<Rightarrow> ([], True)
      | Some y \<Rightarrow> (case until_panic f xs of (ys, crashed) \<Rightarrow> (y # ys, crashed)))"

fun parse_digits :: "64 word \<Rightarrow> string \<Rightarrow> 64 word option" where
  "parse_digits n [] = Some n"
| "parse_digits n (r # rs) = (if is_digit r then parse_digits (n * 10 + of_nat (digit_val r)) rs else None)"

definition parsePositive :: "string \<Rightarrow> 64 word option" where
  "parsePositive s = (case parse_digits 0 s of None \<Rightarrow> None | Some n \<Rightarrow> if n = 0 then None else Some n)"

definition cleanup_keep :: "string list \<Rightarrow> int" where
  "cleanup_keep argv =
     (case argv of [] \<Rightarrow> 10 | a # _ \<Rightarrow> (case parsePositive a of Some n \<Rightarrow> sint n | None \<Rightarrow> 10))"

text \<open>
  The session files that are removed, by the path the id inside the file gives, and what is left of
  the directory \<open>rd\<close>.
\<close>

definition drop_sessions :: "(string \<Rightarrow> bool) \<Rightarrow> string \<Rightarrow> int \<Rightarrow> session_dir \<Rightarrow> string list \<times> session_dir" where
  "drop_sessions rm_ok rd keep dir =
     (let gone = filter rm_ok (map (\<lambda>s. session_path rd (rs_id s)) (drop (nat keep) (listSessions dir))) in
      (gone, filter (\<lambda>(f, s). join_path [rd, f] \<notin> set gone) dir))"

definition live_hashes :: "session_dir \<Rightarrow> string list option" where
  "live_hashes dir =
     (case until_panic rs_before (listSessions dir) of (befores, crashed) \<Rightarrow>
        if crashed then None
        else Some (filter (\<lambda>h. h \<noteq> []) (concat (map (\<lambda>b. map e_hash (s_entries b)) befores))))"

text \<open>The paths removed, the sessions left, and the objects left unless it crashes before the sweep.\<close>

definition rollbackCleanup ::
  "(string \<Rightarrow> bool) \<Rightarrow> (string \<times> string \<Rightarrow> bool) \<Rightarrow> string \<Rightarrow> string list \<Rightarrow> session_dir \<Rightarrow> objects \<Rightarrow>
     string list \<times> session_dir \<times> objects option" where
  "rollbackCleanup rm_session rm_object rd argv dir objs =
     (case drop_sessions rm_session rd (cleanup_keep argv) dir of (gone, dir) \<Rightarrow>
        (gone, dir,
         map_option (\<lambda>live. filter (\<lambda>((d, ob), v). d @ ob \<in> set live \<or> \<not> rm_object (d, ob)) objs) (live_hashes dir)))"

definition matchesAny :: "string \<Rightarrow> string list \<Rightarrow> bool" where
  "matchesAny path subs \<longleftrightarrow> subs = [] \<or> list_ex (contains_sub path) subs"

datatype show_line = ShownChange change_kind string | RestoreFailed string restore_error | Restored string

text \<open>
  The lines printed, and the files written; \<open>None\<close> is a panic.  \<open>fs_ok\<close> says which paths can be made and
  written.
\<close>

definition show_change ::
  "store_env \<Rightarrow> objects \<Rightarrow> (string \<Rightarrow> bool \<times> bool) \<Rightarrow> bool \<Rightarrow> change \<Rightarrow> (show_line list \<times> (string \<times> string) list) option" where
  "show_change env objs fs_ok apply c =
     (if \<not> apply then Some ([ShownChange (c_kind c) (c_path c)], [])
      else if c_kind c = Added then Some ([], [])
      else (case restore env objs (fst (fs_ok (c_path c))) (snd (fs_ok (c_path c))) c of
              Inl err \<Rightarrow> if err = ShortHash then None else Some ([RestoreFailed (c_path c) err], [])
            | Inr w \<Rightarrow> Some ([Restored (c_path c)], [w])))"

datatype show_result =
    NoSessionNamed | NoSuchSession string | NothingChanged | NoMatch
  | Listing "show_line list" "(string \<times> string) list"
  | Crashed "show_line list" "(string \<times> string) list"

definition rollbackShow ::
  "store_env \<Rightarrow> objects \<Rightarrow> (string \<Rightarrow> bool \<times> bool) \<Rightarrow> session_dir \<Rightarrow> string list \<Rightarrow> bool \<Rightarrow> show_result" where
  "rollbackShow env objs fs_ok dir argv apply =
     (case argv of
        [] \<Rightarrow> NoSessionNamed
      | i # only \<Rightarrow>
          (case loadSession dir i of
             None \<Rightarrow> NoSuchSession i
           | Some s \<Rightarrow>
               (case session_changes s of
                  None \<Rightarrow> Crashed [] []
                | Some changes \<Rightarrow>
                    let matched = filter (\<lambda>c. matchesAny (c_path c) only) changes in
                    if changes = [] then NothingChanged
                    else if matched = [] then NoMatch
                    else (case until_panic (show_change env objs fs_ok apply) matched of (outs, crashed) \<Rightarrow>
                      (if crashed then Crashed else Listing) (concat (map fst outs)) (concat (map snd outs))))))"

definition count_kinds :: "change list \<Rightarrow> nat \<times> nat" where
  "count_kinds cs = (length (filter (\<lambda>c. c_kind c = Deleted) cs), length (filter (\<lambda>c. c_kind c = Modified) cs))"

text \<open>The rows printed, and whether a panic cut them short.\<close>

definition rollbackList :: "session_dir \<Rightarrow> (string \<times> (nat \<times> nat) \<times> string list) list \<times> bool" where
  "rollbackList dir =
     until_panic (\<lambda>s. map_option (\<lambda>cs. (rs_id s, count_kinds cs, rs_cmd s)) (session_changes s)) (listSessions dir)"

section \<open>The command\<close>

datatype rollback_request =
    ListRequest
  | ShowRequest "string list" bool
  | CleanupRequest "string list"

text \<open>\<open>Inl\<close> is the usage text and \<open>fatal(2, ...)\<close>: no subcommand, or the one that is unknown.\<close>

definition rollbackCommand :: "string list \<Rightarrow> string option + rollback_request" where
  "rollbackCommand argv =
     (case argv of
        [] \<Rightarrow> Inl None
      | c # rest \<Rightarrow>
          if c = ''list'' then Inr ListRequest
          else if c = ''show'' then Inr (ShowRequest rest False)
          else if c = ''restore'' then Inr (ShowRequest rest True)
          else if c = ''cleanup'' then Inr (CleanupRequest rest)
          else Inl (Some c))"

end
