(* ===== verification/Rollback_Properties.thy ===== *)
theory Rollback_Properties
  imports Rollback Config Path_Elements
begin

text \<open>
  What rollback promises: a snapshot misses nothing it does not report, the comparison is exact, what
  is put back is what was there, and cleaning up never takes an object a kept session needs.
\<close>

section \<open>The object store\<close>

definition sound :: "store_env \<Rightarrow> objects \<Rightarrow> bool" where
  "sound env objs \<longleftrightarrow> (\<forall>k v. map_of objs k = Some v \<longrightarrow> k = object_key (se_hash env v))"

definition keeps :: "objects \<Rightarrow> objects \<Rightarrow> bool" where
  "keeps old new \<longleftrightarrow> (\<forall>k v. map_of old k = Some v \<longrightarrow> map_of new k = Some v)"

lemma keeps_refl [simp]: "keeps objs objs"
  by (simp add: keeps_def)

lemma keeps_trans: "keeps a b \<Longrightarrow> keeps b c \<Longrightarrow> keeps a c"
  by (simp add: keeps_def)

lemma object_key_inject [simp]: "object_key a = object_key b \<longleftrightarrow> a = b"
  by (metis append_take_drop_id object_key_def prod.inject)

definition stored :: "store_env \<Rightarrow> objects \<Rightarrow> string \<Rightarrow> bool" where
  "stored env objs h \<longleftrightarrow> (\<exists>v. map_of objs (object_key h) = Some v \<and> se_hash env v = h)"

lemma stored_keeps: "keeps a b \<Longrightarrow> stored env a h \<Longrightarrow> stored env b h"
  unfolding keeps_def stored_def by blast

lemma storeFile_keeps:
  assumes "storeFile env content copy objs = (h, objs')"
  shows "keeps objs objs'" and "sound env objs \<Longrightarrow> copy = content \<Longrightarrow> sound env objs'"
  using assms by (auto simp: storeFile_def Let_def sound_def keeps_def update_conv split: option.splits if_splits)

lemma storeFile_hash:
  assumes "storeFile env content copy objs = (Some s, objs')"
  shows "\<exists>c. content = Some c \<and> s = se_hash env c"
    and "sound env objs \<Longrightarrow> copy = content \<Longrightarrow> se_set env \<Longrightarrow> stored env objs' s"
proof -
  show "\<exists>c. content = Some c \<and> s = se_hash env c"
    using assms by (auto simp: storeFile_def Let_def split: option.splits if_splits)
  assume "sound env objs" and "copy = content" and "se_set env"
  moreover from \<open>sound env objs\<close> have "map_of objs (object_key h) = Some v \<Longrightarrow> se_hash env v = h" for h v
    unfolding sound_def by (metis object_key_inject)
  ultimately show "stored env objs' s"
    using assms by (auto simp: storeFile_def Let_def stored_def update_conv split: option.splits if_splits)
qed

section \<open>The walk\<close>

text \<open>An entry records a regular file the walk met; its hash, if any, is the one of the content.\<close>

definition entry_of :: "store_env \<Rightarrow> file_info \<Rightarrow> snapEntry \<Rightarrow> bool" where
  "entry_of env fi e \<longleftrightarrow> e_size e = fi_size fi \<and> e_mode e = fi_mode fi \<and> e_mod e = fi_mod fi \<and>
     (e_hash e \<noteq> [] \<longrightarrow> fi_size fi \<le> rollbackMaxFileSize \<and> (\<exists>c. fi_content fi = Some c \<and> e_hash e = se_hash env c))"

text \<open>No file changes between the two reads.\<close>

definition steady :: "visit set \<Rightarrow> bool" where
  "steady V \<longleftrightarrow> (\<forall>p fi. VisitFile p (Inr fi) \<in> V \<longrightarrow> fi_copy fi = fi_content fi)"

definition walk_ok :: "store_env \<Rightarrow> visit set \<Rightarrow> walk_state \<Rightarrow> bool" where
  "walk_ok env V ws \<longleftrightarrow> sound env (w_objects ws) \<and>
     (\<forall>e \<in> set (w_entries ws). (\<exists>fi. VisitFile (e_path e) (Inr fi) \<in> V \<and> entry_of env fi e) \<and>
        (se_set env \<and> e_hash e \<noteq> [] \<longrightarrow> stored env (w_objects ws) (e_hash e)))"

lemma walk_ok_mono: "walk_ok env V ws \<Longrightarrow> V \<subseteq> W \<Longrightarrow> walk_ok env W ws"
  unfolding walk_ok_def by blast

text \<open>What one file adds, with the hash that \<open>storeFile\<close> gave and the store it left.\<close>

lemma walk_file_entry:
  obtains h objs e where
    "(if fi_size fi \<le> rollbackMaxFileSize then storeFile env (fi_content fi) (fi_copy fi) (w_objects ws)
      else (None, w_objects ws)) = (h, objs)"
    and "walk_file env p fi ws = ws\<lparr>w_objects := objs, w_entries := w_entries ws @ [e]\<rparr>"
    and "e = \<lparr>e_path = p, e_hash = (case h of Some sm \<Rightarrow> sm | None \<Rightarrow> []), e_size = fi_size fi,
      e_mode = fi_mode fi, e_mod = fi_mod fi\<rparr>"
    and "keeps (w_objects ws) objs" and "entry_of env fi e"
proof -
  obtain h objs where h: "(if fi_size fi \<le> rollbackMaxFileSize then storeFile env (fi_content fi) (fi_copy fi) (w_objects ws)
      else (None, w_objects ws)) = (h, objs)"
    by fastforce
  define e where "e = \<lparr>e_path = p, e_hash = (case h of Some sm \<Rightarrow> sm | None \<Rightarrow> []), e_size = fi_size fi,
    e_mode = fi_mode fi, e_mod = fi_mod fi\<rparr>"
  have "keeps (w_objects ws) objs" using h storeFile_keeps(1) by (auto split: if_splits)
  moreover have "entry_of env fi e"
    using h storeFile_hash(1) by (auto simp: entry_of_def e_def split: option.splits if_splits)
  ultimately show ?thesis using that [OF h _ e_def] by (simp add: walk_file_def h e_def)
qed

lemma walk_file_ok:
  assumes "walk_ok env V ws" and "VisitFile p (Inr fi) \<in> V" and "steady V"
  shows "walk_ok env V (walk_file env p fi ws)"
proof (rule walk_file_entry [of fi env ws p])
  fix h objs e
  assume h: "(if fi_size fi \<le> rollbackMaxFileSize then storeFile env (fi_content fi) (fi_copy fi) (w_objects ws)
      else (None, w_objects ws)) = (h, objs)"
    and ws: "walk_file env p fi ws = ws\<lparr>w_objects := objs, w_entries := w_entries ws @ [e]\<rparr>"
    and e: "e = \<lparr>e_path = p, e_hash = (case h of Some sm \<Rightarrow> sm | None \<Rightarrow> []), e_size = fi_size fi,
      e_mode = fi_mode fi, e_mod = fi_mod fi\<rparr>"
    and k: "keeps (w_objects ws) objs" and eo: "entry_of env fi e"
  have s: "sound env (w_objects ws)" using assms(1) by (simp add: walk_ok_def)
  have c: "fi_copy fi = fi_content fi" using assms(2,3) by (auto simp: steady_def)
  have "sound env objs" using h s storeFile_keeps(2) c by (auto split: if_splits)
  moreover have "se_set env \<and> e_hash e \<noteq> [] \<longrightarrow> stored env objs (e_hash e)"
    using h s storeFile_hash(2) c by (auto simp: e split: option.splits if_splits)
  moreover have "stored env (w_objects ws) x \<Longrightarrow> stored env objs x" for x using k stored_keeps by blast
  moreover have "e_path e = p" by (simp add: e)
  ultimately show ?thesis using assms(1,2) eo unfolding walk_ok_def ws by auto
qed

lemma walk_visit_ok:
  assumes "walk_ok env V ws" and "v \<in> V" and "steady V" and "walk_visit env root v ws = (go, ws')"
  shows "walk_ok env V ws'"
proof -
  have upd: "walk_ok env V (ws\<lparr>w_count := n\<rparr>)" "walk_ok env V (ws\<lparr>w_skipped := xs\<rparr>)"
    "walk_ok env V (ws\<lparr>w_count := n, w_skipped := xs\<rparr>)" for n xs
    using assms(1) by (simp_all add: walk_ok_def)
  show ?thesis
    using assms(2,4) walk_file_ok [OF upd(1) _ assms(3)]
    by (auto simp: walk_visit_def Let_def upd split: visit.splits sum.splits if_splits)
qed

lemma walk_keeps:
  assumes "walk_ok env V ws" and "set vs \<subseteq> V" and "steady V"
  shows "walk_ok env V (walk env root vs ws)"
  using assms
proof (induction vs arbitrary: ws)
  case (Cons v vs)
  obtain go ws' where v: "walk_visit env root v ws = (go, ws')" by fastforce
  then have "walk_ok env V ws'" using walk_visit_ok [OF Cons.prems(1) _ Cons.prems(3) v] Cons.prems(2) by simp
  then show ?case using Cons v by simp
qed simp

text \<open>Entries and notes are only added, and an object once stored stays as it is.\<close>

definition grows :: "walk_state \<Rightarrow> walk_state \<Rightarrow> bool" where
  "grows a b \<longleftrightarrow> keeps (w_objects a) (w_objects b) \<and> set (w_entries a) \<subseteq> set (w_entries b) \<and> set (w_skipped a) \<subseteq> set (w_skipped b)"

lemma grows_trans: "grows a b \<Longrightarrow> grows b c \<Longrightarrow> grows a c"
  using keeps_trans by (auto simp: grows_def)

lemma walk_file_grows: "grows ws (walk_file env p fi ws)"
  by (rule walk_file_entry [of fi env ws p]) (auto simp: grows_def)

lemma walk_visit_grows: "walk_visit env root v ws = (go, ws') \<Longrightarrow> grows ws ws'"
  using walk_file_grows [of "ws\<lparr>w_count := w_count ws + 1\<rparr>" env]
  by (auto simp: walk_visit_def grows_def Let_def split: visit.splits sum.splits if_splits)

lemma walk_grows: "grows ws (walk env root vs ws)"
proof (induction vs arbitrary: ws)
  case (Cons v vs)
  obtain go ws' where v: "walk_visit env root v ws = (go, ws')" by fastforce
  then show ?case using Cons.IH [of ws'] walk_visit_grows [OF v] grows_trans by auto
qed (simp add: grows_def)

text \<open>
  The entry of a file: its path and \<open>Info\<close>, and the hash of its content just when the file is not too
  large, its content could be read, and (with a store) the object was there or could be written.
\<close>

definition recorded :: "store_env \<Rightarrow> string \<Rightarrow> file_info \<Rightarrow> snapEntry \<Rightarrow> bool" where
  "recorded env p fi e \<longleftrightarrow>
     e_path e = p \<and> e_size e = fi_size fi \<and> e_mode e = fi_mode fi \<and> e_mod e = fi_mod fi \<and>
     (case fi_content fi of
        None \<Rightarrow> e_hash e = []
      | Some c \<Rightarrow>
          (e_hash e = se_hash env c \<or> e_hash e = []) \<and>
          (fi_size fi > 64 * 1024 * 1024 \<longrightarrow> e_hash e = []) \<and>
          (fi_size fi \<le> 64 * 1024 * 1024 \<and> (se_set env \<longrightarrow> se_put env (se_hash env c) \<and> fi_copy fi \<noteq> None) \<longrightarrow>
             e_hash e = se_hash env c))"

lemma walk_file_recorded: "\<exists>e \<in> set (w_entries (walk_file env p fi ws)). recorded env p fi e"
proof (rule walk_file_entry [of fi env ws p])
  fix h objs e
  assume h: "(if fi_size fi \<le> rollbackMaxFileSize then storeFile env (fi_content fi) (fi_copy fi) (w_objects ws)
      else (None, w_objects ws)) = (h, objs)"
    and ws: "walk_file env p fi ws = ws\<lparr>w_objects := objs, w_entries := w_entries ws @ [e]\<rparr>"
    and e: "e = \<lparr>e_path = p, e_hash = (case h of Some sm \<Rightarrow> sm | None \<Rightarrow> []), e_size = fi_size fi,
      e_mode = fi_mode fi, e_mod = fi_mod fi\<rparr>"
  have "recorded env p fi e"
    using h
    by (auto simp: recorded_def e storeFile_def rollbackMaxFileSize_def Let_def split: option.splits if_splits)
  then show ?thesis by (simp add: ws)
qed

definition accounted :: "store_env \<Rightarrow> visit \<Rightarrow> walk_state \<Rightarrow> bool" where
  "accounted env v ws \<longleftrightarrow> (case v of VisitError p m \<Rightarrow> skip_error p m \<in> set (w_skipped ws)
     | VisitFile p (Inl m) \<Rightarrow> skip_error p m \<in> set (w_skipped ws)
     | VisitFile p (Inr fi) \<Rightarrow> \<exists>e \<in> set (w_entries ws). recorded env p fi e)"

lemma accounted_grows: "accounted env v a \<Longrightarrow> grows a b \<Longrightarrow> accounted env v b"
  by (force simp: accounted_def grows_def split: visit.splits sum.splits)

lemma walk_visit_accounts:
  "walk_visit env root v ws = (go, ws') \<Longrightarrow> if go then accounted env v ws' else skip_many root \<in> set (w_skipped ws')"
  by (auto simp: walk_visit_def walk_file_recorded accounted_def Let_def split: visit.splits sum.splits if_splits prod.splits)

lemma walk_accounts:
  "v \<in> set vs \<Longrightarrow> accounted env v (walk env root vs ws) \<or> skip_many root \<in> set (w_skipped (walk env root vs ws))"
proof (induction vs arbitrary: ws)
  case (Cons u vs)
  obtain go ws' where u: "walk_visit env root u ws = (go, ws')" by fastforce
  show ?case
  proof (cases go)
    case True
    show ?thesis
    proof (cases "v = u")
      case True
      with walk_visit_accounts [OF u] accounted_grows walk_grows [of ws' env root vs] u \<open>go\<close> show ?thesis by auto
    next
      case False
      then show ?thesis using Cons u True by simp
    qed
  next
    case False
    with walk_visit_accounts [OF u] u show ?thesis by simp
  qed
qed simp

text \<open>The walk of all roots, and what it needs for the store to be sound.\<close>

abbreviation start_walk :: "objects \<Rightarrow> walk_state" where
  "start_walk objs \<equiv> \<lparr>w_entries = [], w_skipped = [], w_count = 0, w_objects = objs\<rparr>"

lemma walk_root_grows: "grows ws (walk_root env t ws r)"
  using walk_grows [of "ws\<lparr>w_count := 0\<rparr>" env r "root_visits t r"] by (simp add: walk_root_def grows_def)

lemma walk_roots_grow: "grows ws (foldl (walk_root env t) ws roots)"
proof (induction roots arbitrary: ws)
  case (Cons r roots)
  from grows_trans [OF walk_root_grows Cons.IH] show ?case by simp
qed (simp add: grows_def)

lemma walk_roots_account:
  "r \<in> set roots \<Longrightarrow> v \<in> set (root_visits t r) \<Longrightarrow>
     accounted env v (foldl (walk_root env t) ws roots) \<or> skip_many r \<in> set (w_skipped (foldl (walk_root env t) ws roots))"
proof (induction roots arbitrary: ws)
  case (Cons q roots)
  show ?case
  proof (cases "r = q")
    case True
    have g: "grows (walk_root env t ws q) (foldl (walk_root env t) (walk_root env t ws q) roots)"
      by (rule walk_roots_grow)
    have "accounted env v (walk_root env t ws q) \<or> skip_many q \<in> set (w_skipped (walk_root env t ws q))"
      unfolding walk_root_def by (rule walk_accounts) (use Cons.prems(2) True in simp)
    then show ?thesis using accounted_grows [OF _ g] g True by (auto simp: grows_def)
  qed (use Cons in simp)
qed simp

lemma walk_roots_ok:
  assumes "walk_ok env V ws" and "steady V" and "\<And>r. r \<in> set roots \<Longrightarrow> set (root_visits t r) \<subseteq> V"
  shows "walk_ok env V (foldl (walk_root env t) ws roots)"
  using assms(1,3)
proof (induction roots arbitrary: ws)
  case (Cons r roots)
  have "walk_ok env V (ws\<lparr>w_count := 0\<rparr>)" using Cons.prems(1) by (simp add: walk_ok_def)
  then have "walk_ok env V (walk_root env t ws r)"
    unfolding walk_root_def by (rule walk_keeps) (use Cons.prems(2) assms(2) in simp_all)
  with Cons show ?case by simp
qed simp

lemma takeSnapshot_state:
  assumes "takeSnapshot env mkdir_ok t now roots objs = Some (snap, objs')"
  defines "ws \<equiv> foldl (walk_root env t) (start_walk objs) roots"
  shows "set (s_entries snap) = set (w_entries ws)" and "s_skipped snap = w_skipped ws" and "objs' = w_objects ws"
    and "s_roots snap = roots" and "keeps objs objs'"
proof -
  show "set (s_entries snap) = set (w_entries ws)" and "s_skipped snap = w_skipped ws" and o: "objs' = w_objects ws"
    and "s_roots snap = roots"
    using assms(1) by (auto simp: takeSnapshot_def Let_def ws_def split: if_splits)
  show "keeps objs objs'" using walk_roots_grow [of "start_walk objs" env t roots] by (simp add: o ws_def grows_def)
qed

definition all_visits :: "tree \<Rightarrow> string list \<Rightarrow> visit set" where
  "all_visits t roots = (\<Union>r \<in> set roots. set (root_visits t r))"

lemma takeSnapshot_sound:
  assumes "takeSnapshot env mkdir_ok t now roots objs = Some (snap, objs')" and "sound env objs"
    and "steady (all_visits t roots)"
  shows "\<forall>e \<in> set (s_entries snap).
       (\<exists>fi. VisitFile (e_path e) (Inr fi) \<in> all_visits t roots \<and> entry_of env fi e) \<and>
       (se_set env \<and> e_hash e \<noteq> [] \<longrightarrow> stored env objs' (e_hash e))"
proof -
  have "walk_ok env (all_visits t roots) (start_walk objs)" using assms(2) by (simp add: walk_ok_def)
  then have "walk_ok env (all_visits t roots) (foldl (walk_root env t) (start_walk objs) roots)"
    by (rule walk_roots_ok [OF _ assms(3)]) (auto simp: all_visits_def)
  then show ?thesis unfolding takeSnapshot_state [OF assms(1)] walk_ok_def by blast
qed

text \<open>
  C31. A snapshot accounts for every regular file the walk meets under its roots (outside the directories
  named in \<open>rollbackSkip\<close>): it has an entry with its size, mode and time, or it lies under a root that is
  named among the skipped for going over the file limit.  A file whose \<open>Info\<close> fails, and a path the walk
  reports an error for, is named among the skipped with the error.  The entry carries the content's
  hash if the file is within the size limit and its content could be read and stored; otherwise it
  may have no hash, and nothing says so: a file that is too large, unreadable or not storable is not
  named among the skipped.  Symbolic links and other special files, and roots that are no directory,
  are left out without an entry or a note.
\<close>

theorem snapshot_accounts_for_every_file:
  assumes "takeSnapshot env mkdir_ok t now roots objs = Some (snap, objs')"
    and "r \<in> set roots" and "v \<in> set (root_visits t r)"
  shows "skip_many r \<in> set (s_skipped snap) \<or>
    (case v of VisitError p m \<Rightarrow> skip_error p m \<in> set (s_skipped snap)
     | VisitFile p (Inl m) \<Rightarrow> skip_error p m \<in> set (s_skipped snap)
     | VisitFile p (Inr fi) \<Rightarrow> \<exists>e \<in> set (s_entries snap). recorded env p fi e)"
  using walk_roots_account [OF assms(2,3), of env "start_walk objs"]
  unfolding takeSnapshot_state [OF assms(1)] accounted_def by blast

section \<open>The comparison\<close>

definition paths_of :: "snapshot \<Rightarrow> string set" where
  "paths_of snap = e_path ` set (s_entries snap)"

lemma snap_map_None: "snap_map es p = None \<longleftrightarrow> p \<notin> e_path ` set es"
  by (auto simp: snap_map_def map_of_eq_None_iff image_iff)

lemma snap_map_Some: "distinct (map e_path es) \<Longrightarrow> snap_map es p = Some e \<longleftrightarrow> e \<in> set es \<and> e_path e = p"
proof -
  have "map fst (rev (map (\<lambda>e. (e_path e, e)) es)) = rev (map e_path es)" by (simp add: rev_map comp_def)
  then show "distinct (map e_path es) \<Longrightarrow> ?thesis"
    unfolding snap_map_def by (subst map_of_eq_Some_iff) auto
qed

lemma set_diff: "set (diffSnapshots before after) =
    (\<Union>e \<in> set (s_entries before). set (before_change (snap_map (s_entries after)) e)) \<union>
    (\<Union>e \<in> set (s_entries after). set (after_change (snap_map (s_entries before)) e))"
  by (simp add: diffSnapshots_def)

text \<open>The specification: a change of each kind, from the two sets of entries.\<close>

definition is_change :: "snapshot \<Rightarrow> snapshot \<Rightarrow> change \<Rightarrow> bool" where
  "is_change before after c \<longleftrightarrow>
     (case c_kind c of
        Added \<Rightarrow> \<exists>e \<in> set (s_entries after). e_path e \<notin> paths_of before \<and> c_path c = e_path e \<and> c_hash c = [] \<and> c_size c = e_size e
      | Deleted \<Rightarrow> \<exists>e \<in> set (s_entries before). e_path e \<notin> paths_of after \<and> c_path c = e_path e \<and> c_hash c = e_hash e \<and> c_size c = e_size e
      | Modified \<Rightarrow> \<exists>e \<in> set (s_entries before). \<exists>e' \<in> set (s_entries after). e_path e' = e_path e \<and>
          (e_hash e' \<noteq> e_hash e \<or> e_size e' \<noteq> e_size e) \<and> c_path c = e_path e \<and> c_hash c = e_hash e \<and> c_size c = e_size e)"

lemma before_change_iff:
  assumes "distinct (map e_path (s_entries after))"
  shows "c \<in> set (before_change (snap_map (s_entries after)) e) \<longleftrightarrow>
    c_path c = e_path e \<and> c_hash c = e_hash e \<and> c_size c = e_size e \<and>
    (c_kind c = Deleted \<and> e_path e \<notin> paths_of after \<or>
     c_kind c = Modified \<and> (\<exists>e' \<in> set (s_entries after). e_path e' = e_path e \<and> (e_hash e' \<noteq> e_hash e \<or> e_size e' \<noteq> e_size e)))"
proof (cases "snap_map (s_entries after) (e_path e)")
  case None
  then have "e_path e \<notin> paths_of after" "\<forall>e' \<in> set (s_entries after). e_path e' \<noteq> e_path e"
    by (auto simp: snap_map_None paths_of_def image_iff)
  then show ?thesis using None by (cases c) (auto simp: before_change_def)
next
  case (Some cur)
  with snap_map_Some [OF assms] have cur: "cur \<in> set (s_entries after)" "e_path cur = e_path e" by auto
  have uniq: "e' = cur" if "e' \<in> set (s_entries after)" "e_path e' = e_path e" for e'
    using snap_map_Some [OF assms] that Some by (metis option.inject)
  have "e_path e \<in> paths_of after" using cur unfolding paths_of_def by (metis imageI)
  moreover have "(\<exists>e' \<in> set (s_entries after). e_path e' = e_path e \<and> (e_hash e' \<noteq> e_hash e \<or> e_size e' \<noteq> e_size e)) \<longleftrightarrow>
      e_hash cur \<noteq> e_hash e \<or> e_size cur \<noteq> e_size e"
    using cur uniq by blast
  ultimately show ?thesis using Some by (cases c) (simp add: before_change_def, blast)
qed

lemma after_change_iff:
  "c \<in> set (after_change (snap_map (s_entries before)) e) \<longleftrightarrow>
    c_path c = e_path e \<and> c_hash c = [] \<and> c_size c = e_size e \<and> c_kind c = Added \<and> e_path e \<notin> paths_of before"
  by (cases c) (auto simp: after_change_def snap_map_None paths_of_def)

text \<open>
  C30. The review is exact: for two snapshots that record each path once, the list holds precisely the
  deletions, modifications (hash or size) and additions, each with the hash and size it had before, and
  is sorted by path.
\<close>

theorem diff_is_exact:
  assumes "distinct (map e_path (s_entries before))" and "distinct (map e_path (s_entries after))"
  shows "set (diffSnapshots before after) = {c. is_change before after c} \<and>
    sorted (map c_path (diffSnapshots before after))"
proof
  show "set (diffSnapshots before after) = {c. is_change before after c}"
  proof (rule set_eqI)
    fix c
    show "c \<in> set (diffSnapshots before after) \<longleftrightarrow> c \<in> {c. is_change before after c}"
      unfolding set_diff Un_iff UN_iff before_change_iff [OF assms(2)] after_change_iff mem_Collect_eq is_change_def
      by (cases "c_kind c") auto
  qed
qed (simp add: diffSnapshots_def)

section \<open>Putting back\<close>

lemma restore_ok:
  "restore env objs mk wr c = Inr w \<longleftrightarrow>
     c_kind c \<noteq> Added \<and> 2 \<le> length (c_hash c) \<and> mk \<and> wr \<and>
     (\<exists>v. map_of objs (object_key (c_hash c)) = Some v \<and> se_hash env v = c_hash c \<and> w = (c_path c, v))"
  by (cases "c_hash c") (auto simp: restore_def Suc_le_eq split: option.splits)

text \<open>
  Nothing but the recorded content is ever written back: a restore that succeeds writes, to the
  path of the change, bytes whose hash is the recorded one, for a deletion or a modification; without
  the content, or with content that does not match, it is an error that names which.
\<close>

lemma restore_writes_only_recorded_content:
  "(case restore env objs mkdir_ok write_ok c of
      Inr (p, data) \<Rightarrow> p = c_path c \<and> se_hash env data = c_hash c \<and> c_kind c \<in> {Deleted, Modified}
    | Inl WasAdded \<Rightarrow> c_kind c = Added
    | Inl NotStored \<Rightarrow> c_hash c = []
    | Inl ShortHash \<Rightarrow> length (c_hash c) < 12
    | Inl ObjectMissing \<Rightarrow> map_of objs (object_key (c_hash c)) = None
    | Inl HashMismatch \<Rightarrow> \<exists>data. map_of objs (object_key (c_hash c)) = Some data \<and> se_hash env data \<noteq> c_hash c
    | Inl NoDirectory \<Rightarrow> \<not> mkdir_ok
    | Inl WriteFailed \<Rightarrow> \<not> write_ok)"
  by (cases "c_kind c") (auto simp: restore_def split: option.splits)

lemma until_panic_total: "list_all (\<lambda>x. f x \<noteq> None) xs \<Longrightarrow> until_panic f xs = (map (\<lambda>x. the (f x)) xs, False)"
  by (induction xs) auto

lemma until_panic_done: "until_panic f xs = (ys, False) \<Longrightarrow> map f xs = map Some ys"
  by (induction xs arbitrary: ys) (auto split: option.splits prod.splits)

lemma hashed_never_panics:
  assumes "c_hash c = [] \<or> 12 \<le> length (c_hash c)"
  shows "show_change env objs fs_ok apply c \<noteq> None"
  using assms by (auto simp: show_change_def restore_def split: sum.splits option.splits if_splits)

lemma show_restores:
  assumes "loadSession dir i = Some s" and "session_changes s = Some cs" and "c \<in> set cs"
    and "\<And>c. c \<in> set cs \<Longrightarrow> c_hash c = [] \<or> 12 \<le> length (c_hash c)"
    and "restore env objs True True c = Inr w" and "fs_ok (c_path c) = (True, True)"
  shows "\<exists>ls ws. rollbackShow env objs fs_ok dir [i] True = Listing ls ws \<and> w \<in> set ws"
proof -
  let ?show = "show_change env objs fs_ok True"
  have u: "until_panic ?show cs = (map (\<lambda>c. the (?show c)) cs, False)"
    by (rule until_panic_total) (use assms(4) hashed_never_panics in \<open>auto simp: list_all_iff\<close>)
  have "c_kind c \<noteq> Added" using assms(5) by (simp add: restore_ok)
  then have "snd (the (?show c)) = [w]" using assms(5,6) by (simp add: show_change_def)
  then have "w \<in> set (concat (map snd (map (\<lambda>c. the (?show c)) cs)))" using assms(3) by (auto intro!: bexI [of _ c])
  moreover have "cs \<noteq> []" using assms(3) by auto
  ultimately show ?thesis using assms(1,2) u by (simp add: rollbackShow_def matchesAny_def Let_def)
qed

text \<open>
  What a session brings back: an entry of its first snapshot whose content was stored and which is gone
  or has another hash in the second.  No two contents may share this entry's hash, and a hash has the
  length of one (\<open>sha256\<close> has 64 digits).  Between the snapshots the store may change except for this
  entry's object, and only the entry's own path has to be writable when it is put back.
\<close>

lemma changed_file_comes_back:
  assumes "takeSnapshot env mk1 t1 now1 roots objs0 = Some (before, objs1)"
    and "takeSnapshot env mk2 t2 now2 roots objs1' = Some (after, objs2)"
    and "sound env objs0" and "steady (all_visits t1 roots)" and "se_set env"
    and "map_of objs1' (object_key (e_hash e)) = map_of objs1 (object_key (e_hash e))"
    and "e \<in> set (s_entries before)" and "e_hash e \<noteq> []"
    and "\<forall>cur. snap_map (s_entries after) (e_path e) = Some cur \<longrightarrow> e_hash cur \<noteq> e_hash e"
    and no_collision: "\<forall>v w. se_hash env v = e_hash e \<longrightarrow> se_hash env w = e_hash e \<longrightarrow> v = w"
    and long: "\<forall>v. 12 \<le> length (se_hash env v)"
    and "loadSession dir i = Some s" and "rs_before s = Some before" and "rs_after s = Some after"
    and "fs_ok (e_path e) = (True, True)"
  shows "\<exists>fi content. VisitFile (e_path e) (Inr fi) \<in> all_visits t1 roots \<and> fi_content fi = Some content \<and>
    (\<exists>ls ws. rollbackShow env objs2 fs_ok dir [i] True = Listing ls ws \<and> (e_path e, content) \<in> set ws)"
proof -
  note s1 = takeSnapshot_sound [OF assms(1,3,4)]
  then obtain fi where r: "VisitFile (e_path e) (Inr fi) \<in> all_visits t1 roots" and "entry_of env fi e"
    and st: "stored env objs1 (e_hash e)" using assms(5,7,8) by blast
  then obtain content where c: "fi_content fi = Some content" "e_hash e = se_hash env content"
    using assms(8) by (auto simp: entry_of_def)
  have "stored env objs1' (e_hash e)" using st by (simp add: stored_def assms(6))
  then obtain v where v: "map_of objs2 (object_key (e_hash e)) = Some v" "se_hash env v = e_hash e"
    using stored_keeps [OF takeSnapshot_state(5) [OF assms(2)]] unfolding stored_def by blast
  then have "v = content" using no_collision c(2) by metis
  define ch where "ch = \<lparr>c_path = e_path e,
    c_kind = (if snap_map (s_entries after) (e_path e) = None then Deleted else Modified), c_hash = e_hash e, c_size = e_size e\<rparr>"
  let ?cs = "diffSnapshots before after"
  have "ch \<in> set (before_change (snap_map (s_entries after)) e)"
    using assms(9) by (auto simp: ch_def before_change_def split: option.splits)
  then have ch: "ch \<in> set ?cs" using assms(7) by (auto simp: set_diff)
  have "12 \<le> length (e_hash e)" using c(2) long by simp
  then have re: "restore env objs2 True True ch = Inr (e_path e, content)"
    using v \<open>v = content\<close> by (simp add: restore_ok ch_def)
  have hashed: "c_hash x = [] \<or> 12 \<le> length (c_hash x)" if "x \<in> set ?cs" for x
  proof -
    have "c_hash x = [] \<or> (\<exists>d \<in> set (s_entries before). c_hash x = e_hash d)"
      using that by (auto simp: set_diff before_change_def after_change_def split: option.splits if_splits)
    moreover have "e_hash d = [] \<or> (\<exists>v. e_hash d = se_hash env v)" if "d \<in> set (s_entries before)" for d
      using s1 that by (auto simp: entry_of_def)
    ultimately show ?thesis using long by metis
  qed
  have "session_changes s = Some ?cs" using assms(13,14) by (simp add: session_changes_def)
  moreover have "fs_ok (c_path ch) = (True, True)" using assms(15) by (simp add: ch_def)
  ultimately show ?thesis using show_restores [OF assms(12) _ ch hashed re] r c(1) by blast
qed

section \<open>Cleaning up\<close>

lemma change_hash_live:
  assumes "session_changes s = Some cs" and "c \<in> set cs" and "c_hash c \<noteq> []" and "s \<in> set (listSessions dir)"
    and "live_hashes dir = Some live"
  shows "c_hash c \<in> set live"
proof -
  obtain before after where ba: "rs_before s = Some before" "cs = diffSnapshots before after"
    using assms(1) by (auto simp: session_changes_def split: option.splits)
  have e: "\<exists>e \<in> set (s_entries before). c_hash c = e_hash e"
    using assms(2,3) ba(2) by (auto simp: set_diff before_change_def after_change_def split: option.splits if_splits)
  obtain bs where bs: "until_panic rs_before (listSessions dir) = (bs, False)"
    "live = filter (\<lambda>h. h \<noteq> []) (concat (map (\<lambda>b. map e_hash (s_entries b)) bs))"
    using assms(5) by (auto simp: live_hashes_def split: prod.splits if_splits)
  have "before \<in> set bs" using until_panic_done [OF bs(1)] assms(4) ba(1) by (metis image_eqI list.set_map image_iff option.inject)
  then show ?thesis using e assms(3) bs(2) by auto
qed

lemma map_of_filter_key: "map_of (filter (\<lambda>(k, v). P k) al) k = (if P k then map_of al k else None)"
  by (induction al) auto

lemma object_key_append: "object_key h = (d, ob) \<Longrightarrow> d @ ob = h"
  by (auto simp: object_key_def)

lemma set_listSessions: "s \<in> set (listSessions dir) \<longleftrightarrow> (\<exists>f. (f, Some s) \<in> set dir \<and> has_suffix f ''.json'')"
  by (force simp: listSessions_def List.map_filter_def split: if_splits)

text \<open>
  C29. Cleaning up never hollows out a session: if it gets to the sweep, whatever number is asked for and whichever removals
  fail, every change of every session that is still listed and could be restored before can be
  restored after, and the objects that are left are objects that were there.
\<close>

theorem cleanup_keeps_sessions_restorable:
  assumes "rollbackCleanup rm_session rm_object rd argv dir objs = (gone, dir', Some objs')"
    and "s \<in> set (listSessions dir')" and "session_changes s = Some cs" and "c \<in> set cs"
    and "restore env objs mkdir_ok write_ok c = Inr w"
  shows "restore env objs' mkdir_ok write_ok c = Inr w \<and> set objs' \<subseteq> set objs \<and> s \<in> set (listSessions dir)"
proof -
  have d: "drop_sessions rm_session rd (cleanup_keep argv) dir = (gone, dir')"
    using assms(1) by (cases "drop_sessions rm_session rd (cleanup_keep argv) dir") (simp add: rollbackCleanup_def)
  then obtain live where live: "live_hashes dir' = Some live"
    and swept: "objs' = filter (\<lambda>((d, ob), v). d @ ob \<in> set live \<or> \<not> rm_object (d, ob)) objs"
    using assms(1) by (cases "live_hashes dir'") (simp_all add: rollbackCleanup_def)
  have dir': "dir' = snd (drop_sessions rm_session rd (cleanup_keep argv) dir)" using d by simp
  let ?keep = "\<lambda>k. fst k @ snd k \<in> set live \<or> \<not> rm_object k"
  have objs': "objs' = filter (\<lambda>(k, v). ?keep k) objs"
    unfolding swept by (auto intro!: filter_cong)
  have "c_hash c \<noteq> []" using assms(5) by (auto simp: restore_ok)
  then have "c_hash c \<in> set live" using change_hash_live [OF assms(3,4) _ assms(2) live] by blast
  then have "?keep (object_key (c_hash c))" by (simp add: object_key_def)
  then have "map_of objs' (object_key (c_hash c)) = map_of objs (object_key (c_hash c))"
    unfolding objs' map_of_filter_key by simp
  then have "restore env objs' mkdir_ok write_ok c = Inr w" using assms(5) by (simp add: restore_ok)
  moreover have "s \<in> set (listSessions dir)"
    using assms(2) by (auto simp: set_listSessions dir' drop_sessions_def Let_def)
  ultimately show ?thesis by (auto simp: objs')
qed

fun decimal :: "nat \<Rightarrow> string \<Rightarrow> nat" where
  "decimal n [] = n"
| "decimal n (r # rs) = decimal (n * 10 + digit_val r) rs"

lemma parse_digits_decimal:
  "parse_digits (of_nat n) s = (if list_all is_digit s then Some (of_nat (decimal n s)) else None)"
proof (induction s arbitrary: n)
  case (Cons r rs)
  have "(of_nat n * 10 + of_nat (digit_val r) :: 64 word) = of_nat (n * 10 + digit_val r)" by simp
  then show ?case using Cons.IH [of "n * 10 + digit_val r"] by (simp del: of_nat_add of_nat_mult)
qed simp

lemma sint_of_nat_64: "sint (of_nat v :: 64 word) = (int v + 2 ^ 63) mod 2 ^ 64 - 2 ^ 63"
  by (simp add: sint_uint signed_take_bit_eq_take_bit_shift take_bit_eq_mod unsigned_of_nat zmod_int mod_simps)

text \<open>
  How many sessions are kept: the number given, read as decimal digits and reduced to a signed
  64-bit integer; ten when there is none, when it is no number or reduces to zero.  Below 2^63 it is
  the number itself; past it, it wraps and may be negative, and then every session is dropped.
\<close>

theorem cleanup_count_wraps:
  "cleanup_keep argv =
    (case argv of [] \<Rightarrow> 10
     | a # _ \<Rightarrow>
         let v = (int (decimal 0 a) + 2 ^ 63) mod 2 ^ 64 - 2 ^ 63 in
         if list_all is_digit a \<and> v \<noteq> 0 then v else 10)"
proof (cases argv)
  case (Cons a rest)
  have "parse_digits 0 a = (if list_all is_digit a then Some (of_nat (decimal 0 a)) else None)"
    using parse_digits_decimal [of 0 a] by simp
  moreover have "(of_nat (decimal 0 a) :: 64 word) = 0 \<longleftrightarrow> sint (of_nat (decimal 0 a) :: 64 word) = 0"
    by (simp add: signed_eq_0_iff)
  ultimately show ?thesis
    unfolding Cons cleanup_keep_def parsePositive_def sint_of_nat_64 [symmetric] Let_def by simp
qed (simp add: cleanup_keep_def)

section \<open>Where the store lives\<close>

lemma join_resolve: "list_all proper hs \<Longrightarrow> plain_rel (join_with ''/'' es) \<Longrightarrow> es \<noteq> [] \<Longrightarrow>
    join_path (mk_abs hs # es) = mk_abs (hs @ clean_out (join_with ''/'' es))"
proof -
  assume *: "list_all proper hs" "plain_rel (join_with ''/'' es)" "es \<noteq> []"
  have "join_with ''/'' es \<noteq> []" using *(2) by (auto simp: plain_rel_def clean_out_def)
  then have "join_path (mk_abs hs # es) = join_path [mk_abs hs, join_with ''/'' es]"
    using *(3) by (cases es) (simp_all add: join_path_def mk_abs_def)
  also have "\<dots> = resolve (mk_abs hs) (join_with ''/'' es)"
    using *(2) by (simp add: resolve_def plain_rel_def)
  finally show ?thesis using resolve_rel [OF *(1,2)] by simp
qed

text \<open>
  Unless \<open>XDG_STATE_HOME\<close> points elsewhere, the snapshot store and the sessions lie inside
  \<open>~/.local/state\<close>, an entry of the built-in writable list: under \<open>--rollback\<close>, where writes are
  real, the jail can reach the very record its writes are to be undone from.
\<close>

lemma store_is_inside_a_writable_root:
  assumes "canonical home"
  shows "''.local/state'' \<in> set rwPaths \<and>
    under (rollbackDir [] (Some home)) (resolve home ''.local/state'') \<and>
    under (rollbackStore [] (Some home)) (resolve home ''.local/state'')"
proof -
  obtain hs where h: "home = mk_abs hs" "list_all proper hs" using canonicalD [OF assms] by blast
  have c: "clean_out ''.local/state'' = [''.local'', ''state'']" "clean_out ''azkaban/rollback'' = [''azkaban'', ''rollback'']"
    "clean_out ''objects'' = [''objects'']" "plain_rel ''.local/state''" "plain_rel ''azkaban/rollback''" "plain_rel ''objects''"
    "''.local/state'' \<in> set rwPaths" "join_with ''/'' [''.local'', ''state''] = ''.local/state''"
    "join_with ''/'' [''azkaban'', ''rollback''] = ''azkaban/rollback''" "join_with ''/'' [''objects''] = ''objects''"
    by code_simp+
  have p: "list_all proper (hs @ [''.local'', ''state''])" "list_all proper (hs @ [''.local'', ''state'', ''azkaban'', ''rollback''])"
    "list_all proper (hs @ [''.local'', ''state'', ''azkaban'', ''rollback'', ''objects''])"
    using h(2) by (simp_all add: proper_def)
  have r: "resolve home ''.local/state'' = mk_abs (hs @ [''.local'', ''state''])"
    using resolve_rel [OF h(2) c(4)] by (simp only: h c)
  have d: "rollbackDir [] (Some home) = mk_abs (hs @ [''.local'', ''state'', ''azkaban'', ''rollback''])"
    using join_resolve [OF h(2), of "[''.local'', ''state'']"] join_resolve [OF p(1), of "[''azkaban'', ''rollback'']"] c
    by (simp add: rollbackDir_def h(1))
  have s: "rollbackStore [] (Some home) = mk_abs (hs @ [''.local'', ''state'', ''azkaban'', ''rollback'', ''objects''])"
    using join_resolve [OF p(2), of "[''objects'']"] c by (simp add: rollbackStore_def d)
  show ?thesis using c(7) unfolding r d s by (simp only: under_mk_abs p) simp
qed

text \<open>Without a home directory the store is a path relative to the working directory.\<close>

lemma store_without_home: "rollbackStore [] None = ''objects''"
  by code_simp

section \<open>Gaps\<close>

text \<open>
  Two changes a review does not show: a root that is no directory, such as the built-in \<open>.claude.json\<close>, is
  neither walked nor reported as skipped; and an entry without a stored hash compares by size alone.
\<close>

lemma file_roots_are_ignored:
  "tr_stat t root \<noteq> Some True \<Longrightarrow> walk_root env t ws root = ws\<lparr>w_count := 0\<rparr>" and claude_json_is_a_root: "''.claude.json'' \<in> set rwPaths"
  by (simp_all add: walk_root_def root_visits_def rwPaths_def)

lemma oversize_change_unseen:
  assumes "now (e_path e) = Some cur" and "e_hash e = []" and "e_hash cur = []" and "e_size cur = e_size e"
  shows "before_change now e = []"
  using assms by (simp add: before_change_def)

section \<open>A sample run\<close>

text \<open>The jail deletes the one file of \<open>~/.claude\<close>.\<close>

definition sample_hash :: string where "sample_hash = ''ab'' @ replicate 62 (CHR ''1'')"

lemma sample_hash_facts: "length sample_hash = 64" "object_key sample_hash = (''ab'', replicate 62 (CHR ''1''))" "sample_hash \<noteq> []"
  by (simp_all add: sample_hash_def object_key_def)

definition sample_env :: store_env where
  "sample_env = \<lparr>se_hash = (\<lambda>c. if c = ''hello'' then sample_hash else replicate 64 (CHR ''0'')), se_put = (\<lambda>h. True), se_set = True\<rparr>"

definition sample_file :: file_info where
  "sample_file = \<lparr>fi_size = 5, fi_mode = 420, fi_mod = 1, fi_content = Some ''hello'', fi_copy = Some ''hello''\<rparr>"

definition sample_tree :: "(string \<times> node) list \<Rightarrow> tree" where
  "sample_tree cs = \<lparr>tr_stat = (\<lambda>p. Some True), tr_node = (\<lambda>p. Directory None cs)\<rparr>"

definition full_tree :: tree where "full_tree = sample_tree [(''a'', Regular (Inr sample_file))]"
definition empty_tree :: tree where "empty_tree = sample_tree []"

definition sample_entry :: snapEntry where
  "sample_entry = \<lparr>e_path = ''/h/.claude/a'', e_hash = sample_hash, e_size = 5, e_mode = 420, e_mod = 1\<rparr>"

definition sample_snap :: "snapEntry list \<Rightarrow> snapshot" where
  "sample_snap es = \<lparr>s_version = 1, s_taken = 0, s_roots = [''/h/.claude''], s_entries = es, s_skipped = []\<rparr>"

definition sample_objects :: objects where "sample_objects = [((''ab'', replicate 62 (CHR ''1'')), ''hello'')]"

definition sample_session :: rollbackSession where
  "sample_session = \<lparr>rs_id = ''s'', rs_cmd = [''sh''], rs_cwd = ''/p'', rs_start = 0, rs_end = 1,
     rs_before = Some (sample_snap [sample_entry]), rs_after = Some (sample_snap [])\<rparr>"

lemma sample_visits: "root_visits full_tree ''/h/.claude'' = [VisitFile ''/h/.claude/a'' (Inr sample_file)]"
proof -
  have "base_of ''/h/.claude'' = ''.claude''" "''.claude'' \<notin> set rollbackSkip" "join_path [''/h/.claude'', ''a''] = ''/h/.claude/a''"
    by code_simp+
  then show ?thesis by (simp add: root_visits_def full_tree_def sample_tree_def)
qed

lemma empty_visits: "root_visits empty_tree ''/h/.claude'' = []"
  by (simp add: root_visits_def empty_tree_def sample_tree_def)

lemma sample_taken: "takeSnapshot sample_env True full_tree 0 [''/h/.claude''] [] = Some (sample_snap [sample_entry], sample_objects)"
  by (simp add: takeSnapshot_def walk_root_def sample_visits walk_visit_def walk_file_def storeFile_def sample_env_def sample_file_def
      rollbackMaxFiles_def rollbackMaxFileSize_def sample_hash_facts sample_snap_def sample_entry_def sample_objects_def Let_def)

lemma empty_taken: "takeSnapshot sample_env True empty_tree 0 [''/h/.claude''] sample_objects = Some (sample_snap [], sample_objects)"
  by (simp add: takeSnapshot_def walk_root_def empty_visits sample_env_def sample_snap_def Let_def)

lemma sample_diff: "diffSnapshots (sample_snap [sample_entry]) (sample_snap []) =
    [\<lparr>c_path = ''/h/.claude/a'', c_kind = Deleted, c_hash = sample_hash, c_size = 5\<rparr>]"
  by (simp add: diffSnapshots_def sample_snap_def snap_map_def before_change_def sample_entry_def)

lemma sample_dir: "loadSession [(''s.json'', Some sample_session)] ''s'' = Some sample_session"
  "listSessions [(''s.json'', Some sample_session)] = [sample_session]"
proof -
  have "has_suffix ''s.json'' ''.json''" by (rule suffixI [of _ "''s''"]) simp
  then show "listSessions [(''s.json'', Some sample_session)] = [sample_session]"
    by (simp add: listSessions_def List.map_filter_def)
qed (simp add: loadSession_def session_file_def)

lemma empty_sound: "sound env []"
  by (simp add: sound_def)

lemma sample_steady: "steady (all_visits full_tree [''/h/.claude''])"
  by (simp add: steady_def all_visits_def sample_visits sample_file_def)

theorem snapshot_accounts_for_every_file_witness:
  "\<exists>e \<in> set (s_entries (sample_snap [sample_entry])). e_path e = ''/h/.claude/a'' \<and> e_size e = 5 \<and> e_hash e = sample_hash"
  using snapshot_accounts_for_every_file [OF sample_taken, of "''/h/.claude''" "VisitFile ''/h/.claude/a'' (Inr sample_file)"]
  by (simp add: sample_visits) (simp add: sample_snap_def sample_file_def sample_env_def recorded_def)

theorem diff_is_exact_witness:
  "is_change (sample_snap [sample_entry]) (sample_snap [])
     \<lparr>c_path = ''/h/.claude/a'', c_kind = Deleted, c_hash = sample_hash, c_size = 5\<rparr>"
proof -
  have "distinct (map e_path (s_entries (sample_snap [sample_entry])))" "distinct (map e_path (s_entries (sample_snap [])))"
    by (simp_all add: sample_snap_def)
  from diff_is_exact [OF this] show ?thesis unfolding sample_diff by auto
qed

theorem cleanup_keeps_sessions_restorable_witness:
  "\<exists>objs. rollbackCleanup (\<lambda>f. True) (\<lambda>k. True) ''/r'' [] [(''s.json'', Some sample_session)] (((''zz'', ''9''), ''old'') # sample_objects) =
       ([], [(''s.json'', Some sample_session)], Some objs) \<and>
     restore sample_env objs True True \<lparr>c_path = ''/h/.claude/a'', c_kind = Deleted, c_hash = sample_hash, c_size = 5\<rparr> =
       Inr (''/h/.claude/a'', ''hello'')"
proof -
  let ?objs = "((''zz'', ''9''), ''old'') # sample_objects"
  have "live_hashes [(''s.json'', Some sample_session)] = Some [sample_hash]"
    by (simp add: live_hashes_def sample_dir(2)) (simp add: sample_session_def sample_snap_def sample_entry_def sample_hash_facts)
  then obtain objs where c: "rollbackCleanup (\<lambda>f. True) (\<lambda>k. True) ''/r'' [] [(''s.json'', Some sample_session)] ?objs =
      ([], [(''s.json'', Some sample_session)], Some objs)"
    by (auto simp: rollbackCleanup_def drop_sessions_def sample_dir(2) cleanup_keep_def)
  have "restore sample_env ?objs True True \<lparr>c_path = ''/h/.claude/a'', c_kind = Deleted, c_hash = sample_hash, c_size = 5\<rparr> =
      Inr (''/h/.claude/a'', ''hello'')"
    by (simp add: restore_ok sample_hash_facts sample_objects_def sample_env_def)
  from cleanup_keeps_sessions_restorable [OF c _ _ _ this, of sample_session] c show ?thesis
    by (simp add: sample_dir(2)) (simp add: session_changes_def sample_session_def sample_diff)
qed

section \<open>Sessions the jail may leave behind\<close>

text \<open>
  The session directory can be written from inside (\<open>store_is_inside_a_writable_root\<close>) and its files are
  believed.  A nil snapshot ends every command that compares it, and the id in a file decides what a
  cleanup removes, up to any file whose name ends in \<open>.json\<close>.
\<close>

lemma nil_snapshot_crashes:
  assumes "loadSession dir i = Some s" and "rs_after s = None"
  shows "rollbackShow env objs fs_ok dir (i # only) apply = Crashed [] []"
  using assms by (simp add: rollbackShow_def session_changes_def split: option.split)

lemma nil_snapshot_stops_the_sweep:
  assumes "s \<in> set (listSessions (snd (drop_sessions rm rd (cleanup_keep argv) dir)))" and "rs_before s = None"
  shows "snd (snd (rollbackCleanup rm ro rd argv dir objs)) = None"
proof -
  obtain gone left where d: "drop_sessions rm rd (cleanup_keep argv) dir = (gone, left)" by fastforce
  have "snd (until_panic rs_before ss)" if "s \<in> set ss" for ss
    using that assms(2) by (induction ss) (auto split: option.splits prod.splits)
  from this [of "listSessions left"] assms(1) have "snd (until_panic rs_before (listSessions left))" by (simp add: d)
  then show ?thesis by (auto simp: rollbackCleanup_def live_hashes_def d split: prod.splits)
qed

definition planted :: rollbackSession where
  "planted = \<lparr>rs_id = ''../../../../.claude'', rs_cmd = [], rs_cwd = [], rs_start = -1, rs_end = 0,
     rs_before = None, rs_after = None\<rparr>"

lemma planted_id_removes_elsewhere:
  "fst (rollbackCleanup (\<lambda>p. True) (\<lambda>k. True) ''/h/.local/state/azkaban/rollback'' [''1'']
      [(''s.json'', Some sample_session), (''x.json'', Some planted)] objs) = [''/h/.claude.json'']"
proof -
  have "has_suffix ''s.json'' ''.json''" "has_suffix ''x.json'' ''.json''"
    by (rule suffixI [of _ "''s''"], simp) (rule suffixI [of _ "''x''"], simp)
  then have "listSessions [(''s.json'', Some sample_session), (''x.json'', Some planted)] = [sample_session, planted]"
    by (simp add: listSessions_def List.map_filter_def sample_session_def planted_def)
  moreover have "session_path ''/h/.local/state/azkaban/rollback'' ''../../../../.claude'' = ''/h/.claude.json''"
    by code_simp
  moreover have "nat (cleanup_keep [''1'']) = 1" by code_simp
  moreover have "rs_id planted = ''../../../../.claude''" by (simp add: planted_def)
  ultimately show ?thesis
    by (simp add: rollbackCleanup_def drop_sessions_def Let_def split_beta)
qed

end
