(* ===== verification/Time_Text.thy ===== *)
theory Time_Text
  imports Prelude "HOL-Library.Monad_Syntax"
begin

text \<open>
  Times as \<open>encoding/json\<close> writes and reads them: RFC 3339 in UTC with as many digits of the second as
  there are (\<open>time.RFC3339Nano\<close>), and \<open>time.Parse\<close> of the layout \<open>RFC3339\<close>, which is what
  \<open>UnmarshalJSON\<close> ends in.  An instant is the number of nanoseconds since the start of the year 0, in the
  proleptic Gregorian calendar.
\<close>

section \<open>The calendar\<close>

definition leap :: "nat \<Rightarrow> bool" where
  "leap y \<longleftrightarrow> y mod 4 = 0 \<and> (y mod 100 \<noteq> 0 \<or> y mod 400 = 0)"

definition month_days :: "nat \<Rightarrow> nat list" where
  "month_days y = [31, if leap y then 29 else 28, 31, 30, 31, 30, 31, 31, 30, 31, 30, 31]"

definition years :: "nat \<Rightarrow> nat list" where
  "years n = map (\<lambda>y. if leap y then 366 else 365) [0..<n]"

abbreviation year_days :: "nat list" where
  "year_days \<equiv> years 10000"

text \<open>Which block of days a day falls into, and its place there.\<close>

fun split_days :: "nat list \<Rightarrow> nat \<Rightarrow> nat \<times> nat" where
  "split_days [] d = (0, d)"
| "split_days (m # ms) d = (if d < m then (0, d) else (case split_days ms (d - m) of (i, r) \<Rightarrow> (Suc i, r)))"

definition days_of :: "nat \<Rightarrow> nat \<Rightarrow> nat \<Rightarrow> nat" where
  "days_of y m d = sum_list (years y) + sum_list (take m (month_days y)) + d"

section \<open>Writing\<close>

fun digits :: "nat \<Rightarrow> nat \<Rightarrow> string" where
  "digits 0 n = []"
| "digits (Suc w) n = digits w (n div 10) @ [char_of (n mod 10 + 48)]"

definition date_text :: "nat \<Rightarrow> string" where
  "date_text days =
     (case split_days year_days days of (y, yd) \<Rightarrow>
      case split_days (month_days y) yd of (m, d) \<Rightarrow>
        digits 4 y @ ''-'' @ digits 2 (m + 1) @ ''-'' @ digits 2 (d + 1))"

definition fraction :: "nat \<Rightarrow> string" where
  "fraction ns = (if ns = 0 then [] else CHR ''.'' # rev (dropWhile (\<lambda>c. c = CHR ''0'') (rev (digits 9 ns))))"

definition clock_text :: "nat \<Rightarrow> string" where
  "clock_text s = digits 2 (s div 3600) @ '':'' @ digits 2 (s div 60 mod 60) @ '':'' @ digits 2 (s mod 60)"

definition nanos :: nat where "nanos = 10 ^ 9"

definition day_seconds :: nat where "day_seconds = 86400"

definition time_limit :: int where
  "time_limit = int (sum_list year_days * day_seconds * nanos)"

text \<open>A year of more than four digits is an error of \<open>MarshalJSON\<close>.\<close>

definition time_text :: "int \<Rightarrow> string option" where
  "time_text t =
     (if t < 0 \<or> time_limit \<le> t then None
      else
        let n = nat t; s = n div nanos in
        Some (date_text (s div day_seconds) @ ''T'' @ clock_text (s mod day_seconds) @ fraction (n mod nanos) @ ''Z''))"

text \<open>The layout \<open>20060102T150405Z\<close>, which names sessions and records.\<close>

definition stamp :: "int \<Rightarrow> string" where
  "stamp t = (let s = nat t div nanos in
     filter (\<lambda>c. c \<noteq> CHR ''-'') (date_text (s div day_seconds)) @ ''T'' @
     filter (\<lambda>c. c \<noteq> CHR '':'') (clock_text (s mod day_seconds)) @ ''Z'')"

text \<open>Go's zero time is the start of the year 1.\<close>

definition zero_time :: int where
  "zero_time = int (366 * day_seconds * nanos)"

section \<open>Reading\<close>

fun get_year :: "string \<Rightarrow> (nat \<times> string) option" where
  "get_year (a # b # c # d # s) = map_option (\<lambda>y. (y, s)) (digits_value 0 [a, b, c, d])"
| "get_year _ = None"

definition get_num :: "bool \<Rightarrow> string \<Rightarrow> (nat \<times> string) option" where
  "get_num fixed s =
     (case s of
        [] \<Rightarrow> None
      | a # r \<Rightarrow>
          if \<not> is_digit a then None
          else (case r of
                  b # r' \<Rightarrow> if is_digit b then Some (digit_val a * 10 + digit_val b, r')
                           else if fixed then None else Some (digit_val a, r)
                | [] \<Rightarrow> if fixed then None else Some (digit_val a, r)))"

definition get_char :: "char \<Rightarrow> string \<Rightarrow> string option" where
  "get_char c s = (case s of x # r \<Rightarrow> if x = c then Some r else None | [] \<Rightarrow> None)"

text \<open>A fraction of any length after a point or a comma; digits past the ninth are dropped.\<close>

definition get_fraction :: "string \<Rightarrow> nat \<times> string" where
  "get_fraction s =
     (case s of
        c # d # r \<Rightarrow>
          if (c = CHR ''.'' \<or> c = CHR '','') \<and> is_digit d
          then
            let ds = take 9 (takeWhile is_digit (d # r)) in
            (the (digits_value 0 ds) * 10 ^ (9 - length ds), dropWhile is_digit (d # r))
          else (0, s)
      | _ \<Rightarrow> (0, s))"

text \<open>Seconds east of UTC.\<close>

definition get_zone :: "string \<Rightarrow> (int \<times> string) option" where
  "get_zone s =
     (case s of
        [] \<Rightarrow> None
      | c # r \<Rightarrow>
          if c = CHR ''Z'' then Some (0, r)
          else do {
            (hr, r) \<leftarrow> get_num True r;
            r \<leftarrow> get_char (CHR '':'') r;
            (mm, r) \<leftarrow> get_num True r;
            let off = int (hr * 60 + mm) * 60;
            if 24 < hr \<or> 60 < mm then None
            else if c = CHR ''+'' then Some (off, r)
            else if c = CHR ''-'' then Some (- off, r)
            else None
          })"

definition get_date :: "string \<Rightarrow> (nat \<times> string) option" where
  "get_date s = do {
     (y, s) \<leftarrow> get_year s;
     s \<leftarrow> get_char (CHR ''-'') s;
     (m, s) \<leftarrow> get_num True s;
     s \<leftarrow> get_char (CHR ''-'') s;
     (d, s) \<leftarrow> get_num True s;
     if m = 0 \<or> 12 < m \<or> d = 0 \<or> month_days y ! (m - 1) < d then None
     else Some (days_of y (m - 1) (d - 1), s)
   }"

definition get_clock :: "string \<Rightarrow> (nat \<times> string) option" where
  "get_clock s = do {
     (h, s) \<leftarrow> get_num False s;
     s \<leftarrow> get_char (CHR '':'') s;
     (m, s) \<leftarrow> get_num True s;
     s \<leftarrow> get_char (CHR '':'') s;
     (sec, s) \<leftarrow> get_num True s;
     if 24 \<le> h \<or> 60 \<le> m \<or> 60 \<le> sec then None else Some ((h * 60 + m) * 60 + sec, s)
   }"

definition read_time :: "string \<Rightarrow> int option" where
  "read_time s = do {
     (days, s) \<leftarrow> get_date s;
     s \<leftarrow> get_char (CHR ''T'') s;
     (sec, s) \<leftarrow> get_clock s;
     let (ns, s) = get_fraction s;
     (off, s) \<leftarrow> get_zone s;
     if s \<noteq> [] then None
     else Some ((int (days * day_seconds + sec) - off) * int nanos + int ns)
   }"

section \<open>What is written is read back\<close>

lemma digits_read: "n < 10 ^ w \<Longrightarrow> digits_value a (digits w n) = Some (a * 10 ^ w + n)"
proof (induction w arbitrary: n)
  case (Suc w)
  then have "n div 10 < 10 ^ w" by (simp add: less_mult_imp_div_less)
  moreover have "10 * (a * 10 ^ w + n div 10) + n mod 10 = a * 10 ^ Suc w + n" by simp
  ultimately show ?case by (simp add: digits_value_append Suc.IH)
qed simp

lemma digits_length [simp]: "length (digits w n) = w"
  by (induction w arbitrary: n) simp_all

lemma digits_are_digits: "c \<in> set (digits w n) \<Longrightarrow> is_digit c"
  by (induction w arbitrary: n) auto

lemma digits_two: "digits 2 n = [char_of (n div 10 mod 10 + 48), char_of (n mod 10 + 48)]"
  by (simp add: numeral_2_eq_2)

lemma get_num_digits [simp]: "n < 100 \<Longrightarrow> get_num fixed (digits 2 n @ s) = Some (n, s)"
  by (simp add: get_num_def digits_two mod_less div_less_iff_less_mult)

lemma get_year_digits [simp]:
  assumes "y < 10000"
  shows "get_year (digits 4 y @ s) = Some (y, s)"
proof -
  have "length l = 4 \<Longrightarrow> \<exists>a b c d. l = [a, b, c, d]" for l :: string
    by (auto simp: length_Suc_conv numeral_eq_Suc)
  then obtain a b c d where l: "digits 4 y = [a, b, c, d]" using digits_length by blast
  show ?thesis using digits_read [of y 4 0] assms unfolding l by simp
qed

lemma get_char_Cons [simp]: "get_char c (c # s) = Some s"
  by (simp add: get_char_def)

lemma split_days_correct:
  "d < sum_list ms \<Longrightarrow> split_days ms d = (i, r) \<Longrightarrow> i < length ms \<and> r < ms ! i \<and> sum_list (take i ms) + r = d"
proof (induction ms d arbitrary: i r rule: split_days.induct)
  case (2 m ms d)
  show ?case
  proof (cases "d < m")
    case False
    obtain j q where jq: "split_days ms (d - m) = (j, q)" by fastforce
    from "2.IH" [OF False _ jq] have "j < length ms \<and> q < ms ! j \<and> sum_list (take j ms) + q = d - m"
      using "2.prems"(1) False by simp
    with jq False "2.prems"(2) show ?thesis by auto
  qed (use "2.prems" in auto)
qed simp

lemma month_days_sum: "sum_list (month_days y) = (if leap y then 366 else 365)"
  by (simp add: month_days_def)

lemma month_days_bound: "m < 12 \<Longrightarrow> month_days y ! m \<le> 31"
  by (auto simp: month_days_def less_Suc_eq numeral_eq_Suc)

lemma take_years: "y < n \<Longrightarrow> take y (years n) = years y"
  by (simp add: years_def take_map)

lemma date_reads_back:
  assumes "days < sum_list year_days"
  shows "get_date (date_text days @ s) = Some (days, s)"
proof -
  obtain y yd where y: "split_days year_days days = (y, yd)" by fastforce
  then have Y: "y < 10000" "yd < year_days ! y" "sum_list (take y year_days) + yd = days"
    using split_days_correct [OF assms y] by (auto simp: years_def)
  obtain m d where m: "split_days (month_days y) yd = (m, d)" by fastforce
  have "yd < sum_list (month_days y)" using Y(1,2) by (simp add: month_days_sum years_def)
  from split_days_correct [OF this m] have M: "m < 12" "d < month_days y ! m" "sum_list (take m (month_days y)) + d = yd"
    by (auto simp: month_days_def)
  have "d < 31" using M(2) month_days_bound [OF M(1), of y] by simp
  then show ?thesis using Y M
    by (simp add: get_date_def date_text_def y m days_of_def take_years)
qed

lemma clock_reads_back: "n < day_seconds \<Longrightarrow> get_clock (clock_text n @ s) = Some (n, s)"
proof -
  assume n: "n < day_seconds"
  then have h: "n div 3600 < 24" by (simp add: day_seconds_def less_mult_imp_div_less)
  have "(n div 3600 * 60 + n div 60 mod 60) * 60 + n mod 60 = n"
  proof -
    have "n div 3600 = n div 60 div 60" by (simp add: div_mult2_eq [symmetric])
    then show ?thesis by (simp only: div_mult_mod_eq)
  qed
  with h show ?thesis by (simp add: get_clock_def clock_text_def not_le)
qed

lemma trailing: "\<exists>k. s = rev (dropWhile (\<lambda>c. c = x) (rev s)) @ replicate k x"
proof -
  have "takeWhile (\<lambda>c. c = x) l = replicate (length (takeWhile (\<lambda>c. c = x) l)) x" for l
    by (induction l) auto
  then have "rev (takeWhile (\<lambda>c. c = x) (rev s)) = replicate (length (takeWhile (\<lambda>c. c = x) (rev s))) x"
    by (metis rev_replicate)
  moreover have "s = rev (dropWhile (\<lambda>c. c = x) (rev s)) @ rev (takeWhile (\<lambda>c. c = x) (rev s))"
    by (metis rev_append rev_rev_ident takeWhile_dropWhile_id)
  ultimately show ?thesis by metis
qed

lemma digits_value_zeros: "digits_value n (replicate k (CHR ''0'')) = Some (n * 10 ^ k)"
  by (induction k arbitrary: n) (simp_all add: is_digit_def digit_val_def algebra_simps)

lemma digits_value_all: "digits_value n s = Some v \<Longrightarrow> list_all is_digit s"
  by (induction n s rule: digits_value.induct) (auto split: if_splits)

lemma take_digits: "list_all is_digit ds \<Longrightarrow> \<not> is_digit z \<Longrightarrow> takeWhile is_digit (ds @ z # s) = ds \<and> dropWhile is_digit (ds @ z # s) = z # s"
  by (induction ds) auto

lemma fraction_reads_back:
  assumes "ns < nanos"
  shows "get_fraction (fraction ns @ CHR ''Z'' # s) = (ns, CHR ''Z'' # s)"
proof (cases "ns = 0")
  case False
  define ds where "ds = rev (dropWhile (\<lambda>c. c = CHR ''0'') (rev (digits 9 ns)))"
  obtain k where k: "digits 9 ns = ds @ replicate k (CHR ''0'')" using trailing [of "digits 9 ns" "CHR ''0''"] unfolding ds_def by fast
  have "digits_value 0 (digits 9 ns) = Some ns" using digits_read [of ns 9 0] assms by (simp add: nanos_def)
  then have all: "(case digits_value 0 ds of None \<Rightarrow> None | Some m \<Rightarrow> Some (m * 10 ^ k)) = Some ns"
    by (simp only: k digits_value_append digits_value_zeros)
  then obtain v where v: "digits_value 0 ds = Some v" "v * 10 ^ k = ns" by (cases "digits_value 0 ds") simp_all
  have n: "length ds + k = 9" using arg_cong [OF k, of length] by simp
  obtain d r where dr: "ds = d # r" using v False by (cases ds) auto
  have "8 - length r = k" using n by (simp add: dr)
  moreover have "fraction ns = CHR ''.'' # ds" using False by (simp add: fraction_def ds_def)
  moreover have "list_all is_digit ds" using digits_value_all [OF v(1)] .
  moreover have "\<not> is_digit (CHR ''Z'')" by (simp add: is_digit_def)
  ultimately show ?thesis using v n take_digits [of ds "CHR ''Z''" s] by (simp add: get_fraction_def dr)
qed (simp add: fraction_def get_fraction_def split: list.split)

lemma time_reads_back:
  assumes "time_text t = Some s"
  shows "read_time s = Some t"
proof -
  define n where "n = nat t"
  let ?sec = "n div nanos"
  have t: "t = int n" "n < sum_list year_days * day_seconds * nanos"
    using assms by (auto simp: time_text_def n_def time_limit_def nat_less_iff split: if_splits)
  have "?sec < sum_list year_days * day_seconds" using t(2) by (simp add: less_mult_imp_div_less)
  then have days: "?sec div day_seconds < sum_list year_days" by (simp add: less_mult_imp_div_less)
  have pos: "0 < day_seconds" "0 < nanos" by (simp_all add: day_seconds_def nanos_def)
  have s: "s = date_text (?sec div day_seconds) @ CHR ''T'' # clock_text (?sec mod day_seconds) @ fraction (n mod nanos) @ ''Z''"
    using assms by (auto simp: time_text_def n_def Let_def split: if_splits)
  have "get_zone ''Z'' = Some (0, [])" by (simp add: get_zone_def)
  moreover have "int (?sec div day_seconds * day_seconds + ?sec mod day_seconds) * int nanos + int (n mod nanos) = int n"
    by (metis div_mult_mod_eq of_nat_add of_nat_mult)
  ultimately show ?thesis
    using date_reads_back [OF days] clock_reads_back [of "?sec mod day_seconds"] fraction_reads_back [of "n mod nanos" "[]"] pos
    by (simp add: s read_time_def t(1))
qed

text \<open>A reader that is more liberal than the writer: offsets, a comma, one digit for the hour.\<close>

lemma read_time_samples:
  "read_time ''0000-03-01T7:00:00,5+01:00'' = Some (((60 * 24 + 6) * 3600) * 10 ^ 9 + 5 * 10 ^ 8)"
  "read_time ''0001-02-29T00:00:00Z'' = None" "read_time ''0001-01-01T00:00:00'' = None"
  by (simp_all add: read_time_def get_date_def get_clock_def get_num_def get_char_def get_fraction_def get_zone_def is_digit_def
      digit_val_def days_of_def years_def month_days_def leap_def day_seconds_def nanos_def)

end
