(* ===== verification/Rollback_Disk.thy ===== *)
theory Rollback_Disk
  imports Rollback_Properties Policy_Json Time_Text
begin

text \<open>
  The sessions of \<open>--rollback\<close> on disk (\<open>save\<close>, \<open>loadSession\<close> of \<open>rollback.go\<close>): the JSON text of a session, how it
  is read, and \<open>finishRollback\<close> (\<open>main.go\<close>), which writes it.  A nil slice is written as null, and the notes
  are left out when there are none.
\<close>

section \<open>Writing\<close>

definition entry_json :: "snapEntry \<Rightarrow> json option" where
  "entry_json e =
     map_option (\<lambda>m. JObj
       [(''path'', JStr (e_path e)), (''hash'', JStr (e_hash e)), (''size'', JNum (int_text (e_size e))),
        (''mode'', JNum (int_text (int (e_mode e)))), (''mod'', JStr m)])
       (time_text (e_mod e))"

definition nil_array :: "json list \<Rightarrow> json" where
  "nil_array js = (if js = [] then JNull else JArr js)"

definition snapshot_json :: "snapshot \<Rightarrow> json option" where
  "snapshot_json s = do {
     taken \<leftarrow> time_text (s_taken s);
     es \<leftarrow> those (map entry_json (s_entries s));
     Some (JObj (
       [(''version'', JNum (int_text (s_version s))), (''taken'', JStr taken),
        (''roots'', nil_json (s_roots s)), (''entries'', nil_array es)] @
       (if s_skipped s = [] then [] else [(''skipped'', strings_json (s_skipped s))])))
   }"

definition pointer_json :: "('a \<Rightarrow> json option) \<Rightarrow> 'a option \<Rightarrow> json option" where
  "pointer_json f p = (case p of None \<Rightarrow> Some JNull | Some x \<Rightarrow> f x)"

definition session_json :: "rollbackSession \<Rightarrow> json option" where
  "session_json s = do {
     start \<leftarrow> time_text (rs_start s);
     fin \<leftarrow> time_text (rs_end s);
     before \<leftarrow> pointer_json snapshot_json (rs_before s);
     after \<leftarrow> pointer_json snapshot_json (rs_after s);
     Some (JObj
       [(''id'', JStr (rs_id s)), (''command'', nil_json (rs_cmd s)), (''cwd'', JStr (rs_cwd s)),
        (''start'', JStr start), (''end'', JStr fin), (''before'', before), (''after'', after)])
   }"

definition session_text :: "rollbackSession \<Rightarrow> string option" where
  "session_text s = map_option json_indent (session_json s)"

section \<open>Reading\<close>

text \<open>
  \<open>time.UnmarshalJSON\<close> looks at the bytes between the quotes, so a time spelled with escapes, which the
  program never writes, is refused; a value of this model has lost that difference.
\<close>

fun dec_time :: "int decoder" where
  "dec_time JNull old = Some old"
| "dec_time (JStr s) old = read_time s"
| "dec_time _ old = None"

fun dec_uint32 :: "nat decoder" where
  "dec_uint32 JNull old = Some old"
| "dec_uint32 (JNum l) old =
     (if has_prefix l ''-'' then None
      else (case atoi l of None \<Rightarrow> None | Some i \<Rightarrow> if i < 2 ^ 32 then Some (nat i) else None))"
| "dec_uint32 _ old = None"

definition zero_entry :: snapEntry where
  "zero_entry = \<lparr>e_path = [], e_hash = [], e_size = 0, e_mode = 0, e_mod = zero_time\<rparr>"

definition zero_snapshot :: snapshot where
  "zero_snapshot = \<lparr>s_version = 0, s_taken = zero_time, s_roots = [], s_entries = [], s_skipped = []\<rparr>"

definition zero_session :: rollbackSession where
  "zero_session = \<lparr>rs_id = [], rs_cmd = [], rs_cwd = [], rs_start = zero_time, rs_end = zero_time, rs_before = None, rs_after = None\<rparr>"

definition entry_fields :: "(string \<times> snapEntry decoder) list" where
  "entry_fields =
     [(''path'', field dec_string e_path (\<lambda>v e. e\<lparr>e_path := v\<rparr>)),
      (''hash'', field dec_string e_hash (\<lambda>v e. e\<lparr>e_hash := v\<rparr>)),
      (''size'', field dec_int e_size (\<lambda>v e. e\<lparr>e_size := v\<rparr>)),
      (''mode'', field dec_uint32 e_mode (\<lambda>v e. e\<lparr>e_mode := v\<rparr>)),
      (''mod'', field dec_time e_mod (\<lambda>v e. e\<lparr>e_mod := v\<rparr>))]"

definition dec_entry :: "snapEntry decoder" where
  "dec_entry = dec_struct (by_name entry_fields)"

definition snapshot_fields :: "(string \<times> snapshot decoder) list" where
  "snapshot_fields =
     [(''version'', field dec_int s_version (\<lambda>v s. s\<lparr>s_version := v\<rparr>)),
      (''taken'', field dec_time s_taken (\<lambda>v s. s\<lparr>s_taken := v\<rparr>)),
      (''roots'', field dec_string_list s_roots (\<lambda>v s. s\<lparr>s_roots := v\<rparr>)),
      (''entries'', field (dec_slice dec_entry zero_entry) s_entries (\<lambda>v s. s\<lparr>s_entries := v\<rparr>)),
      (''skipped'', field dec_string_list s_skipped (\<lambda>v s. s\<lparr>s_skipped := v\<rparr>))]"

definition dec_snapshot :: "snapshot decoder" where
  "dec_snapshot = dec_struct (by_name snapshot_fields)"

definition session_fields :: "(string \<times> rollbackSession decoder) list" where
  "session_fields =
     [(''id'', field dec_string rs_id (\<lambda>v s. s\<lparr>rs_id := v\<rparr>)),
      (''command'', field dec_string_list rs_cmd (\<lambda>v s. s\<lparr>rs_cmd := v\<rparr>)),
      (''cwd'', field dec_string rs_cwd (\<lambda>v s. s\<lparr>rs_cwd := v\<rparr>)),
      (''start'', field dec_time rs_start (\<lambda>v s. s\<lparr>rs_start := v\<rparr>)),
      (''end'', field dec_time rs_end (\<lambda>v s. s\<lparr>rs_end := v\<rparr>)),
      (''before'', field (dec_pointer dec_snapshot zero_snapshot) rs_before (\<lambda>v s. s\<lparr>rs_before := v\<rparr>)),
      (''after'', field (dec_pointer dec_snapshot zero_snapshot) rs_after (\<lambda>v s. s\<lparr>rs_after := v\<rparr>))]"

definition dec_session :: "rollbackSession decoder" where
  "dec_session = dec_struct (by_name session_fields)"

definition read_session :: "string \<Rightarrow> rollbackSession option" where
  "read_session content = unmarshal dec_session zero_session content"

text \<open>The directory as text; \<open>None\<close> is a file that cannot be read.  The commands see what it decodes to.\<close>

type_synonym disk = "(string \<times> string option) list"

definition on_disk :: "disk \<Rightarrow> session_dir" where
  "on_disk d = map (\<lambda>(f, c). (f, Option.bind c read_session)) d"

section \<open>A run\<close>

text \<open>\<open>outer\<close> makes the session when the first snapshot is there; the id has the grain of a second.\<close>

definition start_session :: "string list \<Rightarrow> string \<Rightarrow> int \<Rightarrow> snapshot \<Rightarrow> rollbackSession" where
  "start_session cmd cwd start before =
     \<lparr>rs_id = stamp start, rs_cmd = cmd, rs_cwd = cwd, rs_start = start, rs_end = zero_time, rs_before = Some before, rs_after = None\<rparr>"

text \<open>\<open>save\<close>: \<open>taken\<close> is the number of bytes the file takes; what it holds was truncated before.\<close>

definition saveSession :: "bool \<Rightarrow> bool \<Rightarrow> nat \<Rightarrow> rollbackSession \<Rightarrow> disk \<Rightarrow> bool \<times> disk" where
  "saveSession mkdir_ok open_ok taken s d =
     (if \<not> mkdir_ok then (False, d)
      else (case session_text s of
              None \<Rightarrow> (False, d)
            | Some text \<Rightarrow>
                if \<not> open_ok then (False, d)
                else (length text \<le> taken, AList.update (session_file (rs_id s)) (Some (take taken text)) d)))"

datatype finish = ClosingSnapshotFailed | SessionNotSaved | NothingLost | Lost nat nat nat | FinishCrashed

definition finishRollback ::
  "store_env \<Rightarrow> bool \<Rightarrow> bool \<Rightarrow> bool \<Rightarrow> nat \<Rightarrow> tree \<Rightarrow> int \<Rightarrow> int \<Rightarrow> rollbackSession \<Rightarrow> objects \<Rightarrow> disk \<Rightarrow>
     finish \<times> rollbackSession \<times> objects \<times> disk" where
  "finishRollback env store_ok mkdir_ok open_ok taken t now fin s objs d =
     (case rs_before s of
        None \<Rightarrow> (FinishCrashed, s, objs, d)
      | Some before \<Rightarrow>
          (case takeSnapshot env store_ok t now (s_roots before) objs of
             None \<Rightarrow> (ClosingSnapshotFailed, s, objs, d)
           | Some (after, objs) \<Rightarrow>
               let s = s\<lparr>rs_after := Some after, rs_end := fin\<rparr> in
               (case saveSession mkdir_ok open_ok taken s d of (saved, d) \<Rightarrow>
                  if \<not> saved then (SessionNotSaved, s, objs, d)
                  else
                    let changes = diffSnapshots before after in
                    (case count_kinds changes of (deleted, modified) \<Rightarrow>
                      (if deleted = 0 \<and> modified = 0 then NothingLost else Lost deleted modified (length changes),
                       s, objs, d)))))"

section \<open>What is saved is read back\<close>

lemma itoa_sign: "itoa n = c # cs \<Longrightarrow> c \<noteq> CHR ''-'' \<and> c \<noteq> CHR ''+''"
  using itoa_digits [of c n] by (auto simp: is_digit_def)

lemma atoi_itoa: "int n < 2 ^ 63 \<Longrightarrow> atoi (itoa n) = Some (int n)"
  using itoa_sign [of n] digits_value_itoa [of n]
  by (cases "itoa n") (auto simp: atoi_def Let_def)

lemma atoi_int_text: "- (2 ^ 63) \<le> i \<Longrightarrow> i < 2 ^ 63 \<Longrightarrow> atoi (int_text i) = Some i"
proof (cases "i < 0")
  case True
  assume "- (2 ^ 63) \<le> i"
  then show ?thesis using True digits_value_itoa [of "nat (- i)"] by (simp add: int_text_def atoi_def)
qed (simp add: int_text_def atoi_itoa)

lemma itoa_head: "0 < n \<Longrightarrow> itoa n = c # cs \<Longrightarrow> c \<noteq> CHR ''0''"
proof (induction n arbitrary: c cs rule: itoa.induct)
  case (1 n)
  show ?case
  proof (cases "n < 10")
    case True
    then have "c = char_of (n + 48)" using "1.prems"(2) by (subst (asm) itoa.simps) simp
    then have "digit_val c = n" using digit_char [OF True] by simp
    then show ?thesis using "1.prems"(1) by (auto simp: digit_val_def)
  next
    case False
    then obtain d ds where d: "itoa (n div 10) = d # ds" by (cases "itoa (n div 10)") auto
    have "c = d" using "1.prems"(2) False d by (subst (asm) itoa.simps) simp
    then show ?thesis using "1.IH" [OF False _ d] False by simp
  qed
qed

lemma scan_digits: "list_all is_digit s \<Longrightarrow> num_scan NumInt s = Some (s, [])"
  by (induction s) (simp_all add: num_step_def num_final_def)

lemma itoa_scans: "\<exists>st. num_step NumNeg (hd (itoa n)) = Some st \<and> num_scan st (tl (itoa n)) = Some (tl (itoa n), [])"
proof (cases "n = 0")
  case True
  moreover have "char_of (48 :: nat) = CHR ''0''" by code_simp
  ultimately show ?thesis by (simp add: itoa.simps num_step_def num_final_def)
next
  case False
  then obtain c cs where c: "itoa n = c # cs" by (cases "itoa n") auto
  have "list_all is_digit (c # cs)" using itoa_digits [of _ n] c by (simp add: list_all_iff)
  then show ?thesis using itoa_head [OF _ c] False c scan_digits by (simp add: num_step_def)
qed

lemma parse_num_int_text: "parse_num (int_text i) = Some (int_text i, [])"
proof -
  have i: "parse_num (itoa n) = Some (itoa n, [])" for n
    using itoa_scans [of n] itoa_sign [of n] by (cases "itoa n") (auto simp: parse_num_def)
  moreover have "parse_num (CHR ''-'' # itoa n) = Some (CHR ''-'' # itoa n, [])" for n
  proof -
    obtain c cs where c: "itoa n = c # cs" by (cases "itoa n") auto
    then show ?thesis using itoa_scans [of n] by (auto simp: parse_num_def)
  qed
  ultimately show ?thesis by (simp add: int_text_def)
qed

lemma entry_field_names:
  "by_name entry_fields ''path'' = field dec_string e_path (\<lambda>v e. e\<lparr>e_path := v\<rparr>)"
  "by_name entry_fields ''hash'' = field dec_string e_hash (\<lambda>v e. e\<lparr>e_hash := v\<rparr>)"
  "by_name entry_fields ''size'' = field dec_int e_size (\<lambda>v e. e\<lparr>e_size := v\<rparr>)"
  "by_name entry_fields ''mode'' = field dec_uint32 e_mode (\<lambda>v e. e\<lparr>e_mode := v\<rparr>)"
  "by_name entry_fields ''mod'' = field dec_time e_mod (\<lambda>v e. e\<lparr>e_mod := v\<rparr>)"
  by (intro ext; simp add: by_name_def entry_fields_def equal_fold_def case_ascii upper_char_def)+

lemma snapshot_field_names:
  "by_name snapshot_fields ''version'' = field dec_int s_version (\<lambda>v s. s\<lparr>s_version := v\<rparr>)"
  "by_name snapshot_fields ''taken'' = field dec_time s_taken (\<lambda>v s. s\<lparr>s_taken := v\<rparr>)"
  "by_name snapshot_fields ''roots'' = field dec_string_list s_roots (\<lambda>v s. s\<lparr>s_roots := v\<rparr>)"
  "by_name snapshot_fields ''entries'' = field (dec_slice dec_entry zero_entry) s_entries (\<lambda>v s. s\<lparr>s_entries := v\<rparr>)"
  "by_name snapshot_fields ''skipped'' = field dec_string_list s_skipped (\<lambda>v s. s\<lparr>s_skipped := v\<rparr>)"
  by (intro ext; simp add: by_name_def snapshot_fields_def equal_fold_def case_ascii upper_char_def)+

lemma session_field_names:
  "by_name session_fields ''id'' = field dec_string rs_id (\<lambda>v s. s\<lparr>rs_id := v\<rparr>)"
  "by_name session_fields ''command'' = field dec_string_list rs_cmd (\<lambda>v s. s\<lparr>rs_cmd := v\<rparr>)"
  "by_name session_fields ''cwd'' = field dec_string rs_cwd (\<lambda>v s. s\<lparr>rs_cwd := v\<rparr>)"
  "by_name session_fields ''start'' = field dec_time rs_start (\<lambda>v s. s\<lparr>rs_start := v\<rparr>)"
  "by_name session_fields ''end'' = field dec_time rs_end (\<lambda>v s. s\<lparr>rs_end := v\<rparr>)"
  "by_name session_fields ''before'' = field (dec_pointer dec_snapshot zero_snapshot) rs_before (\<lambda>v s. s\<lparr>rs_before := v\<rparr>)"
  "by_name session_fields ''after'' = field (dec_pointer dec_snapshot zero_snapshot) rs_after (\<lambda>v s. s\<lparr>rs_after := v\<rparr>)"
  by (intro ext; simp add: by_name_def session_fields_def equal_fold_def case_ascii upper_char_def)+

text \<open>Numbers at their Go types, and names that are UTF-8.\<close>

definition int64 :: "int \<Rightarrow> bool" where
  "int64 i \<longleftrightarrow> - (2 ^ 63) \<le> i \<and> i < 2 ^ 63"

definition entry_ok :: "snapEntry \<Rightarrow> bool" where
  "entry_ok e \<longleftrightarrow> valid_utf8 (e_path e) \<and> valid_utf8 (e_hash e) \<and> int64 (e_size e) \<and> e_mode e < 2 ^ 32"

definition snapshot_ok :: "snapshot \<Rightarrow> bool" where
  "snapshot_ok s \<longleftrightarrow> int64 (s_version s) \<and> list_all valid_utf8 (s_roots s) \<and> list_all valid_utf8 (s_skipped s) \<and>
     list_all entry_ok (s_entries s)"

definition session_ok :: "rollbackSession \<Rightarrow> bool" where
  "session_ok s \<longleftrightarrow> valid_utf8 (rs_id s) \<and> valid_utf8 (rs_cwd s) \<and> list_all valid_utf8 (rs_cmd s) \<and>
     pred_option snapshot_ok (rs_before s) \<and> pred_option snapshot_ok (rs_after s)"

lemma int_text_sign: "0 \<le> i \<Longrightarrow> \<not> has_prefix (int_text i) ''-''"
  using itoa_sign [of "nat i"] by (cases "itoa (nat i)") (auto simp: int_text_def)

lemma dec_entry_json:
  assumes "entry_json e = Some j" and "entry_ok e"
  shows "dec_entry j zero_entry = Some e"
proof -
  obtain m where m: "time_text (e_mod e) = Some m" and j: "j = JObj
       [(''path'', JStr (e_path e)), (''hash'', JStr (e_hash e)), (''size'', JNum (int_text (e_size e))),
        (''mode'', JNum (int_text (int (e_mode e)))), (''mod'', JStr m)]"
    using assms(1) by (auto simp: entry_json_def)
  have "int (e_mode e) < 2 ^ 32" using assms(2) by (simp add: entry_ok_def)
  moreover have "atoi (int_text (int (e_mode e))) = Some (int (e_mode e))"
    by (rule atoi_int_text) (use assms(2) in \<open>simp_all add: entry_ok_def\<close>)
  ultimately show ?thesis using assms(2) atoi_int_text [of "e_size e"] time_reads_back [OF m]
    by (simp add: j dec_entry_def entry_field_names field_def zero_entry_def entry_ok_def int64_def int_text_sign)
qed

lemma those_Some: "those xs = Some ys \<longleftrightarrow> xs = map Some ys"
  by (induction xs arbitrary: ys) (auto simp: Cons_eq_map_conv split: option.splits)

lemma dec_entries_json:
  assumes "map entry_json es = map Some js" and "list_all entry_ok es"
  shows "dec_slice dec_entry zero_entry (nil_array js) [] = Some es"
proof -
  have "dec_elems dec_entry zero_entry [] js = Some es"
    using assms
  proof (induction es arbitrary: js)
    case (Cons e es)
    then obtain j js' where "js = j # js'" "entry_json e = Some j" "map entry_json es = map Some js'"
      by (cases js) auto
    then show ?case using Cons dec_entry_json by simp
  qed simp
  then show ?thesis using assms(1) by (auto simp: nil_array_def)
qed

lemma dec_snapshot_json:
  assumes "snapshot_json s = Some j" and "snapshot_ok s"
  shows "dec_pointer dec_snapshot zero_snapshot j None = Some (Some s)"
proof -
  obtain tk js where tk: "time_text (s_taken s) = Some tk" and js: "those (map entry_json (s_entries s)) = Some js"
    and j: "j = JObj (
       [(''version'', JNum (int_text (s_version s))), (''taken'', JStr tk),
        (''roots'', nil_json (s_roots s)), (''entries'', nil_array js)] @
       (if s_skipped s = [] then [] else [(''skipped'', strings_json (s_skipped s))]))"
    using assms(1) by (auto simp: snapshot_json_def bind_eq_Some_conv)
  have "dec_slice dec_entry zero_entry (nil_array js) [] = Some (s_entries s)"
    using dec_entries_json js assms(2) by (simp add: those_Some snapshot_ok_def)
  then show ?thesis
    using assms(2) atoi_int_text [of "s_version s"] time_reads_back [OF tk]
    by (cases "s_skipped s = []")
      (simp_all add: j dec_snapshot_def snapshot_field_names field_def zero_snapshot_def snapshot_ok_def int64_def dec_nil_json
        dec_strings_json)
qed

lemma dec_pointer_json:
  assumes "pointer_json snapshot_json p = Some j" and "pred_option snapshot_ok p"
  shows "dec_pointer dec_snapshot zero_snapshot j None = Some p"
  using assms dec_snapshot_json by (cases p) (auto simp: pointer_json_def)

lemma session_json_Some:
  assumes "session_json s = Some j"
  obtains start fin before after where
    "time_text (rs_start s) = Some start" "time_text (rs_end s) = Some fin"
    "pointer_json snapshot_json (rs_before s) = Some before" "pointer_json snapshot_json (rs_after s) = Some after"
    "j = JObj
       [(''id'', JStr (rs_id s)), (''command'', nil_json (rs_cmd s)), (''cwd'', JStr (rs_cwd s)),
        (''start'', JStr start), (''end'', JStr fin), (''before'', before), (''after'', after)]"
  using assms by (auto simp: session_json_def bind_eq_Some_conv)

lemma dec_session_json:
  assumes "session_json s = Some j" and "session_ok s"
  shows "dec_session j zero_session = Some s"
  using assms(1)
proof (rule session_json_Some)
  fix start fin before after
  assume t: "time_text (rs_start s) = Some start" "time_text (rs_end s) = Some fin"
    and p: "pointer_json snapshot_json (rs_before s) = Some before" "pointer_json snapshot_json (rs_after s) = Some after"
    and j: "j = JObj
       [(''id'', JStr (rs_id s)), (''command'', nil_json (rs_cmd s)), (''cwd'', JStr (rs_cwd s)),
        (''start'', JStr start), (''end'', JStr fin), (''before'', before), (''after'', after)]"
  show ?thesis
    using dec_pointer_json [OF p(1)] dec_pointer_json [OF p(2)] assms(2) time_reads_back [OF t(1)] time_reads_back [OF t(2)]
    by (simp add: j dec_session_def session_field_names field_def zero_session_def session_ok_def dec_nil_json)
qed

text \<open>The text: times are ASCII, and the nesting is shallow.\<close>

lemma time_chars:
  assumes "time_text t = Some s"
  shows "list_all (\<lambda>c. byte_code c < 0x80) s"
proof -
  have d: "byte_code c < 0x80" if "is_digit c" for c using that by (simp add: is_digit_def Let_def)
  have "list_all (\<lambda>c. byte_code c < 0x80) (digits w n)" for w n using digits_are_digits d by (auto simp: list_all_iff)
  moreover have "list_all (\<lambda>c. byte_code c < 0x80) (fraction n)" for n
  proof -
    have "set (rev (dropWhile (\<lambda>c. c = CHR ''0'') (rev (digits 9 n)))) \<subseteq> set (digits 9 n)"
      using set_dropWhileD by fastforce
    then show ?thesis using d digits_are_digits by (auto simp: fraction_def list_all_iff)
  qed
  ultimately show ?thesis using assms
    by (auto simp: time_text_def date_text_def clock_text_def Let_def split: if_splits prod.splits)
qed

lemma stamp_chars: "list_all (\<lambda>c. byte_code c < 0x80) (stamp t)"
proof -
  have "byte_code c < 0x80" if "is_digit c" for c using that by (simp add: is_digit_def Let_def)
  then have "list_all (\<lambda>c. byte_code c < 0x80) (digits w n)" for w n using digits_are_digits by (auto simp: list_all_iff)
  then have "list_all (\<lambda>c. byte_code c < 0x80) (filter P (date_text n))" "list_all (\<lambda>c. byte_code c < 0x80) (filter P (clock_text n))" for P n
    by (auto simp: date_text_def clock_text_def list_all_iff split: prod.splits)
  then show ?thesis by (simp add: stamp_def Let_def)
qed

lemma entry_json_wf:
  assumes "entry_json e = Some j" and "entry_ok e"
  shows "wf_json j \<and> json_depth j \<le> 1"
  using assms ascii_valid time_chars
  by (auto simp: entry_json_def entry_ok_def parse_num_int_text list_max_def)

lemma snapshot_json_wf:
  assumes "snapshot_json s = Some j" and "snapshot_ok s"
  shows "wf_json j \<and> json_depth j \<le> 3"
proof -
  obtain tk js where tk: "time_text (s_taken s) = Some tk" and js: "map entry_json (s_entries s) = map Some js"
    and j: "j = JObj (
       [(''version'', JNum (int_text (s_version s))), (''taken'', JStr tk),
        (''roots'', nil_json (s_roots s)), (''entries'', nil_array js)] @
       (if s_skipped s = [] then [] else [(''skipped'', strings_json (s_skipped s))]))"
    using assms(1) by (auto simp: snapshot_json_def bind_eq_Some_conv those_Some)
  have "wf_json x \<and> json_depth x \<le> 1" if "x \<in> set js" for x
  proof -
    have "Some x \<in> set (map entry_json (s_entries s))" using that js by simp
    then obtain e where "e \<in> set (s_entries s)" "entry_json e = Some x" by auto
    then show ?thesis using entry_json_wf assms(2) by (auto simp: snapshot_ok_def list_all_iff)
  qed
  then have a: "wf_json (nil_array js)" "json_depth (nil_array js) \<le> 2"
    using list_max_le [of "map json_depth js" 1] by (auto simp: nil_array_def list_all_iff)
  have "json_depth j \<le> Suc 2"
    using a(2) depth_strings [of "s_roots s"] depth_strings [of "s_skipped s"] by (auto simp: j list_max_def)
  moreover have "wf_json j"
    using a(1) assms(2) ascii_valid time_chars [OF tk]
    by (simp add: j snapshot_ok_def wf_nil_json wf_strings_json parse_num_int_text)
  ultimately show ?thesis by simp
qed

lemma pointer_json_wf:
  assumes "pointer_json snapshot_json p = Some j" and "pred_option snapshot_ok p"
  shows "wf_json j \<and> json_depth j \<le> 3"
  using assms snapshot_json_wf by (cases p) (auto simp: pointer_json_def)

lemma session_json_wf:
  assumes "session_json s = Some j" and "session_ok s"
  shows "wf_json j \<and> json_depth j \<le> 4"
  using assms(1)
proof (rule session_json_Some)
  fix start fin before after
  assume t: "time_text (rs_start s) = Some start" "time_text (rs_end s) = Some fin"
    and p: "pointer_json snapshot_json (rs_before s) = Some before" "pointer_json snapshot_json (rs_after s) = Some after"
    and j: "j = JObj
       [(''id'', JStr (rs_id s)), (''command'', nil_json (rs_cmd s)), (''cwd'', JStr (rs_cwd s)),
        (''start'', JStr start), (''end'', JStr fin), (''before'', before), (''after'', after)]"
  have w: "wf_json before \<and> json_depth before \<le> 3" "wf_json after \<and> json_depth after \<le> 3"
    using pointer_json_wf [OF p(1)] pointer_json_wf [OF p(2)] assms(2) by (simp_all add: session_ok_def)
  have "wf_json j"
    using w assms(2) ascii_valid time_chars [OF t(1)] time_chars [OF t(2)] by (simp add: j session_ok_def wf_nil_json)
  moreover have "json_depth j \<le> Suc 3"
    using w depth_strings [of "rs_cmd s"] by (auto simp: j list_max_def)
  ultimately show ?thesis by simp
qed

lemma session_reads_back:
  assumes "session_text s = Some text" and "session_ok s"
  shows "read_session text = Some s"
proof -
  obtain j where j: "session_json s = Some j" "text = json_indent j" using assms(1) by (auto simp: session_text_def)
  note w = session_json_wf [OF j(1) assms(2)]
  have "json_parse (write_json (\<lambda>d. newline # replicate (2 * d) (CHR '' '')) '' '' 0 j @ []) = Some j"
    by (rule json_read_back [OF _ _ indent_blanks]) (use w in \<open>simp_all add: maxNestingDepth_def\<close>)
  then show ?thesis using dec_session_json [OF j(1) assms(2)] by (simp add: read_session_def unmarshal_def j(2) json_indent_def)
qed

lemma map_of_on_disk: "map_of (on_disk d) f = map_option (\<lambda>c. Option.bind c read_session) (map_of d f)"
  by (induction d) (auto simp: on_disk_def)

lemma session_file_inject [simp]: "session_file i = session_file j \<longleftrightarrow> i = j"
  by (simp add: session_file_def)

lemma saved_session_loads:
  assumes "saveSession mkdir_ok open_ok taken s d = (True, d')" and "session_ok s"
  shows "loadSession (on_disk d') (rs_id s) = Some s" and "j \<noteq> rs_id s \<Longrightarrow> loadSession (on_disk d') j = loadSession (on_disk d) j"
proof -
  obtain body where "session_text s = Some body" "d' = AList.update (session_file (rs_id s)) (Some body) d"
    using assms(1) by (auto simp: saveSession_def split: if_splits option.splits)
  then show "loadSession (on_disk d') (rs_id s) = Some s" "j \<noteq> rs_id s \<Longrightarrow> loadSession (on_disk d') j = loadSession (on_disk d) j"
    using session_reads_back [OF _ assms(2)] by (simp_all add: loadSession_def map_of_on_disk update_conv')
qed

section \<open>The end of a run\<close>

definition session_saved :: "finish \<Rightarrow> bool" where
  "session_saved out \<longleftrightarrow> out = NothingLost \<or> (\<exists>d m n. out = Lost d m n)"

lemma finish_saves:
  assumes "finishRollback env store_ok mkdir_ok open_ok taken t now fin s0 objs d = (out, s, objs', d')" and "session_saved out"
  shows "\<exists>before after. rs_before s0 = Some before \<and> takeSnapshot env store_ok t now (s_roots before) objs = Some (after, objs') \<and>
    s = s0\<lparr>rs_after := Some after, rs_end := fin\<rparr> \<and> saveSession mkdir_ok open_ok taken s d = (True, d')"
  using assms by (auto simp: finishRollback_def session_saved_def Let_def split: option.splits prod.splits if_splits)

text \<open>
  C28. Destruction can be undone, through the disk.  Take a snapshot, let the jail change anything in the
  tree, and let the run end with its session saved: then for every entry of the first snapshot whose
  content was stored and which is gone or has another hash, \<open>azkaban rollback restore\<close>, reading the
  session back from the JSON text in its file, writes to its path exactly the bytes the file had when
  the first snapshot met it.

  The conditions: there is a store (\<open>se_set\<close>); objects stored before the run have the names of their contents (\<open>sound\<close>), and no file
  changes between the two reads the first snapshot makes of it (\<open>steady\<close>); this entry's object is as
  it was, which nothing enforces, the store lying in a writable directory by default; the path can be
  written when it is put back; the session's names are UTF-8 and its numbers fit their Go types
  (\<open>session_ok\<close>); no two contents share this entry's hash, and hashes have at least twelve characters.
\<close>

theorem rollback_puts_back:
  assumes "takeSnapshot env mk1 t1 now1 roots objs0 = Some (before, objs1)"
    and "finishRollback env mk2 mkdir_ok open_ok taken t2 now2 fin (start_session cmd cwd start before) objs1' d = (out, s, objs2, d')"
    and "session_saved out" and "session_ok s"
    and "sound env objs0" and "steady (all_visits t1 roots)" and "se_set env"
    and "map_of objs1' (object_key (e_hash e)) = map_of objs1 (object_key (e_hash e))"
    and "e \<in> set (s_entries before)" and "e_hash e \<noteq> []"
    and "\<forall>after cur. rs_after s = Some after \<longrightarrow> snap_map (s_entries after) (e_path e) = Some cur \<longrightarrow> e_hash cur \<noteq> e_hash e"
    and no_collision: "\<forall>v w. se_hash env v = e_hash e \<longrightarrow> se_hash env w = e_hash e \<longrightarrow> v = w"
    and long: "\<forall>v. 12 \<le> length (se_hash env v)"
    and "fs_ok (e_path e) = (True, True)"
  shows "\<exists>fi content. VisitFile (e_path e) (Inr fi) \<in> all_visits t1 roots \<and> fi_content fi = Some content \<and>
    (\<exists>ls ws. rollbackShow env objs2 fs_ok (on_disk d') [stamp start] True = Listing ls ws \<and> (e_path e, content) \<in> set ws)"
proof -
  from finish_saves [OF assms(2,3)] obtain after
    where a: "takeSnapshot env mk2 t2 now2 (s_roots before) objs1' = Some (after, objs2)"
      "s = (start_session cmd cwd start before)\<lparr>rs_after := Some after, rs_end := fin\<rparr>"
      "saveSession mkdir_ok open_ok taken s d = (True, d')"
    by (auto simp: start_session_def)
  have s: "rs_id s = stamp start" "rs_before s = Some before" "rs_after s = Some after"
    by (simp_all add: a(2) start_session_def)
  have "s_roots before = roots" using takeSnapshot_state(4) [OF assms(1)] .
  then have a1: "takeSnapshot env mk2 t2 now2 roots objs1' = Some (after, objs2)" using a(1) by simp
  have l: "loadSession (on_disk d') (stamp start) = Some s" using saved_session_loads(1) [OF a(3) assms(4)] s(1) by simp
  have "\<forall>cur. snap_map (s_entries after) (e_path e) = Some cur \<longrightarrow> e_hash cur \<noteq> e_hash e" using assms(11) s(3) by blast
  from changed_file_comes_back [where fs_ok = fs_ok,
      OF assms(1) a1 assms(5-10) this no_collision long l s(2,3) assms(14)] show ?thesis .
qed

lemma early_times: "0 \<le> t \<Longrightarrow> t < int nanos \<Longrightarrow> time_text t \<noteq> None"
proof -
  assume t: "0 \<le> t" "t < int nanos"
  have "366 \<in> set (years 10000)" by (force simp: years_def leap_def)
  then have "366 \<le> sum_list (years 10000)" by (rule member_le_sum_list) simp
  then have "nanos \<le> sum_list (years 10000) * day_seconds * nanos" by (simp add: day_seconds_def)
  then have "int nanos \<le> time_limit" unfolding time_limit_def by (simp only: of_nat_le_iff)
  with t show ?thesis by (simp add: time_text_def Let_def)
qed

theorem rollback_puts_back_witness:
  "\<exists>taken out s d'. finishRollback sample_env True True True taken empty_tree 0 0
      (start_session [''sh''] ''/p'' 0 (sample_snap [sample_entry])) sample_objects [] = (out, s, sample_objects, d') \<and>
    (\<exists>ls ws. rollbackShow sample_env sample_objects (\<lambda>p. (p = ''/h/.claude/a'', True)) (on_disk d') [stamp 0] True = Listing ls ws \<and>
       (''/h/.claude/a'', ''hello'') \<in> set ws)"
proof -
  let ?begun = "start_session [''sh''] ''/p'' 0 (sample_snap [sample_entry])"
  let ?s = "?begun\<lparr>rs_after := Some (sample_snap []), rs_end := 0\<rparr>"
  have "0 < int nanos" "1 < int nanos" by (simp_all add: nanos_def)
  then have z: "time_text 0 \<noteq> None" "time_text 1 \<noteq> None" using early_times by simp_all
  then obtain body where body: "session_text ?s = Some body"
    by (auto simp: session_text_def session_json_def start_session_def pointer_json_def snapshot_json_def sample_snap_def
        entry_json_def sample_entry_def)
  have u: "valid_utf8 (stamp 0)" "valid_utf8 sample_hash"
    by (rule ascii_valid, rule stamp_chars) (rule ascii_valid, simp add: sample_hash_def list_all_iff)
  have ok: "session_ok ?s"
    using u ascii_valid
    by (simp add: session_ok_def start_session_def snapshot_ok_def sample_snap_def entry_ok_def sample_entry_def int64_def)
  let ?d = "AList.update (session_file (stamp 0)) (Some body) []"
  have f: "\<exists>out. finishRollback sample_env True True True (length body) empty_tree 0 0 ?begun sample_objects [] = (out, ?s, sample_objects, ?d) \<and>
      session_saved out"
    using body empty_taken
    by (simp add: finishRollback_def saveSession_def session_saved_def start_session_def sample_snap_def Let_def split_beta)
  then obtain out where out: "finishRollback sample_env True True True (length body) empty_tree 0 0 ?begun sample_objects [] = (out, ?s, sample_objects, ?d)"
    "session_saved out" by blast
  have "hd (replicate 64 (CHR ''0'')) \<noteq> hd sample_hash" by (simp add: sample_hash_def)
  then have other_hash: "replicate 64 (CHR ''0'') \<noteq> sample_hash" by metis
  have hyps: "se_set sample_env" "sample_entry \<in> set (s_entries (sample_snap [sample_entry]))" "e_hash sample_entry \<noteq> []"
    "\<forall>after cur. rs_after ?s = Some after \<longrightarrow> snap_map (s_entries after) (e_path sample_entry) = Some cur \<longrightarrow> e_hash cur \<noteq> e_hash sample_entry"
    "\<forall>v w. se_hash sample_env v = e_hash sample_entry \<longrightarrow> se_hash sample_env w = e_hash sample_entry \<longrightarrow> v = w"
    "\<forall>v. 12 \<le> length (se_hash sample_env v)"
    using other_hash sample_hash_facts
    by (simp_all add: sample_env_def sample_entry_def sample_snap_def snap_map_def)
  have path: "e_path sample_entry = ''/h/.claude/a''" by (simp add: sample_entry_def)
  let ?fs = "\<lambda>p. (p = ''/h/.claude/a'', True)"
  have fs: "?fs (e_path sample_entry) = (True, True)" by (simp add: path)
  from rollback_puts_back [where fs_ok = ?fs,
      OF sample_taken out ok empty_sound sample_steady hyps(1) refl hyps(2-6) fs] obtain fi content ls ws
    where "VisitFile (e_path sample_entry) (Inr fi) \<in> all_visits full_tree [''/h/.claude'']" "fi_content fi = Some content"
      "rollbackShow sample_env sample_objects ?fs (on_disk ?d) [stamp 0] True = Listing ls ws"
      "(e_path sample_entry, content) \<in> set ws"
    by auto
  moreover from this have "content = ''hello''" by (simp add: all_visits_def sample_visits path sample_file_def)
  ultimately show ?thesis using out(1) unfolding path by blast
qed

section \<open>What a cleanup reports\<close>

text \<open>Division rounded to the nearest, ties to even; the conversion of an integer to \<open>float64\<close> keeps 53 bits.\<close>

definition round_div :: "nat \<Rightarrow> nat \<Rightarrow> nat" where
  "round_div n d =
     (let q = n div d; r = n mod d in if d < 2 * r \<or> 2 * r = d \<and> odd q then q + 1 else q)"

fun bit_count :: "nat \<Rightarrow> nat" where
  "bit_count n = (if n = 0 then 0 else Suc (bit_count (n div 2)))"

declare bit_count.simps [simp del]

definition to_float64 :: "nat \<Rightarrow> nat" where
  "to_float64 n = (let unit = 2 ^ (bit_count n - 53) in round_div n unit * unit)"

text \<open>\<open>%.1f\<close> of a number of bytes over a power of two.\<close>

definition one_decimal :: "nat \<Rightarrow> nat \<Rightarrow> string" where
  "one_decimal b unit =
     (let tenths = round_div (10 * to_float64 b) unit in itoa (tenths div 10) @ ''.'' @ itoa (tenths mod 10))"

definition humanSize :: "nat \<Rightarrow> string" where
  "humanSize b =
     (if 2 ^ 30 \<le> b then one_decimal b (2 ^ 30) @ '' GiB''
      else if 2 ^ 20 \<le> b then one_decimal b (2 ^ 20) @ '' MiB''
      else if 2 ^ 10 \<le> b then one_decimal b (2 ^ 10) @ '' KiB''
      else itoa b @ '' B'')"

text \<open>The objects removed are counted, the bytes of all that were to be removed are added up.\<close>

definition swept :: "string list \<Rightarrow> objects \<Rightarrow> objects" where
  "swept kept objs = filter (\<lambda>((d, ob), v). d @ ob \<notin> set kept) objs"

definition cleanup_message :: "(string \<times> string \<Rightarrow> bool) \<Rightarrow> int \<Rightarrow> string list \<Rightarrow> objects \<Rightarrow> string" where
  "cleanup_message rm_object keep kept objs =
     ''kept the newest '' @ int_text keep @ '' session(s); dropped '' @
     itoa (length (filter (\<lambda>(k, v). rm_object k) (swept kept objs))) @ '' unreferenced object(s), '' @
     humanSize (sum_list (map (\<lambda>(k, v). length v) (swept kept objs))) @ [newline]"

lemma digit_literals:
  "char_of (48 :: nat) = CHR ''0''"
  "char_of (49 :: nat) = CHR ''1''"
  "char_of (50 :: nat) = CHR ''2''"
  "char_of (51 :: nat) = CHR ''3''"
  "char_of (52 :: nat) = CHR ''4''"
  "char_of (53 :: nat) = CHR ''5''"
  "char_of (54 :: nat) = CHR ''6''"
  "char_of (55 :: nat) = CHR ''7''"
  "char_of (56 :: nat) = CHR ''8''"
  "char_of (57 :: nat) = CHR ''9''"
  by code_simp+

lemma size_samples:
  "humanSize 1023 = ''1023 B''" "humanSize 1024 = ''1.0 KiB''" "humanSize 1075 = ''1.0 KiB''" "humanSize 1076 = ''1.1 KiB''"
  "humanSize (2 ^ 20 - 1) = ''1024.0 KiB''" "humanSize (2 ^ 40) = ''1024.0 GiB''"
  by (simp_all add: humanSize_def one_decimal_def round_div_def to_float64_def Let_def bit_count.simps itoa.simps digit_literals)

text \<open>An object that could not be removed counts as freed.\<close>

lemma failures_count_as_freed:
  "cleanup_message (\<lambda>k. False) 10 [] sample_objects =
     ''kept the newest 10 session(s); dropped 0 unreferenced object(s), 5 B'' @ [newline]"
  by (simp add: cleanup_message_def swept_def sample_objects_def humanSize_def int_text_def itoa.simps digit_literals)

section \<open>Names that are not UTF-8\<close>

text \<open>
  \<open>Marshal\<close> replaces what is no UTF-8, so such a file is compared and restored under another name, and two
  of them can be recorded under the same one.
\<close>

lemma names_collide: "write_str (''/h/'' @ [CHR 0xFF]) = write_str (''/h/'' @ [CHR 0xFE])"
  by code_simp

end
