(* ===== verification/Shell_Quote.thy ===== *)
theory Shell_Quote
  imports Prelude
begin

text \<open>
  \<open>shquote\<close> (\<open>cgroups.go\<close>), which renders the bubblewrap command for \<open>--dry-run\<close> and for the run record,
  against a reader of POSIX shell words.
\<close>

abbreviation apostrophe :: char where "apostrophe \<equiv> CHR 0x27"
abbreviation backslash :: char where "backslash \<equiv> CHR 0x5C"

definition quote_chars :: string where
  "quote_chars = [CHR '' '', CHR 0x09, CHR 0x0A, backslash, CHR 0x22, apostrophe, CHR ''$'']"

definition needs_quotes :: "string \<Rightarrow> bool" where
  "needs_quotes a \<longleftrightarrow> a = [] \<or> contains_any a quote_chars"

definition escape_quotes :: "string \<Rightarrow> string" where
  "escape_quotes a = concat (map (\<lambda>c. if c = apostrophe then [apostrophe, backslash, apostrophe, apostrophe] else [c]) a)"

definition quote_arg :: "string \<Rightarrow> string" where
  "quote_arg a = (if needs_quotes a then [apostrophe] @ escape_quotes a @ [apostrophe] else a)"

definition shquote :: "string list \<Rightarrow> string" where
  "shquote args = join_with '' '' (map quote_arg args)"

section \<open>The shell's side\<close>

text \<open>
  Word splitting of one simple command: single quotes, backslash, blanks.  A character that the
  shell would interpret (an operator, an expansion, a pattern) makes the reading fail.
\<close>

definition shell_special :: string where
  "shell_special = ''|&;<>()$*?[]#~{}!'' @ [CHR 0x60, CHR 0x22, CHR 0x0A]"

datatype sh_mode = Bare | Quoted | Escaped

definition word :: "string option \<Rightarrow> string" where
  "word cur = (case cur of None \<Rightarrow> [] | Some w \<Rightarrow> w)"

fun sh_lex :: "sh_mode \<Rightarrow> string option \<Rightarrow> string \<Rightarrow> string list option" where
  "sh_lex m cur [] =
     (if m \<noteq> Bare then None else Some (case cur of None \<Rightarrow> [] | Some w \<Rightarrow> [w]))"
| "sh_lex Bare cur (c # cs) =
     (if c = apostrophe then sh_lex Quoted (Some (word cur)) cs
      else if c = backslash then sh_lex Escaped (Some (word cur)) cs
      else if c = CHR '' '' \<or> c = CHR 0x09 then
        (case cur of None \<Rightarrow> sh_lex Bare None cs | Some w \<Rightarrow> map_option (Cons w) (sh_lex Bare None cs))
      else if c \<in> set shell_special then None
      else sh_lex Bare (Some (word cur @ [c])) cs)"
| "sh_lex Quoted cur (c # cs) =
     (if c = apostrophe then sh_lex Bare cur cs else sh_lex Quoted (Some (word cur @ [c])) cs)"
| "sh_lex Escaped cur (c # cs) =
     (if c = CHR 0x0A then None else sh_lex Bare (Some (word cur @ [c])) cs)"

definition sh_words :: "string \<Rightarrow> string list option" where
  "sh_words s = sh_lex Bare None s"

section \<open>The round trip\<close>

lemma lex_quoted: "sh_lex Quoted (Some w) (escape_quotes a @ apostrophe # rest) = sh_lex Bare (Some (w @ a)) rest"
  by (induction a arbitrary: w) (auto simp: escape_quotes_def word_def)

lemma lex_bare:
  "\<forall>c \<in> set a. c \<notin> set shell_special \<and> c \<notin> set quote_chars \<Longrightarrow>
     sh_lex Bare (Some w) (a @ rest) = sh_lex Bare (Some (w @ a)) rest"
  by (induction a arbitrary: w) (auto simp: quote_chars_def word_def)

text \<open>
  The arguments the claim is about, without looking at the code's rule: those that hold no operator,
  pattern, comment, history or command character other than a dollar, a double quote or a newline,
  and those that also hold a blank, tab, newline, backslash, quote or dollar.
\<close>

definition lexable :: "string \<Rightarrow> bool" where
  "lexable a \<longleftrightarrow>
     (\<forall>c \<in> set a. c \<notin> set (CHR 0x60 # ''|&;<>()*?[]#~{}!'')) \<or>
     (\<exists>c \<in> set a. c \<in> {CHR '' '', CHR 0x09, CHR 0x0A, CHR 0x5C, CHR 0x22, CHR 0x27, CHR ''$''})"

lemma bare_arg:
  assumes "lexable a" and "\<not> needs_quotes a"
  shows "a \<noteq> []" and "\<forall>c \<in> set a. c \<notin> set shell_special \<and> c \<notin> set quote_chars"
  using assms by (auto simp: lexable_def needs_quotes_def contains_any_def list_ex_iff quote_chars_def shell_special_def)

lemma lex_arg:
  assumes "lexable a"
  shows "sh_lex Bare None (quote_arg a @ rest) = sh_lex Bare (Some a) rest"
proof (cases "needs_quotes a")
  case True
  then show ?thesis using lex_quoted [of "[]" a rest] by (simp add: quote_arg_def word_def)
next
  case False
  note bare = bare_arg [OF assms False]
  then obtain c cs where a: "a = c # cs" by (cases a) auto
  then have c: "c \<notin> set shell_special" "c \<notin> set quote_chars" and cs: "\<forall>c \<in> set cs. c \<notin> set shell_special \<and> c \<notin> set quote_chars"
    using bare(2) by auto
  from c have "sh_lex Bare None (c # cs @ rest) = sh_lex Bare (Some [c]) (cs @ rest)"
    by (auto simp: quote_chars_def word_def)
  also have "\<dots> = sh_lex Bare (Some a) rest" using lex_bare [OF cs, of "[c]" rest] by (simp add: a)
  finally show ?thesis using False by (simp add: quote_arg_def a)
qed

lemma lex_args:
  "list_all lexable args \<Longrightarrow> args \<noteq> [] \<Longrightarrow> sh_lex Bare None (join_with '' '' (map quote_arg args)) = Some args"
proof (induction args rule: induct_list012)
  case (2 a)
  then show ?case using lex_arg [of a "[]"] by simp
next
  case (3 a b args)
  then show ?case using lex_arg [of a "CHR '' '' # join_with '' '' (map quote_arg (b # args))"] by simp
qed simp

text \<open>
  C40. The printed command is the command: when no argument holds an operator or pattern of the shell (one
  of \<open>|&;<>()*?[]#~{}!\<close> or a backquote) without also holding a blank, tab, newline, backslash, quote or
  dollar, a shell reads the line back as exactly the argument list, empty arguments, blanks, quotes,
  backslashes, dollars and newlines included.  The exception is real: lemma \<open>operator_is_not_quoted\<close>.
\<close>

theorem shquote_reads_back:
  assumes "list_all lexable args"
  shows "sh_words (shquote args) = Some args"
  using lex_args [OF assms] by (cases "args = []") (simp_all add: sh_words_def shquote_def)

theorem shquote_reads_back_witness:
  "sh_words (shquote [''/usr/bin/bwrap'', ''PS1'', ''(jail) $ '', [], [apostrophe], ''a$b'', [CHR 0x22], [CHR ''x'', CHR 0x0A]]) =
     Some [''/usr/bin/bwrap'', ''PS1'', ''(jail) $ '', [], [apostrophe], ''a$b'', [CHR 0x22], [CHR ''x'', CHR 0x0A]]"
proof -
  have "list_all lexable [''/usr/bin/bwrap'', ''PS1'', ''(jail) $ '', [], [apostrophe], ''a$b'', [CHR 0x22], [CHR ''x'', CHR 0x0A]]"
    by (simp add: lexable_def)
  then show ?thesis by (rule shquote_reads_back)
qed

text \<open>An operator without a blank next to it is printed bare: the line is not the command.\<close>

lemma operator_is_not_quoted: "shquote [''sh'', ''a;b''] = ''sh a;b'' \<and> sh_words (shquote [''sh'', ''a;b'']) = None"
  by code_simp

text \<open>Every argument's text is in the line.\<close>

lemma join_sublist: "a \<in> set xs \<Longrightarrow> sublist a (join_with sep xs)"
proof (induction sep xs rule: join_with.induct)
  case (3 sep x y ys)
  show ?case
  proof (cases "a = x")
    case False
    then have "sublist a (join_with sep (y # ys))" using 3 by simp
    then show ?thesis by (simp add: sublist_append)
  qed (simp add: sublist_append)
qed auto

lemma escape_plain: "apostrophe \<notin> set a \<Longrightarrow> escape_quotes a = a"
  by (induction a) (auto simp: escape_quotes_def)

lemma shquote_shows: "a \<in> set args \<Longrightarrow> apostrophe \<notin> set a \<Longrightarrow> contains_sub (shquote args) a"
proof -
  assume a: "a \<in> set args" "apostrophe \<notin> set a"
  have "sublist a ([apostrophe] @ a @ [apostrophe])" by (rule sublist_appendI)
  then have "sublist a (quote_arg a)" by (simp add: quote_arg_def escape_plain [OF a(2)])
  moreover have "sublist (quote_arg a) (shquote args)"
    unfolding shquote_def by (rule join_sublist) (simp add: a(1))
  ultimately show ?thesis by (rule sublist_order.order_trans)
qed

end
