(* ===== verification/Audit_Log.thy ===== *)
theory Audit_Log
  imports Paths Json_Stream "HOL-Library.List_Lexorder" "HOL-Library.Char_ord"
begin

text \<open>
  The run record (\<open>audit.go\<close>): where it lives, what is written to it, and what is redacted from a command
  line on the way in.
\<close>

section \<open>The record\<close>

definition auditDir :: "string \<Rightarrow> string option \<Rightarrow> string" where
  "auditDir xdg_state home =
     (if xdg_state \<noteq> [] then join_path [xdg_state, ''azkaban'', ''audit'']
      else (case home of
              None \<Rightarrow> []
            | Some h \<Rightarrow> join_path [join_path [h, ''.local'', ''state''], ''azkaban'', ''audit'']))"

text \<open>
  An open record: the text this run has added to the file, whether the warning about a failed write was given, and the
  number of messages on standard error.
\<close>

record auditor =
  a_path :: string
  a_start :: int
  a_text :: string
  a_warned :: bool
  a_closed :: bool
  a_warnings :: nat

text \<open>The number of warnings printed, and the record.  \<open>None\<close> is the nil auditor, a working no-op.\<close>

definition startAudit :: "bool \<Rightarrow> string \<Rightarrow> bool \<Rightarrow> (string \<Rightarrow> bool) \<Rightarrow> string \<Rightarrow> int \<Rightarrow> nat \<times> auditor option" where
  "startAudit enabled dir mkdir_ok open_ok name now =
     (if \<not> enabled then (0, None)
      else if dir = [] then (1, None)
      else if \<not> mkdir_ok then (1, None)
      else if \<not> open_ok (join_path [dir, name]) then (1, None)
      else (0, Some \<lparr>a_path = join_path [dir, name], a_start = now, a_text = [], a_warned = False,
                     a_closed = False, a_warnings = 0\<rparr>))"

text \<open>
  An event: the time, its kind, and fields that may replace either.  It is a Go map, which \<open>Marshal\<close>
  writes in the order of the keys.
\<close>

record audit_entry =
  en_time :: string
  en_kind :: string
  en_fields :: "(string \<times> json) list"

definition audit_record :: "audit_entry \<Rightarrow> json" where
  "audit_record e =
     JObj (sort_key fst (foldl (\<lambda>m (k, v). put k v m) [(''t'', JStr (en_time e)), (''event'', JStr (en_kind e))] (en_fields e)))"

definition audit_line :: "audit_entry \<Rightarrow> string" where
  "audit_line e = json_marshal (audit_record e) @ [newline]"

text \<open>\<open>event\<close>: of the line the kernel takes some number of bytes; fewer than all is an error, warned about
  once; a file that is closed takes none.\<close>

definition write_line :: "nat \<Rightarrow> string \<Rightarrow> auditor \<Rightarrow> auditor" where
  "write_line taken line r =
     (let n = (if a_closed r then 0 else taken); r' = r\<lparr>a_text := a_text r @ take n line\<rparr> in
      if length line \<le> n \<or> a_warned r then r'
      else r'\<lparr>a_warned := True, a_warnings := a_warnings r + 1\<rparr>)"

definition audit_event :: "audit_entry \<Rightarrow> nat \<Rightarrow> auditor option \<Rightarrow> auditor option" where
  "audit_event e taken a = map_option (write_line taken (audit_line e)) a"

definition exit_entry :: "string \<Rightarrow> int \<Rightarrow> int \<Rightarrow> audit_entry" where
  "exit_entry t code duration =
     \<lparr>en_time = t, en_kind = ''exit'', en_fields = [(''code'', JNum (int_text code)), (''duration_ms'', JNum (int_text duration))]\<rparr>"

definition audit_close :: "string \<Rightarrow> int \<Rightarrow> int \<Rightarrow> nat \<Rightarrow> bool \<Rightarrow> auditor option \<Rightarrow> auditor option" where
  "audit_close t code duration taken close_ok a =
     map_option (\<lambda>r. r\<lparr>a_closed := True, a_warnings := a_warnings r + (if close_ok then 0 else 1)\<rparr>)
       (audit_event (exit_entry t code duration) taken a)"

text \<open>\<open>degraded\<close>: the warning is printed with or without a record.\<close>

definition audit_degraded :: "string \<Rightarrow> string \<Rightarrow> string \<Rightarrow> nat \<Rightarrow> auditor option \<Rightarrow> string \<times> auditor option" where
  "audit_degraded t what detail taken a =
     (''azkaban: WARNING: '' @ detail,
      audit_event \<lparr>en_time = t, en_kind = ''degraded'', en_fields = [(''what'', JStr what), (''detail'', JStr detail)]\<rparr> taken a)"

lemma warns_once:
  "a_warnings r \<le> (if a_warned r then 1 else 0) \<Longrightarrow>
     a_warnings (write_line n line r) \<le> (if a_warned (write_line n line r) then 1 else 0)"
  by (auto simp: write_line_def Let_def)

subsection \<open>What can be read back\<close>

definition audit_run :: "(audit_entry \<times> nat) list \<Rightarrow> auditor \<Rightarrow> auditor" where
  "audit_run es r = fold (\<lambda>(e, taken). write_line taken (audit_line e)) es r"

lemma audit_run_event: "fold (\<lambda>(e, taken). audit_event e taken) es (Some r) = Some (audit_run es r)"
  by (induction es arbitrary: r) (auto simp: audit_run_def audit_event_def)

text \<open>The lines of a file: what new lines end.\<close>

definition file_lines :: "string \<Rightarrow> string list" where
  "file_lines s = butlast (split_on newline s)"

lemma file_lines_Nil [simp]: "file_lines [] = []"
  by (simp add: file_lines_def)

lemma file_lines_Cons: "newline \<notin> set l \<Longrightarrow> file_lines (l @ newline # s) = l # file_lines s"
proof -
  assume "newline \<notin> set l"
  then have "split_on newline (l @ newline # s) = l # split_on newline s"
    by (intro split_by_append_sep) auto
  then show ?thesis by (simp add: file_lines_def)
qed

definition fields_one_line :: "audit_entry \<Rightarrow> bool" where
  "fields_one_line e = list_all (\<lambda>kv. one_line (snd kv)) (en_fields e)"

lemma put_members: "set (put k v m) \<subseteq> insert (k, v) (set m)"
  by (induction k v m rule: put.induct) auto

lemma record_one_line:
  assumes "fields_one_line e"
  shows "newline \<notin> set (json_marshal (audit_record e))"
proof -
  have "list_all (\<lambda>kv. one_line (snd kv)) (foldl (\<lambda>m (k, v). put k v m) m fs)"
    if "list_all (\<lambda>kv. one_line (snd kv)) m" "list_all (\<lambda>kv. one_line (snd kv)) fs" for m :: "(string \<times> json) list" and fs
    using that
  proof (induction fs arbitrary: m)
    case (Cons f fs)
    have "list_all (\<lambda>kv. one_line (snd kv)) (put (fst f) (snd f) m)"
      using Cons.prems put_members [of "fst f" "snd f" m] by (auto simp: list_all_iff)
    with Cons show ?case by (simp add: split_beta)
  qed simp
  from this [of "[(''t'', JStr (en_time e)), (''event'', JStr (en_kind e))]" "en_fields e"] assms
  have "one_line (audit_record e)" by (simp add: audit_record_def fields_one_line_def list_all_iff split_beta)
  then show ?thesis unfolding json_marshal_def by (rule marshal_one_line)
qed

definition all_or_nothing :: "audit_entry \<times> nat \<Rightarrow> bool" where
  "all_or_nothing en \<longleftrightarrow> snd en = 0 \<or> length (audit_line (fst en)) \<le> snd en"

definition written :: "(audit_entry \<times> nat) list \<Rightarrow> audit_entry list" where
  "written es = map fst (filter (\<lambda>en. snd en \<noteq> 0) es)"

lemma run_text:
  "list_all all_or_nothing es \<Longrightarrow> \<not> a_closed r \<Longrightarrow> a_text (audit_run es r) = a_text r @ concat (map audit_line (written es))"
proof (induction es arbitrary: r)
  case (Cons en es)
  have "a_text (write_line (snd en) (audit_line (fst en)) r) = a_text r @ (if snd en = 0 then [] else audit_line (fst en))"
    "\<not> a_closed (write_line (snd en) (audit_line (fst en)) r)"
    using Cons.prems by (auto simp: all_or_nothing_def write_line_def Let_def)
  with Cons show ?case by (simp add: audit_run_def split_beta written_def)
qed (simp add: audit_run_def written_def)

lemma lines_written:
  "list_all fields_one_line es \<Longrightarrow> file_lines (concat (map audit_line es)) = map (\<lambda>e. json_marshal (audit_record e)) es"
  by (induction es) (simp_all add: audit_line_def file_lines_Cons record_one_line)

text \<open>
  C39. The strings of an event cannot add lines to the record or run into another one: whatever bytes they
  hold (a host name, a path, an argument), as long as a write is taken whole or not at all and the file is
  open, the lines this run adds to the file are the events that were written, one line each and in
  order; and an event whose strings are UTF-8 is read back from its line unchanged.  This is about the text
  azkaban writes.  It does not make the record evidence against the child (\<open>audit.go\<close> says so): under
  \<open>--persist\<close> or \<open>--rollback\<close> the file itself lies in \<open>~/.local/state\<close>, which the jail can write.
\<close>

theorem record_lines_are_events:
  assumes "list_all all_or_nothing es" and "list_all (\<lambda>en. fields_one_line (fst en)) es" and "a_text r = []" "\<not> a_closed r"
  shows "file_lines (a_text (audit_run es r)) = map (\<lambda>e. json_marshal (audit_record e)) (written es) \<and>
    (\<forall>e \<in> set (written es). wf_json (audit_record e) \<and> json_depth (audit_record e) \<le> maxNestingDepth \<longrightarrow>
      json_parse (json_marshal (audit_record e)) = Some (audit_record e))"
proof -
  have "list_all fields_one_line (written es)" using assms(2) by (auto simp: written_def list_all_iff)
  then show ?thesis using run_text [OF assms(1,4)] assms(3) lines_written json_parse_written by simp
qed

text \<open>A host name that tries to be two lines.\<close>

definition crooked :: audit_entry where
  "crooked = \<lparr>en_time = ''0'', en_kind = ''egress'', en_fields = [(''host'', JStr (''a'' @ [newline, quote] @ ''b''))]\<rparr>"

theorem record_lines_are_events_witness:
  "length (file_lines (a_text (audit_run [(crooked, 1000), (exit_entry ''1'' 0 7, 0), (crooked, 1000)]
     (the (snd (startAudit True ''/s'' True (\<lambda>p. True) ''r'' 0)))))) = 2"
proof -
  let ?es = "[(crooked, 1000), (exit_entry ''1'' 0 7, 0), (crooked, 1000)]" and
    ?r = "the (snd (startAudit True ''/s'' True (\<lambda>p. True) ''r'' 0))"
  have "length (audit_line crooked) \<le> 1000" by code_simp
  then have "list_all all_or_nothing ?es" by (simp add: all_or_nothing_def)
  moreover have "list_all (\<lambda>en. fields_one_line (fst en)) ?es"
    by (simp add: fields_one_line_def crooked_def exit_entry_def int_text_one_line)
  moreover have "a_text ?r = []" "\<not> a_closed ?r" by (simp_all add: startAudit_def)
  ultimately have "file_lines (a_text (audit_run ?es ?r)) = map (\<lambda>e. json_marshal (audit_record e)) (written ?es)"
    using record_lines_are_events [of ?es ?r] by blast
  then show ?thesis by (simp add: written_def)
qed

section \<open>Redaction\<close>

text \<open>The two regular expressions; both only look at ASCII letters, digits and a few signs.\<close>

definition secret_words :: "string list" where
  "secret_words = [''token'', ''secret'', ''password'', ''passwd'', ''apikey'', ''api-key'', ''api_key'', ''credential'', ''auth'']"

definition secretFlag :: "string \<Rightarrow> bool" where
  "secretFlag s \<longleftrightarrow> list_ex (contains_sub (to_lower s)) secret_words"

definition is_alnum :: "char \<Rightarrow> bool" where
  "is_alnum c = (is_digit c \<or> (let n = (of_char (lower_char c) :: nat) in 97 \<le> n \<and> n \<le> 122))"

definition trim_padding :: "string \<Rightarrow> string" where
  "trim_padding s = (if has_suffix s ''=='' then trim_suffix s ''=='' else trim_suffix s ''='')"

definition looksLikeSecret :: "string \<Rightarrow> bool" where
  "looksLikeSecret s \<longleftrightarrow>
     32 \<le> length s \<and> list_all (\<lambda>c. is_alnum c \<or> c = CHR ''_'' \<or> c = CHR ''-'') s \<or>
     (let body = trim_padding s in
        40 \<le> length body \<and> list_all (\<lambda>c. is_alnum c \<or> c = CHR ''+'' \<or> c = slash) body)"

definition redacted :: string where "redacted = ''<redacted>''"

text \<open>One argument that is not itself a dropped value: what is written, and whether the next one is.\<close>

definition redact_one :: "string \<Rightarrow> string \<times> bool" where
  "redact_one arg =
     (case cut_at arg (CHR ''='') of (name, val, inline) \<Rightarrow>
        if inline \<and> secretFlag name then (name @ ''='' @ redacted, False)
        else if has_prefix arg ''-'' \<and> secretFlag arg then (arg, True)
        else if \<not> has_prefix arg ''-'' \<and> looksLikeSecret arg then (redacted, False)
        else (arg, False))"

fun redact_from :: "bool \<Rightarrow> string list \<Rightarrow> string list" where
  "redact_from drop_next [] = []"
| "redact_from drop_next (arg # argv) =
     (if drop_next then redacted # redact_from False argv
      else (case redact_one arg of (out, d) \<Rightarrow> out # redact_from d argv))"

definition redactArgv :: "string list \<Rightarrow> string list" where
  "redactArgv argv = redact_from False argv"

subsection \<open>What it does\<close>

text \<open>The specification: which positions hold the value of a secret flag.\<close>

fun is_value :: "string list \<Rightarrow> nat \<Rightarrow> bool" where
  "is_value argv 0 = False"
| "is_value argv (Suc i) = (\<not> is_value argv i \<and> snd (redact_one (argv ! i)))"

lemma length_redact [simp]: "length (redact_from d argv) = length argv"
  by (induction d argv rule: redact_from.induct) (auto split: prod.splits)

lemma redact_from_nth:
  assumes "j < length argv"
  shows "redact_from (is_value pre (length pre)) argv ! j =
    (if is_value (pre @ argv) (length pre + j) then redacted else fst (redact_one (argv ! j)))"
proof -
  have prefix_stable: "is_value (as @ bs) i = is_value as i" if "i \<le> length as" for as bs i
    using that by (induction i) (auto simp: nth_append)
  show ?thesis
    using assms
  proof (induction argv arbitrary: pre j)
    case (Cons a argv)
    have v: "is_value (pre @ a # argv) (length pre) = is_value pre (length pre)" by (simp add: prefix_stable)
    show ?case
    proof (cases j)
      case 0
      then show ?thesis using v by (auto split: prod.split)
    next
      case (Suc k)
      have n: "is_value (pre @ [a]) (length (pre @ [a])) =
          (\<not> is_value pre (length pre) \<and> snd (redact_one a))"
        by (simp add: prefix_stable)
      have "redact_from (is_value pre (length pre)) (a # argv) ! j = redact_from (is_value (pre @ [a]) (length (pre @ [a]))) argv ! k"
        unfolding n using Suc by (auto split: prod.split)
      then show ?thesis using Cons.IH [of k "pre @ [a]"] Cons.prems Suc by simp
    qed
  qed simp
qed

lemma redacted_not_secret: "\<not> looksLikeSecret redacted" "\<not> has_prefix redacted ''-''" "cut_at redacted (CHR ''='') = (redacted, [], False)"
  by code_simp+

lemma redact_one_safe:
  "x = fst (redact_one arg) \<Longrightarrow>
     (\<forall>name v. cut_at x (CHR ''='') = (name, v, True) \<longrightarrow> secretFlag name \<longrightarrow> v = redacted) \<and>
     (looksLikeSecret x \<longrightarrow> has_prefix x ''-'')"
proof -
  assume x: "x = fst (redact_one arg)"
  obtain name val inline where c: "cut_at arg (CHR ''='') = (name, val, inline)" by (metis prod_cases3)
  show ?thesis
  proof (cases "inline \<and> secretFlag name")
    case True
    then have x: "x = name @ CHR ''='' # redacted" using x c by (simp add: redact_one_def)
    have "cut_at x (CHR ''='') = (name, redacted, True)" unfolding x using c True by (simp add: cut_at_found)
    moreover have "\<not> looksLikeSecret x"
    proof -
      have "CHR ''<'' \<in> set (trim_padding x)" "CHR ''<'' \<in> set x"
        by (auto simp: x redacted_def trim_padding_def trim_suffix_def suffix_def)
      moreover have "\<not> is_alnum (CHR ''<'')" by code_simp
      ultimately show ?thesis by (auto simp: looksLikeSecret_def Let_def list_all_iff)
    qed
    ultimately show ?thesis by simp
  next
    case False
    then have "x = arg \<and> (\<not> looksLikeSecret arg \<or> has_prefix arg ''-'') \<or> x = redacted"
      using x c by (auto simp: redact_one_def split: if_splits)
    then show ?thesis using False c redacted_not_secret by auto
  qed
qed

text \<open>
  What is written for each argument of a command line, by position: the list keeps its length, the
  argument after a secret-named flag becomes a placeholder (unless that flag was itself dropped as such
  a value), and every other argument is scrubbed on its own.
\<close>

lemma redaction_is_exact:
  "length (redactArgv argv) = length argv \<and>
   (\<forall>i < length argv. redactArgv argv ! i = (if is_value argv i then redacted else fst (redact_one (argv ! i))))"
  using redact_from_nth [of _ argv "[]"] by (simp add: redactArgv_def)

text \<open>
  The positions a reader of a command line would call the value of a secret flag: the argument before it
  is a flag (it starts with a dash) whose text holds one of the nine words, in any case, it carries no
  value of its own behind an equals sign, and it is not itself the value of the flag before it.
\<close>

definition names_secret :: "string \<Rightarrow> bool" where
  "names_secret s \<longleftrightarrow>
     (\<exists>w \<in> {''token'', ''secret'', ''password'', ''passwd'', ''apikey'', ''api-key'', ''api_key'', ''credential'', ''auth''}.
        sublist w (to_lower s))"

definition holds_value :: "string \<Rightarrow> bool" where
  "holds_value a \<longleftrightarrow> (\<exists>name v. a = name @ CHR ''='' # v \<and> CHR ''='' \<notin> set name \<and> names_secret name)"

definition waits_for_value :: "string \<Rightarrow> bool" where
  "waits_for_value a \<longleftrightarrow> (\<exists>cs. a = CHR ''-'' # cs) \<and> names_secret a \<and> \<not> holds_value a"

fun flag_value :: "string list \<Rightarrow> nat \<Rightarrow> bool" where
  "flag_value argv 0 = False"
| "flag_value argv (Suc i) = (waits_for_value (argv ! i) \<and> \<not> flag_value argv i)"

lemma names_secret_flag: "names_secret s = secretFlag s"
  by (auto simp: names_secret_def secretFlag_def secret_words_def)

lemma holds_value_cut: "holds_value a \<longleftrightarrow> (\<exists>name v. cut_at a (CHR ''='') = (name, v, True) \<and> secretFlag name)"
  by (auto simp: holds_value_def names_secret_flag cut_at_found)

lemma dash_prefix: "has_prefix a ''-'' \<longleftrightarrow> (\<exists>cs. a = CHR ''-'' # cs)"
  by (cases a) auto

lemma waits_for_value_code: "snd (redact_one a) = waits_for_value a"
  by (auto simp: redact_one_def waits_for_value_def names_secret_flag holds_value_cut dash_prefix split: prod.split)

lemma flag_value_code: "flag_value argv i = is_value argv i"
  by (induction i) (auto simp: waits_for_value_code)

lemma redact_one_keeps:
  "fst (redact_one a) \<noteq> a \<Longrightarrow> holds_value a \<or> looksLikeSecret a \<and> \<not> has_prefix a ''-''"
  by (auto simp: redact_one_def holds_value_cut split: prod.splits if_splits)

text \<open>The shape of a key or a token: what the two alternatives of the expression accept, spelled out.\<close>

definition letters_digits :: string where
  "letters_digits = ''ABCDEFGHIJKLMNOPQRSTUVWXYZabcdefghijklmnopqrstuvwxyz0123456789''"

definition key_shaped :: "string \<Rightarrow> bool" where
  "key_shaped s \<longleftrightarrow>
     32 \<le> length s \<and> set s \<subseteq> set (letters_digits @ ''_-'') \<or>
     (\<exists>body pad. s = body @ pad \<and> pad \<in> {[], ''='', ''==''} \<and> 40 \<le> length body \<and> set body \<subseteq> set (letters_digits @ ''+/''))"

lemma is_alnum_letters: "is_alnum c \<longleftrightarrow> c \<in> set letters_digits"
proof -
  have "list_all (\<lambda>c. is_alnum c \<longleftrightarrow> c \<in> set letters_digits) Enum.enum" by code_simp
  then show ?thesis by (auto simp: list_all_iff enum_UNIV)
qed

lemma trim_padding_body:
  "CHR ''='' \<notin> set body \<Longrightarrow> pad \<in> {[], ''='', ''==''} \<Longrightarrow> trim_padding (body @ pad) = body"
  by (auto simp: trim_padding_def trim_suffix_def suffix_def)

lemma trim_padding_split: "\<exists>pad \<in> {[], ''='', ''==''}. s = trim_padding s @ pad"
  by (auto simp: trim_padding_def trim_suffix_def suffix_def)

lemma key_shaped_code: "looksLikeSecret s = key_shaped s"
proof -
  let ?X = "set (letters_digits @ ''+/'')"
  have "CHR ''='' \<notin> ?X" by (simp add: letters_digits_def)
  then have body: "trim_padding (body @ pad) = body" if "pad \<in> {[], ''='', ''==''}" "set body \<subseteq> ?X" for body pad
    using trim_padding_body [OF _ that(1)] that(2) by blast
  have "(\<exists>body pad. s = body @ pad \<and> pad \<in> {[], ''='', ''==''} \<and> 40 \<le> length body \<and> set body \<subseteq> ?X) \<longleftrightarrow>
      40 \<le> length (trim_padding s) \<and> set (trim_padding s) \<subseteq> ?X" (is "?l \<longleftrightarrow> ?r")
  proof
    assume ?l
    then show ?r using body by metis
  next
    assume ?r
    then show ?l using trim_padding_split [of s] by blast
  qed
  then show ?thesis
    unfolding key_shaped_def looksLikeSecret_def Let_def
    by (simp only: is_alnum_letters list_all_iff) (auto simp: subset_iff)
qed

text \<open>
  C38. What \<open>redactArgv\<close> takes from a command line (the \<open>argv\<close> and \<open>command\<close> of the start event; the
  bubblewrap command of the mode event does not go through it): the list keeps its length; the argument after a
  flag with a secret-like name is dropped, unless that flag was itself in the place of such a value (so in
  \<open>--no-auth --token abc123\<close> the last one stays, lemma \<open>nested_secret_flag_leaks\<close>); no
  \<open>name=value\<close> with a secret-like name keeps its value; no argument without a dash that has the shape of a
  key or token is left; and an argument that is none of these is written as it stands.
\<close>

theorem record_redacts_secrets:
  "length (redactArgv argv) = length argv \<and>
   (\<forall>i < length argv. flag_value argv i \<longrightarrow> redactArgv argv ! i = ''<redacted>'') \<and>
   (\<forall>x \<in> set (redactArgv argv).
      (\<forall>name v. x = name @ CHR ''='' # v \<and> CHR ''='' \<notin> set name \<and> names_secret name \<longrightarrow> v = ''<redacted>'') \<and>
      (key_shaped x \<longrightarrow> has_prefix x ''-'')) \<and>
   (\<forall>i < length argv. redactArgv argv ! i \<noteq> argv ! i \<longrightarrow>
      flag_value argv i \<or> holds_value (argv ! i) \<or> key_shaped (argv ! i) \<and> \<not> has_prefix (argv ! i) ''-'')"
proof (intro conjI)
  note exact = redaction_is_exact [of argv]
  note keys = redact_one_safe [unfolded key_shaped_code] redact_one_keeps [unfolded key_shaped_code] redacted_not_secret [unfolded key_shaped_code]
  show "length (redactArgv argv) = length argv" using exact by blast
  show "\<forall>i < length argv. flag_value argv i \<longrightarrow> redactArgv argv ! i = ''<redacted>''"
    using exact by (simp add: flag_value_code redacted_def)
  show "\<forall>x \<in> set (redactArgv argv).
      (\<forall>name v. x = name @ CHR ''='' # v \<and> CHR ''='' \<notin> set name \<and> names_secret name \<longrightarrow> v = ''<redacted>'') \<and>
      (key_shaped x \<longrightarrow> has_prefix x ''-'')"
  proof
    fix x assume "x \<in> set (redactArgv argv)"
    then obtain i where "i < length argv" "x = redactArgv argv ! i"
      using exact by (auto simp: in_set_conv_nth)
    then have "x = redacted \<or> x = fst (redact_one (argv ! i))" using exact by simp
    then show "(\<forall>name v. x = name @ CHR ''='' # v \<and> CHR ''='' \<notin> set name \<and> names_secret name \<longrightarrow> v = ''<redacted>'') \<and>
        (key_shaped x \<longrightarrow> has_prefix x ''-'')"
    proof
      assume x: "x = redacted"
      have "CHR ''='' \<notin> set x" by (simp add: x redacted_def)
      then have "\<forall>name v. x \<noteq> name @ CHR ''='' # v" by auto
      then show ?thesis using keys by (simp add: x)
    next
      assume x: "x = fst (redact_one (argv ! i))"
      from keys(1) [OF x] show ?thesis unfolding names_secret_flag cut_at_found redacted_def by blast
    qed
  qed
  show "\<forall>i < length argv. redactArgv argv ! i \<noteq> argv ! i \<longrightarrow>
      flag_value argv i \<or> holds_value (argv ! i) \<or> key_shaped (argv ! i) \<and> \<not> has_prefix (argv ! i) ''-''"
  proof (intro allI impI)
    fix i assume "i < length argv" and d: "redactArgv argv ! i \<noteq> argv ! i"
    then have "redactArgv argv ! i = (if is_value argv i then redacted else fst (redact_one (argv ! i)))" using exact by blast
    with d show "flag_value argv i \<or> holds_value (argv ! i) \<or> key_shaped (argv ! i) \<and> \<not> has_prefix (argv ! i) ''-''"
      using keys(2) [of "argv ! i"] by (cases "is_value argv i") (simp_all only: flag_value_code if_True if_False simp_thms)
  qed
qed

theorem record_redacts_secrets_witness:
  "redactArgv [''gh'', ''--token'', ''abc'', ''api_key=1''] ! 2 = ''<redacted>'' \<and>
   ''api_key=1'' \<notin> set (redactArgv [''gh'', ''--token'', ''abc'', ''api_key=1'']) \<and>
   redactArgv [''gh'', ''--token'', ''abc'', ''api_key=1''] ! 0 = ''gh''"
proof -
  let ?argv = "[''gh'', ''--token'', ''abc'', ''api_key=1'']"
  have gh: "secretFlag ''--token''" "\<not> secretFlag ''gh''" "secretFlag ''api_key''" "\<not> looksLikeSecret ''gh''"
    "cut_at ''--token'' (CHR ''='') = (''--token'', [], False)" "cut_at ''gh'' (CHR ''='') = (''gh'', [], False)"
    by code_simp+
  then have "\<not> holds_value ''gh''" "\<not> holds_value ''--token''" by (auto simp: holds_value_cut)
  with gh have gh': "flag_value ?argv 2" "\<not> flag_value ?argv 0" "\<not> holds_value (?argv ! 0)" "\<not> key_shaped (?argv ! 0)"
    by (simp_all add: numeral_2_eq_2 waits_for_value_def names_secret_flag key_shaped_code [symmetric])
  note c = record_redacts_secrets [of ?argv]
  have "redactArgv ?argv ! 2 = ''<redacted>''" using c gh'(1) by simp
  moreover have "''api_key=1'' \<notin> set (redactArgv ?argv)"
  proof
    assume "''api_key=1'' \<in> set (redactArgv ?argv)"
    then have "\<And>name v. ''api_key=1'' = name @ CHR ''='' # v \<and> CHR ''='' \<notin> set name \<and> names_secret name \<Longrightarrow> v = ''<redacted>''"
      using c by blast
    from this [of "''api_key''" "''1''"] gh(3) show False by (simp add: names_secret_flag)
  qed
  moreover have "redactArgv ?argv ! 0 = ?argv ! 0"
  proof (rule ccontr)
    assume "redactArgv ?argv ! 0 \<noteq> ?argv ! 0"
    moreover have "0 < length ?argv" by simp
    ultimately show False using c gh'(2,3,4) by blast
  qed
  ultimately show ?thesis by simp
qed

lemma nested_secret_flag_leaks:
  "redactArgv [''x'', ''--no-auth'', ''--token'', ''abc123''] ! 3 = ''abc123''"
proof -
  have "\<not> is_value [''x'', ''--no-auth'', ''--token'', ''abc123''] 3" "fst (redact_one ''abc123'') = ''abc123''"
    by code_simp+
  with redaction_is_exact [of "[''x'', ''--no-auth'', ''--token'', ''abc123'']"] show ?thesis by simp
qed

end
