(* ===== verification/Run.thy ===== *)
theory Run
  imports Outer_Properties Shell_Quote Audit_Log Resources Elevate Rollback
begin

text \<open>
  The end of \<open>outer\<close> (\<open>main.go\<close>): what the run record says about the plan, and the sequence from the
  finished plan to the exit, as the list of effects in order.
\<close>

section \<open>The record of the plan\<close>

text \<open>
  The events \<open>outer\<close> writes before the jail starts.  "policy" has the merged lists, the names of the
  forwarded variables and the final allowlists; a list that was never appended to is written as \<open>null\<close>.
\<close>

definition start_entry :: "string \<Rightarrow> string list \<Rightarrow> string list \<Rightarrow> string \<Rightarrow> string \<Rightarrow> int \<Rightarrow> audit_entry" where
  "start_entry t args cmd cwd home pid =
     \<lparr>en_time = t, en_kind = ''start'',
      en_fields =
       [(''argv'', strings_json (redactArgv args)),
        (''command'', strings_json (redactArgv cmd)),
        (''cwd'', JStr cwd),
        (''home'', JStr home),
        (''pid'', JNum (int_text pid))]\<rparr>"

definition landlock_record :: "launch \<Rightarrow> json" where
  "landlock_record l =
     (let pl = l_plan l in
      JObj
       [(''ports'', JStr (netPorts (l_opts l))),
        (''ro'', nil_json (llRO pl)),
        (''ro_files'', nil_json (llROFiles pl)),
        (''rw'', nil_json (llRW pl)),
        (''rw_files'', nil_json (llRWFiles pl))])"

definition policy_entry :: "string \<Rightarrow> host \<Rightarrow> launch \<Rightarrow> audit_entry" where
  "policy_entry t h l =
     (let uc = l_conf l in
      \<lparr>en_time = t, en_kind = ''policy'',
       en_fields =
        [(''ro'', strings_json (roPaths @ uc_ro uc)),
         (''rw'', strings_json (rwPaths @ uc_rw uc)),
         (''persist'', nil_json (uc_persist uc)),
         (''mask'', strings_json (maskPaths @ uc_mask uc)),
         (''freeze'', strings_json roFreeze),
         (''env_forwarded'', strings_json (envNames h (envKeep @ uc_env uc))),
         (''landlock'', landlock_record l)]\<rparr>)"

text \<open>The command rendered into the "mode" event, and what a dry run prints.\<close>

definition bwrap_command :: "launch \<Rightarrow> string" where
  "bwrap_command l = shquote (full_command l)"

definition mode_entry :: "string \<Rightarrow> launch \<Rightarrow> audit_entry" where
  "mode_entry t l =
     (let o1 = l_opts l in
      \<lparr>en_time = t, en_kind = ''mode'',
       en_fields =
        [(''overlay'', JBool (overlay o1)),
         (''persist'', JBool (persistAll o1)),
         (''landlock'', JBool (landlockOn o1)),
         (''rlimits'', JBool (rlimits o1)),
         (''allow_userns'', JBool (allowUserns o1)),
         (''keep_env'', JBool (keepEnv o1)),
         (''no_net'', JBool (netIsolate o1)),
         (''net_ports'', JStr (netPorts o1)),
         (''display'', JBool (display o1)),
         (''ssh_agent'', JBool (sshAgent o1)),
         (''ssh_agent_raw'', JBool (sshAgentRaw o1)),
         (''ssh_agent_confirm'', JBool (sshAgentConfirm o1)),
         (''gpu'', JBool (gpu o1)),
         (''elevate'', JBool (elevate o1)),
         (''mem_max'', JStr (memMax o1)),
         (''socket'', JStr (socketKind o1)),
         (''socket_raw'', JBool (rawSock o1)),
         (''bwrap_command'', JStr (bwrap_command l))]\<rparr>)"

lemma strings_one_line: "one_line (strings_json xs)" "one_line (nil_json xs)"
  by (simp_all add: nil_json_def strings_json_def list_all_iff)

lemma run_entries_one_line:
  "fields_one_line (start_entry t args cmd cwd home pid)" "fields_one_line (policy_entry t h l)" "fields_one_line (mode_entry t l)"
  by (simp_all add: fields_one_line_def start_entry_def policy_entry_def mode_entry_def landlock_record_def Let_def
      strings_one_line int_text_one_line)

text \<open>
  C33. The run record holds what it is said to leave out: the "mode" event writes the whole bubblewrap
  command, so the value of every forwarded variable (the built-in names and each \<open>env NAME\<close> of the user's
  config) and every word of the jailed command stand in one of its fields verbatim (up to the quoting of
  apostrophes).
\<close>

theorem record_holds_forwarded_values:
  assumes "build_plan w home cwd uc o1 cmd = Inr l" and "\<not> keepEnv o1"
    and "k \<in> set (envKeep @ uc_env uc)" and "lookup_env (w_host w) k = Some v" and "apostrophe \<notin> set v"
  shows "(''bwrap_command'', JStr (bwrap_command l)) \<in> set (en_fields (mode_entry t l)) \<and>
    contains_sub (bwrap_command l) v \<and>
    (\<forall>word \<in> set (l_inner l). apostrophe \<notin> set word \<longrightarrow> contains_sub (bwrap_command l) word)"
proof -
  obtain pb h ov ph A where b: "base_plan w home cwd uc o1 = Inr pb" and
    hb: "home_binds (w_host w) (w_mktemp w) (w_help w) (w_mkdir_ok w) home uc (overlay o1) pb = Inr (h, ov, ph)" and
    e: "extends (writes_at A) ph (l_plan l)"
    using after_home_extends [OF assms(1)] by blast
  obtain p2 where "extends (\<lambda>x. True) (env_phase (w_host w) (keepEnv o1) uc p2) pb"
    using base_extends_env [OF b] by blast
  with env_phase_forwards [OF assms(2-4)] have "Setenv k v \<in> set (ops pb)" by (auto simp: extends_def)
  with home_binds_grows [OF hb] e have "Setenv k v \<in> set (ops (l_plan l))" by (auto simp: extends_def)
  then have "v \<in> set (full_command l)" by (force simp: full_command_def bwrap_args_def)
  moreover have "set (l_inner l) \<subseteq> set (full_command l)" by (auto simp: full_command_def)
  moreover have "(''bwrap_command'', JStr (bwrap_command l)) \<in> set (en_fields (mode_entry t l))"
    by (simp add: mode_entry_def Let_def)
  ultimately show ?thesis unfolding bwrap_command_def using shquote_shows assms(5) by blast
qed

theorem record_holds_forwarded_values_witness:
  "\<exists>l. sample_build ''/p'' = Inr l \<and> contains_sub (bwrap_command l) ''xterm''"
proof -
  obtain l where l: "sample_build ''/p'' = Inr l" using sample_runs by blast
  have "''TERM'' \<in> set (envKeep @ uc_env empty_conf)" by (simp add: envKeep_def)
  moreover have "lookup_env (w_host sample_world) ''TERM'' = Some ''xterm''"
    by (simp add: sample_world_def quiet_host_def quiet_env_def)
  ultimately show ?thesis using record_holds_forwarded_values [OF l sample_no_sockets(3)] l by fastforce
qed

section \<open>From the plan to the exit\<close>

text \<open>
  How the child ended: it exited with zero, it exited with another code (a signal counts as -1), or
  waiting for it failed.
\<close>

datatype wait_result = Succeeded | ExitedWith int | WaitFailed

record run_world =
  r_args_ok :: bool
  r_cgroups :: cgroup_world
  r_get_limit :: "resource \<Rightarrow> bool"
  r_set_limit :: "resource \<Rightarrow> bool"
  r_limits :: "resource \<Rightarrow> rlimit"
  r_socketpair_ok :: bool
  r_start_ok :: bool
  r_listener :: "int list option list option option"
  r_wait :: wait_result

record run_input =
  ri_dry :: bool
  ri_rlimits :: bool
  ri_mem_max :: string
  ri_elevate :: bool
  ri_agent_proxy :: bool
  ri_rollback :: bool
  ri_options :: "string list"
  ri_inner :: "string list"

datatype os_signal = SIGINT | SIGTERM | SIGHUP

datatype effect =
    Printed string
  | ArgsWritten string
  | LimitsSet "resource list"
  | CgroupReady string
  | ChildStarted "string list"
  | SupervisorStarted int
  | NoSupervisor recv_error
  | ChildWaited
  | AgentClosed
  | SupervisorClosed
  | RollbackFinished
  | RecordClosed int
  | TempsRemoved
  | Exited int
  | HandlerReset os_signal
  | Raised os_signal

text \<open>
  \<open>fatal\<close> and a plain return: the record is closed and the temp files go on both.  \<open>Exited\<close> carries the
  status the process ends with, of which \<open>os.Exit\<close> passes on the low eight bits: \<open>ExitCode\<close> is \<open>-1\<close> for a
  child killed by a signal, and the status is 255 then.
\<close>

definition exit_status :: "int \<Rightarrow> int" where
  "exit_status code = code mod 256"

definition fatal_exit :: "int \<Rightarrow> effect list" where
  "fatal_exit code = [RecordClosed code, TempsRemoved, Exited (exit_status code)]"

definition plain_return :: "effect list" where
  "plain_return = [TempsRemoved, RecordClosed 0, Exited 0]"

definition nul :: string where "nul = [CHR 0x00]"

definition after_wait :: "run_world \<Rightarrow> run_input \<Rightarrow> bool \<Rightarrow> effect list" where
  "after_wait w i supervised =
     [ChildWaited] @ (if ri_agent_proxy i then [AgentClosed] else []) @
     (if supervised then [SupervisorClosed] else []) @
     (if ri_rollback i then [RollbackFinished] else []) @
     (case r_wait w of
        Succeeded \<Rightarrow> plain_return
      | ExitedWith n \<Rightarrow> [RecordClosed n, TempsRemoved, Exited (exit_status n)]
      | WaitFailed \<Rightarrow> fatal_exit 1)"

definition started :: "run_world \<Rightarrow> run_input \<Rightarrow> effect list" where
  "started w i =
     (if ri_elevate i then
        (case recvListener (r_listener w) of
           Inl err \<Rightarrow> NoSupervisor err # after_wait w i False
         | Inr fd \<Rightarrow> SupervisorStarted fd # after_wait w i True)
      else after_wait w i False)"

definition run_child :: "run_world \<Rightarrow> run_input \<Rightarrow> effect list" where
  "run_child w i =
     (if ri_elevate i \<and> \<not> r_socketpair_ok w then fatal_exit 1
      else if \<not> r_start_ok w then fatal_exit 1
      else ChildStarted ([bwrapBin, ''--args'', ''3'', ''--''] @ ri_inner i) # started w i)"

definition capped_child :: "run_world \<Rightarrow> run_input \<Rightarrow> effect list" where
  "capped_child w i =
     (if ri_mem_max i = [] then run_child w i
      else (case setupCgroup (r_cgroups w) (ri_mem_max i) (unat maxProcs) of
              Inl refused \<Rightarrow> fatal_exit 1
            | Inr r \<Rightarrow> (case cr_dir r of Some dir \<Rightarrow> [CgroupReady dir] | None \<Rightarrow> []) @ run_child w i))"

definition run_jail :: "run_world \<Rightarrow> run_input \<Rightarrow> effect list" where
  "run_jail w i =
     (if ri_dry i then Printed (shquote (bwrapBin # ri_options i @ ''--'' # ri_inner i)) # plain_return
      else if \<not> r_args_ok w then fatal_exit 1
      else ArgsWritten (join_with nul (ri_options i)) #
        (if ri_rlimits i then [LimitsSet (snd (applyRlimits (r_get_limit w) (r_set_limit w) (r_limits w)))] else []) @
        capped_child w i)"

subsection \<open>Every exit is clean\<close>

definition child_code :: "wait_result \<Rightarrow> int" where
  "child_code r = (case r of Succeeded \<Rightarrow> 0 | ExitedWith n \<Rightarrow> n | WaitFailed \<Rightarrow> 1)"

text \<open>
  A tail that closes the record once with the code, removes the temp files once, and ends with the exit,
  whose status is the code's low eight bits.
\<close>

definition clean_end :: "int \<Rightarrow> effect list \<Rightarrow> bool" where
  "clean_end code fs \<longleftrightarrow> fs \<noteq> [] \<and> last fs = Exited (code mod 256) \<and>
     filter (\<lambda>f. \<exists>c. f = RecordClosed c \<or> f = TempsRemoved \<or> f = Exited c) fs \<in>
       {[RecordClosed code, TempsRemoved, Exited (code mod 256)], [TempsRemoved, RecordClosed code, Exited (code mod 256)]}"

definition quiet_effect :: "effect \<Rightarrow> bool" where
  "quiet_effect f \<longleftrightarrow> \<not> (\<exists>c. f = RecordClosed c \<or> f = TempsRemoved \<or> f = Exited c)"

lemma quiet_simps [simp]:
  "quiet_effect (Printed s)" "quiet_effect (ArgsWritten s)" "quiet_effect (LimitsSet rs)" "quiet_effect (CgroupReady d)"
  "quiet_effect (ChildStarted a)" "quiet_effect (SupervisorStarted fd)" "quiet_effect (NoSupervisor e)" "quiet_effect ChildWaited"
  "quiet_effect AgentClosed" "quiet_effect SupervisorClosed" "quiet_effect RollbackFinished"
  by (simp_all add: quiet_effect_def)

lemma clean_end_Cons [simp]: "quiet_effect f \<Longrightarrow> clean_end code (f # fs) \<longleftrightarrow> clean_end code fs"
  by (cases "fs = []") (auto simp: clean_end_def quiet_effect_def)

lemma clean_fatal [simp]: "clean_end code (fatal_exit code)" and clean_return [simp]: "clean_end 0 plain_return"
  and clean_exit [simp]: "clean_end code [RecordClosed code, TempsRemoved, Exited (exit_status code)]"
  by (simp_all add: clean_end_def fatal_exit_def plain_return_def exit_status_def)

lemma some_end [simp]: "\<exists>code. clean_end code (fatal_exit c)" "\<exists>code. clean_end code plain_return"
  using clean_fatal clean_return by blast+

lemma after_wait_clean: "clean_end (child_code (r_wait w)) (after_wait w i s)"
  by (cases "r_wait w") (simp_all add: after_wait_def child_code_def)

lemma started_clean: "clean_end (child_code (r_wait w)) (started w i)"
  by (simp add: started_def after_wait_clean split: sum.split)

lemma run_child_clean: "\<exists>code. clean_end code (run_child w i) \<and>
    (ChildStarted a \<in> set (run_child w i) \<longrightarrow> code = child_code (r_wait w))"
proof -
  have "ChildStarted a \<notin> set (fatal_exit 1)" by (simp add: fatal_exit_def)
  then show ?thesis using started_clean [of w i] clean_fatal [of 1] by (auto simp: run_child_def)
qed

lemma run_jail_ends: "\<exists>code. clean_end code (run_jail w i) \<and>
    (ChildStarted a \<in> set (run_jail w i) \<longrightarrow> code = child_code (r_wait w))"
proof -
  have no: "ChildStarted a \<notin> set (fatal_exit 1)" "ChildStarted a \<notin> set plain_return"
    by (simp_all add: fatal_exit_def plain_return_def)
  have c: "\<exists>code. clean_end code (capped_child w i) \<and> (ChildStarted a \<in> set (capped_child w i) \<longrightarrow> code = child_code (r_wait w))"
    using run_child_clean [of w i a] no clean_fatal [of 1]
    by (auto simp: capped_child_def split: sum.split option.split)
  then show ?thesis using no clean_fatal [of 1] clean_return by (auto simp: run_jail_def)
qed

lemma not_started_code:
  assumes "\<not> (\<exists>argv. ChildStarted argv \<in> set (run_jail w i))"
  shows "clean_end (if ri_dry i then 0 else 1) (run_jail w i)"
proof -
  have r: "run_child w i = fatal_exit 1" if "\<not> (\<exists>argv. ChildStarted argv \<in> set (run_child w i))"
    using that by (auto simp: run_child_def)
  have "clean_end 1 (capped_child w i)" if "\<not> (\<exists>argv. ChildStarted argv \<in> set (capped_child w i))"
    using that r
    by (cases "ri_mem_max i = []"; cases "setupCgroup (r_cgroups w) (ri_mem_max i) (unat maxProcs)")
      (auto simp: capped_child_def split: option.splits)
  then show ?thesis using assms by (auto simp: run_jail_def)
qed

text \<open>
  C34. From the finished plan on, and unless a signal ends the process (then the record stays open),
  every way out is clean: whatever fails, the sequence ends with exactly one closing of the run record,
  exactly one removal of the temp files, and the exit, with the code that the record holds, cut to
  eight bits.  Once the jail has started the code is 0 if it succeeded, its own exit code if it
  failed (\<open>-1\<close>, status 255, if a signal killed it), and 1 if waiting for it failed; a jail that was not
  started ends with 0 in a dry run and 1 otherwise.
\<close>

theorem every_exit_is_clean:
  "\<exists>code. clean_end code (run_jail w i) \<and>
     (\<forall>argv. ChildStarted argv \<in> set (run_jail w i) \<longrightarrow> \<not> ri_dry i \<and>
        code = (case r_wait w of Succeeded \<Rightarrow> 0 | ExitedWith n \<Rightarrow> n | WaitFailed \<Rightarrow> 1)) \<and>
     (\<not> (\<exists>argv. ChildStarted argv \<in> set (run_jail w i)) \<longrightarrow> code = (if ri_dry i then 0 else 1))"
proof (cases "\<exists>argv. ChildStarted argv \<in> set (run_jail w i)")
  case True
  then obtain argv where a: "ChildStarted argv \<in> set (run_jail w i)" ..
  moreover have "\<not> ri_dry i" using a by (auto simp: run_jail_def plain_return_def)
  ultimately show ?thesis using run_jail_ends [of w i argv] unfolding child_code_def by blast
next
  case False
  then show ?thesis using not_started_code [of w i] by blast
qed

theorem every_exit_is_clean_witness:
  "\<exists>w i. clean_end 3 (run_jail w i) \<and> ri_rollback i"
proof -
  let ?w = "\<lparr>r_args_ok = True, r_cgroups = sample_cgroups, r_get_limit = (\<lambda>r. False), r_set_limit = (\<lambda>r. True),
    r_limits = (\<lambda>r. \<lparr>rl_cur = 1, rl_max = 1\<rparr>), r_socketpair_ok = True, r_start_ok = True, r_listener = None, r_wait = ExitedWith 3\<rparr>"
  let ?i = "\<lparr>ri_dry = False, ri_rlimits = False, ri_mem_max = [], ri_elevate = False, ri_agent_proxy = False, ri_rollback = True,
    ri_options = [], ri_inner = [''sh'']\<rparr>"
  have "ChildStarted [bwrapBin, ''--args'', ''3'', ''--'', ''sh''] \<in> set (run_jail ?w ?i)"
    by (simp add: run_jail_def capped_child_def run_child_def)
  with every_exit_is_clean [of ?w ?i] have "clean_end 3 (run_jail ?w ?i)" by (auto simp: child_code_def)
  then show ?thesis by (metis (mono_tags, lifting) run_input.select_convs(6))
qed

definition finished_first :: "effect list \<Rightarrow> bool" where
  "finished_first fs \<longleftrightarrow> (\<exists>xs ys. fs = xs @ RollbackFinished # ys \<and> ChildWaited \<in> set xs \<and>
     (\<forall>c. RecordClosed c \<notin> set xs \<and> Exited c \<notin> set xs) \<and> TempsRemoved \<notin> set xs)"

lemma finished_first_Cons: "quiet_effect f \<Longrightarrow> finished_first fs \<Longrightarrow> finished_first (f # fs)"
  unfolding finished_first_def quiet_effect_def by (metis append_Cons list.set_intros(2) set_ConsD)

lemma finished_first_after: "ri_rollback i \<Longrightarrow> finished_first (after_wait w i s)"
  unfolding finished_first_def after_wait_def
  by (rule exI [of _ "[ChildWaited] @ (if ri_agent_proxy i then [AgentClosed] else []) @ (if s then [SupervisorClosed] else [])"]) simp

text \<open>
  The closing snapshot is taken on every exit path of the main goroutine: once a jail with \<open>--rollback\<close> has started, its
  destruction is recorded after it has ended, whatever its exit code, and before the record is closed,
  the temp files go or the process exits.
\<close>

lemma rollback_is_always_finished:
  assumes "ri_rollback i" and "ChildStarted argv \<in> set (run_jail w i)"
  shows "finished_first (run_jail w i)"
proof -
  have s: "finished_first (started w i)"
    using finished_first_after [OF assms(1)] finished_first_Cons by (auto simp: started_def split: sum.split)
  have c: "finished_first (run_child w i)" if "ChildStarted argv \<in> set (run_child w i)"
    using that s finished_first_Cons by (auto simp: run_child_def fatal_exit_def split: if_splits)
  have "finished_first (capped_child w i)" if "ChildStarted argv \<in> set (capped_child w i)"
    using that c finished_first_Cons by (auto simp: capped_child_def fatal_exit_def split: if_splits sum.splits option.splits)
  then show ?thesis using assms(2) finished_first_Cons
    by (auto simp: run_jail_def fatal_exit_def plain_return_def split: if_splits)
qed

lemma rollback_finished_sample:
  "\<exists>w i. ri_rollback i \<and> r_wait w = ExitedWith 1 \<and> finished_first (run_jail w i)"
proof -
  let ?w = "\<lparr>r_args_ok = True, r_cgroups = sample_cgroups, r_get_limit = (\<lambda>r. False), r_set_limit = (\<lambda>r. True),
    r_limits = (\<lambda>r. \<lparr>rl_cur = 1, rl_max = 1\<rparr>), r_socketpair_ok = True, r_start_ok = True, r_listener = None, r_wait = ExitedWith 1\<rparr>"
  let ?i = "\<lparr>ri_dry = False, ri_rlimits = False, ri_mem_max = [], ri_elevate = False, ri_agent_proxy = False, ri_rollback = True,
    ri_options = [], ri_inner = [''sh'']\<rparr>"
  have "ChildStarted [bwrapBin, ''--args'', ''3'', ''--'', ''sh''] \<in> set (run_jail ?w ?i)"
    by (simp add: run_jail_def capped_child_def run_child_def)
  from rollback_is_always_finished [OF _ this] have "finished_first (run_jail ?w ?i)" by simp
  then show ?thesis
    by (intro exI [of _ ?w] exI [of _ ?i]) simp
qed

section \<open>Signals\<close>

text \<open>
  What the goroutine of \<open>cleanupOnSignal\<close> does with a signal, and a run that one interrupts after the
  first \<open>k\<close> effects: the process is gone when the signal is raised again.
\<close>

definition cleanupOnSignal :: "os_signal \<Rightarrow> effect list" where
  "cleanupOnSignal sig = [TempsRemoved, HandlerReset sig, Raised sig]"

definition interrupted :: "nat \<Rightarrow> os_signal \<Rightarrow> run_world \<Rightarrow> run_input \<Rightarrow> effect list" where
  "interrupted k sig w i = take k (run_jail w i) @ cleanupOnSignal sig"

definition closing :: "effect \<Rightarrow> bool" where
  "closing f \<longleftrightarrow> f = RollbackFinished \<or> f = TempsRemoved \<or> (\<exists>c. f = RecordClosed c \<or> f = Exited c)"

text \<open>Nothing is closed before the wait.\<close>

definition waits_first :: "effect list \<Rightarrow> bool" where
  "waits_first fs \<longleftrightarrow> (\<forall>k. ChildWaited \<notin> set (take k fs) \<longrightarrow> list_all (\<lambda>f. \<not> closing f) (take k fs))"

lemma closing_simps [simp]:
  "\<not> closing (Printed s)" "\<not> closing (ArgsWritten s)" "\<not> closing (LimitsSet rs)" "\<not> closing (CgroupReady d)"
  "\<not> closing (ChildStarted a)" "\<not> closing (SupervisorStarted fd)" "\<not> closing (NoSupervisor e)"
  by (simp_all add: closing_def)

lemma waits_first_Cons: "\<not> closing f \<Longrightarrow> waits_first fs \<Longrightarrow> waits_first (f # fs)"
  by (auto simp: waits_first_def take_Cons split: nat.split)

lemma waits_first_wait: "waits_first (ChildWaited # fs)"
  by (auto simp: waits_first_def take_Cons split: nat.split)

lemma started_waits_first: "waits_first (started w i)"
  using waits_first_wait waits_first_Cons by (auto simp: started_def after_wait_def split: sum.split)

lemma run_waits_first:
  assumes "ChildStarted argv \<in> set (run_jail w i)"
  shows "waits_first (run_jail w i)"
proof -
  have c: "waits_first (run_child w i)" if "ChildStarted argv \<in> set (run_child w i)"
    using that started_waits_first waits_first_Cons by (auto simp: run_child_def fatal_exit_def split: if_splits)
  have "waits_first (capped_child w i)" if "ChildStarted argv \<in> set (capped_child w i)"
    using that c waits_first_Cons by (auto simp: capped_child_def fatal_exit_def split: if_splits sum.splits option.splits)
  then show ?thesis using assms waits_first_Cons
    by (auto simp: run_jail_def fatal_exit_def plain_return_def split: if_splits)
qed

text \<open>
  C35. A signal while the jail is running ends azkaban at once: the temp files go and the signal is raised
  again, but the closing snapshot of \<open>--rollback\<close> is not taken, the run record is not closed, and no
  exit of the normal kind follows.
\<close>

theorem interrupt_skips_rollback:
  assumes "ChildStarted argv \<in> set (take k (run_jail w i))" and "ChildWaited \<notin> set (take k (run_jail w i))"
  shows "RollbackFinished \<notin> set (interrupted k sig w i) \<and> RecordClosed c \<notin> set (interrupted k sig w i) \<and>
    Exited c \<notin> set (interrupted k sig w i) \<and> TempsRemoved \<in> set (interrupted k sig w i) \<and>
    last (interrupted k sig w i) = Raised sig"
proof -
  have "waits_first (run_jail w i)" by (rule run_waits_first [OF in_set_takeD [OF assms(1)]])
  with assms(2) have "list_all (\<lambda>f. \<not> closing f) (take k (run_jail w i))" by (simp add: waits_first_def)
  then show ?thesis by (auto simp: interrupted_def cleanupOnSignal_def list_all_iff closing_def)
qed

theorem interrupt_skips_rollback_witness:
  "\<exists>w i. ri_rollback i \<and> RollbackFinished \<in> set (run_jail w i) \<and> RollbackFinished \<notin> set (interrupted 2 SIGINT w i)"
proof -
  let ?w = "\<lparr>r_args_ok = True, r_cgroups = sample_cgroups, r_get_limit = (\<lambda>r. False), r_set_limit = (\<lambda>r. True),
    r_limits = (\<lambda>r. \<lparr>rl_cur = 1, rl_max = 1\<rparr>), r_socketpair_ok = True, r_start_ok = True, r_listener = None, r_wait = ExitedWith 1\<rparr>"
  let ?i = "\<lparr>ri_dry = False, ri_rlimits = False, ri_mem_max = [], ri_elevate = False, ri_agent_proxy = False, ri_rollback = True,
    ri_options = [], ri_inner = [''sh'']\<rparr>"
  have r: "run_jail ?w ?i = [ArgsWritten [], ChildStarted [bwrapBin, ''--args'', ''3'', ''--'', ''sh''], ChildWaited, RollbackFinished,
      RecordClosed 1, TempsRemoved, Exited 1]"
    by (simp add: run_jail_def capped_child_def run_child_def started_def after_wait_def exit_status_def)
  have "RollbackFinished \<notin> set (interrupted 2 SIGINT ?w ?i)"
    using interrupt_skips_rollback [of "[bwrapBin, ''--args'', ''3'', ''--'', ''sh'']" 2 ?w ?i SIGINT 0] r by simp
  with r show ?thesis by (intro exI [of _ ?w] exI [of _ ?i]) simp
qed

end
