(* ===== verification/Why_Command.thy ===== *)
theory Why_Command
  imports Why Flags Policy_Json
begin

text \<open>
  The command around the verdicts (\<open>whyCommand\<close>, \<open>loadSelfPolicy\<close> and \<open>printVerdict\<close> of \<open>why.go\<close>): which
  questions are answered, from which policy, and with which exit code a query is refused.
\<close>

definition why_table :: "string \<Rightarrow> flag_kind option" where
  "why_table name =
     (if name \<in> set [''json'', ''self'', ''persist'', ''no-net'', ''no-landlock''] then Some BoolFlag
      else if name = ''port'' then Some IntFlag
      else if name \<in> set [''path'', ''op'', ''host'', ''net-ports'', ''ro'', ''rw'', ''persist-path'']
      then Some StringFlag
      else None)"

datatype self_error = NotInAJail | NoSelfDescription string | UnreadablePolicy string

datatype why_error =
    WhyFlag flag_error
  | NothingToAnswer
  | BadOperation string
  | WhySelf self_error
  | WhyNoHome
  | WhyNoWorkingDir

record why_world =
  ww_host :: host
  ww_home :: "string option"
  ww_cwd :: "string option"

definition loadSelfPolicy :: "why_world \<Rightarrow> self_error + jailPolicy" where
  "loadSelfPolicy w =
     (let h = ww_host w; given = getenv h ''AZKABAN_POLICY'';
          path = (if given = [] then guidancePolicyPath else given) in
      case read_file h path of
        None \<Rightarrow> Inl (if getenv h ''AZKABAN_JAIL'' = [] then NotInAJail else NoSelfDescription path)
      | Some content \<Rightarrow>
          (case read_policy content of None \<Rightarrow> Inl (UnreadablePolicy path) | Some jp \<Rightarrow> Inr jp))"

text \<open>The int flag: a value that is no number never gets here, and the last one counts.\<close>

definition int_flag :: "string \<Rightarrow> (string \<times> string) list \<Rightarrow> int" where
  "int_flag name as = (case rev (flag_values name as) of [] \<Rightarrow> 0 | v # _ \<Rightarrow> (case parseInt v of Some i \<Rightarrow> i | None \<Rightarrow> 0))"

definition op_flag :: "(string \<times> string) list \<Rightarrow> string" where
  "op_flag as = (case rev (flag_values ''op'' as) of [] \<Rightarrow> ''read'' | v # _ \<Rightarrow> v)"

definition path_answer :: "string \<Rightarrow> (string \<Rightarrow> verdict) \<Rightarrow> verdict list" where
  "path_answer path f = (if path = [] then [] else [f path])"

definition net_answer :: "string \<Rightarrow> int \<Rightarrow> (string \<Rightarrow> int \<Rightarrow> verdict) \<Rightarrow> verdict list" where
  "net_answer h port f = (if h = [] \<and> port = 0 then [] else [f h port])"

text \<open>The verdicts inside a jail, and those of the run the flags describe.\<close>

definition self_verdicts :: "string option \<Rightarrow> jailPolicy \<Rightarrow> string \<Rightarrow> operation \<Rightarrow> string \<Rightarrow> int \<Rightarrow> verdict list" where
  "self_verdicts cwd jp path op hst port =
     path_answer path (\<lambda>p. decideSelf cwd p op jp) @
     net_answer hst port (\<lambda>a n. decideNet a n (jp_netIsolate jp) (jp_netPorts jp) (jp_landlock jp))"

definition run_verdicts ::
    "host \<Rightarrow> string \<Rightarrow> string \<Rightarrow> (string \<times> string) list \<Rightarrow> string \<Rightarrow> operation \<Rightarrow> string \<Rightarrow> int \<Rightarrow> verdict list" where
  "run_verdicts h home cwd as path op hst port =
     (let uc = loadUserBinds h home;
          uc = uc\<lparr>uc_ro := uc_ro uc @ flag_values ''ro'' as, uc_rw := uc_rw uc @ flag_values ''rw'' as,
                  uc_persist := uc_persist uc @ flag_values ''persist-path'' as\<rparr> in
      path_answer path (\<lambda>p. decide h (Some cwd) p op home cwd uc (\<not> bool_flag ''persist'' as)) @
      net_answer hst port (\<lambda>a n. decideNet a n (bool_flag ''no-net'' as) (string_flag ''net-ports'' as)
        (\<not> bool_flag ''no-landlock'' as)))"

text \<open>\<open>Inl\<close> carries the exit code; \<open>Inr\<close> whether JSON was asked for, and the verdicts.\<close>

definition whyCommand :: "why_world \<Rightarrow> string list \<Rightarrow> (nat \<times> why_error) + bool \<times> verdict list" where
  "whyCommand w argv =
     (case parse_args why_table argv of
        Inl e \<Rightarrow> Inl (2, WhyFlag e)
      | Inr (as, rest) \<Rightarrow>
          let path = string_flag ''path'' as; hst = string_flag ''host'' as; port = int_flag ''port'' as; opt = op_flag as in
          if path = [] \<and> hst = [] \<and> port = 0 then Inl (2, NothingToAnswer)
          else if opt \<noteq> ''read'' \<and> opt \<noteq> ''write'' then Inl (2, BadOperation opt)
          else
            let op = (if opt = ''read'' then Read else Write); json = bool_flag ''json'' as in
            if bool_flag ''self'' as then
              (case loadSelfPolicy w of
                 Inl e \<Rightarrow> Inl (1, WhySelf e)
               | Inr jp \<Rightarrow> Inr (json, self_verdicts (ww_cwd w) jp path op hst port))
            else
              (case (ww_home w, ww_cwd w) of
                 (None, _) \<Rightarrow> Inl (2, WhyNoHome)
               | (_, None) \<Rightarrow> Inl (2, WhyNoWorkingDir)
               | (Some home, Some cwd) \<Rightarrow> Inr (json, run_verdicts (ww_host w) home cwd as path op hst port)))"

text \<open>The printed form; the texts of mechanisms and details are given by the two functions.\<close>

definition decision_text :: "decision \<Rightarrow> string" where
  "decision_text d = (case d of Allowed \<Rightarrow> ''allowed'' | Denied \<Rightarrow> ''denied'' | Absent \<Rightarrow> ''absent'')"

definition op_text :: "operation option \<Rightarrow> string" where
  "op_text op1 = (case op1 of None \<Rightarrow> [] | Some Read \<Rightarrow> '' (read)'' | Some Write \<Rightarrow> '' (write)'')"

definition em_dash :: string where
  "em_dash = [CHR 0xE2, CHR 0x80, CHR 0x94]"

definition printVerdict :: "(mechanism \<Rightarrow> string) \<Rightarrow> (detail \<Rightarrow> string) \<Rightarrow> verdict \<Rightarrow> string list" where
  "printVerdict mech_text detail_text v =
     [v_query v, ''  '' @ to_upper (decision_text (v_decision v)) @ op_text (v_op v),
      ''  mechanism: '' @ mech_text (v_mechanism v), ''  matched:   '' @ v_rule v] @
     (case v_survives v of
        None \<Rightarrow> []
      | Some True \<Rightarrow> [''  survives:  yes '' @ em_dash @ '' writes land on the host'']
      | Some False \<Rightarrow> [''  survives:  no '' @ em_dash @ '' discarded when the jail exits'']) @
     (if detail_text (v_detail v) = [] then [] else [''  '' @ detail_text (v_detail v)]) @ [[]]"

section \<open>Laws\<close>

lemma answers_length: "length (path_answer p f @ net_answer h n g) = (if p = [] then 0 else 1) + (if h = [] \<and> n = 0 then 0 else 1)"
  by (simp add: path_answer_def net_answer_def)

text \<open>A query that is not refused is answered: one verdict per subject asked about.\<close>

lemma why_answers:
  assumes "whyCommand w argv = Inr (json, vs)"
  shows "vs \<noteq> [] \<and> length vs \<le> 2"
  using assms
  by (auto simp: whyCommand_def Let_def self_verdicts_def run_verdicts_def path_answer_def net_answer_def
    split: sum.splits if_splits option.splits)

text \<open>Inside a jail the answers are those of the policy file, and of nothing else on the host.\<close>

lemma self_answers_from_policy:
  assumes "parse_args why_table argv = Inr (as, rest)" and "bool_flag ''self'' as"
    and "whyCommand w argv = Inr r" and "loadSelfPolicy w' = loadSelfPolicy w" and "ww_cwd w' = ww_cwd w"
  shows "whyCommand w' argv = Inr r"
  using assms by (auto simp: whyCommand_def Let_def split: sum.splits if_splits)

text \<open>The int flag of a command line that was accepted is one of its values, read.\<close>

lemma accepted_value_reads:
  assumes "parse_args formal argv = Inr (as, rest)" and "(k, v) \<in> set as" and "formal k = Some IntFlag"
  shows "parseInt v \<noteq> None"
  using assms
proof (induction formal argv arbitrary: as rule: parse_args.induct)
  case (2 formal s args)
  show ?case
  proof (cases "parse_one formal s args")
    case (FlagItem k' v' args')
    with "2.prems"(1) obtain as' where as': "parse_args formal args' = Inr (as', rest)" "as = (k', v') # as'"
      by auto
    show ?thesis
    proof (cases "(k, v) \<in> set as'")
      case True
      with "2.IH" [OF FlagItem as'(1)] "2.prems"(3) show ?thesis by blast
    next
      case False
      then have "k' = k" "v' = v" using as'(2) "2.prems"(2) by auto
      with FlagItem "2.prems"(3) show ?thesis
        by (auto simp: parse_one_def flag_value_def value_item_def split: if_splits option.splits prod.splits list.splits)
    qed
  qed (use "2.prems" in auto)
qed simp

end
