(* ===== verification/Self_Description.thy ===== *)
theory Self_Description
  imports Landlock_Properties Why_Command
begin

text \<open>
  The description a jail carries of itself, end to end: the outer stage (\<open>main.go\<close>) writes the policy to
  a temp file, binds the file on top of everything at \<open>guidancePolicyPath\<close> and sets \<open>AZKABAN_POLICY\<close>;
  \<open>azkaban why --self\<close> (\<open>why.go\<close>), run in there, reads it back and answers from it.
\<close>

section \<open>What a process inside the jail reads\<close>

text \<open>The mount on top of a path, as the option that made it.\<close>

definition top_op :: "bwrap_op list \<Rightarrow> string \<Rightarrow> bwrap_op option" where
  "top_op xs p = last_such (\<lambda>op. case mount_view op of None \<Rightarrow> False | Some (d, v) \<Rightarrow> under p d) xs"

text \<open>The environment of the target: bwrap's, and after the inner stage without the channel.\<close>

definition inside_env :: "launch \<Rightarrow> environ \<Rightarrow> environ" where
  "inside_env l env =
     (let e = jail_env (ops (l_plan l)) env in if landlockOn (l_opts l) then target_env e else e)"

text \<open>
  A host as the target of a launch sees it: that environment, and where a temp file of the launch is
  the mount on top, the content azkaban wrote to it.
\<close>

definition inside :: "launch \<Rightarrow> environ \<Rightarrow> host \<Rightarrow> bool" where
  "inside l env h \<longleftrightarrow>
     (\<forall>k. getenv h k = env_get (inside_env l env) k) \<and>
     (\<forall>p f content. top_op (ops (l_plan l)) p = Some (RoBind f p) \<longrightarrow>
        map_of (rev (temps (l_plan l))) f = Some content \<longrightarrow> read_file h p = Some content)"

text \<open>Two calls that make a temp file never give the same name.\<close>

definition distinct_temps :: "mktemp \<Rightarrow> bool" where
  "distinct_temps mk \<longleftrightarrow> (\<forall>pre n pre' n' f. mk pre n = Some f \<longrightarrow> mk pre' n' = Some f \<longrightarrow> n = n')"

text \<open>The policy of a launch: its lists are taken once the config directory has been made.\<close>

definition own_policy :: "world \<Rightarrow> string \<Rightarrow> string \<Rightarrow> launch \<Rightarrow> jailPolicy" where
  "own_policy w home cwd l =
     policy_of (w\<lparr>w_host := mkdir_all (w_host w) (join_path [home, azkabanCfgDir])\<rparr>) home cwd (l_conf l) (l_opts l)"

section \<open>The file that is bound\<close>

lemma bind_text_parts:
  assumes "bind_text mk pre c d pl = Inr pl'"
  shows "\<exists>f. mk pre (length (temps pl)) = Some f \<and> ops pl' = ops pl @ [RoBind f d] \<and> temps pl' = temps pl @ [(f, c)]"
  using assms by (auto simp: bind_text_def tempWith_def split: option.splits)

lemma temps_setenvs: "temps (setenvs kvs pl) = temps pl"
  by (simp add: setenvs_def, induction kvs arbitrary: pl) auto

lemma ops_setenvs: "ops (setenvs kvs pl) = ops pl @ map (\<lambda>(k, v). Setenv k v) kvs"
  by (simp add: setenvs_def, induction kvs arbitrary: pl) auto

lemma guidance_binds:
  assumes "guidance_phase w home cwd uc o1 pl = Inr pl'" and "\<not> noGuidance o1" and "distinct_temps (w_mktemp w)"
  shows "\<exists>f. top_op (ops pl') guidancePolicyPath = Some (RoBind f guidancePolicyPath) \<and>
    map_of (rev (temps pl')) f = Some (policy_text (policy_of w home cwd uc o1))"
proof -
  let ?jp = "policy_of w home cwd uc o1" and ?mk = "w_mktemp w"
  from assms(1,2) obtain p1 p2 p3 where
    1: "bind_text ?mk ''azkaban-policy-'' (policy_text ?jp) guidancePolicyPath pl = Inr p1" and
    2: "bind_text ?mk ''azkaban-readme-'' (guidanceText ?jp) guidanceReadmePath p1 = Inr p2" and
    3: "bind_text ?mk ''azkaban-hook-'' (text_of claudeHook) (guidanceDir @ ''/claude-hook.sh'') p2 = Inr p3" and
    4: "pl' = setenvs [(''AZKABAN_JAIL'', ''1''), (''AZKABAN_POLICY'', guidancePolicyPath)] (bind_self w p3)"
    by (auto simp: guidance_phase_def Let_def)
  obtain f1 f2 f3 where
    f: "?mk ''azkaban-policy-'' (length (temps pl)) = Some f1" "?mk ''azkaban-readme-'' (length (temps p1)) = Some f2"
      "?mk ''azkaban-hook-'' (length (temps p2)) = Some f3" and
    o: "ops p3 = ops pl @ [RoBind f1 guidancePolicyPath, RoBind f2 guidanceReadmePath, RoBind f3 (guidanceDir @ ''/claude-hook.sh'')]" and
    t: "temps p3 = temps pl @ [(f1, policy_text ?jp), (f2, guidanceText ?jp), (f3, text_of claudeHook)]" and
    n: "length (temps p1) = Suc (length (temps pl))" "length (temps p2) = Suc (Suc (length (temps pl)))"
    using bind_text_parts [OF 1] bind_text_parts [OF 2] bind_text_parts [OF 3] by fastforce
  have "f1 \<noteq> f2" "f1 \<noteq> f3" using f n assms(3) unfolding distinct_temps_def by fastforce+
  moreover have "temps pl' = temps p3" by (simp add: 4 temps_setenvs bind_self_def split: option.split)
  ultimately have "map_of (rev (temps pl')) f1 = Some (policy_text ?jp)" by (simp add: t)
  moreover have "list_all (\<lambda>d. \<not> under guidancePolicyPath d) [guidanceReadmePath, guidanceDir @ ''/claude-hook.sh'', guidanceBinPath]"
    and "under guidancePolicyPath guidancePolicyPath"
    by code_simp+
  then have "top_op (ops pl') guidancePolicyPath = Some (RoBind f1 guidancePolicyPath)"
    by (simp add: 4 ops_setenvs bind_self_def o top_op_def last_such_append split: option.split)
  ultimately show ?thesis by blast
qed

lemma guidance_env:
  assumes "guidance_phase w home cwd uc o1 pl = Inr pl'" and "\<not> noGuidance o1"
  shows "env_get (jail_env (ops pl') env) ''AZKABAN_POLICY'' = guidancePolicyPath"
proof -
  from assms obtain p where "pl' = setenvs [(''AZKABAN_JAIL'', ''1''), (''AZKABAN_POLICY'', guidancePolicyPath)] p"
    by (auto simp: guidance_phase_def Let_def)
  then show ?thesis by (simp add: ops_setenvs jail_env_append)
qed

lemma inside_env_policy:
  assumes "guidance_phase w home cwd uc (l_opts l) pl = Inr (l_plan l)" and "\<not> noGuidance (l_opts l)"
  shows "env_get (inside_env l env) ''AZKABAN_POLICY'' = guidancePolicyPath"
proof -
  have "\<not> has_prefix ''AZKABAN_POLICY'' llEnvPrefix" by code_simp
  then show ?thesis using guidance_env [OF assms] by (simp add: inside_env_def Let_def env_get_target)
qed

section \<open>The description reads back\<close>

lemma self_policy_loads:
  assumes "build_plan w home cwd uc o1 cmd = Inr l" and "\<not> noGuidance (l_opts l)"
    and "distinct_temps (w_mktemp w)" and "policy_ok (own_policy w home cwd l)" and "inside l env (ww_host ww)"
  shows "loadSelfPolicy ww = Inr (own_policy w home cwd l)"
  using assms(1)
proof (rule build_plan_stages)
  fix pb h ov ph cmd' pg pr st o2 pe o3 pi inner
  assume hb: "home_binds (w_host w) (w_mktemp w) (w_help w) (w_mkdir_ok w) home uc (overlay o1) pb = Inr (h, ov, ph)"
    and gu: "guidance_phase (w\<lparr>w_host := h\<rparr>) home cwd uc o3 pi = Inr (l_plan l)"
    and l: "l_opts l = o3" "l_conf l = uc"
  have h: "h = mkdir_all (w_host w) (join_path [home, azkabanCfgDir])" by (rule home_binds_stages [OF hb])
  have ng: "\<not> noGuidance o3" using assms(2) l(1) by simp
  have "policy_of (w\<lparr>w_host := h\<rparr>) home cwd uc o3 = own_policy w home cwd l" by (simp add: own_policy_def h l)
  with guidance_binds [OF gu ng] assms(3) obtain f where
    "top_op (ops (l_plan l)) guidancePolicyPath = Some (RoBind f guidancePolicyPath)" and
    "map_of (rev (temps (l_plan l))) f = Some (policy_text (own_policy w home cwd l))"
    by auto
  then have "read_file (ww_host ww) guidancePolicyPath = Some (policy_text (own_policy w home cwd l))"
    using assms(5) by (simp add: inside_def)
  moreover have "getenv (ww_host ww) ''AZKABAN_POLICY'' = guidancePolicyPath"
    using inside_env_policy [OF gu [folded l(1)] assms(2)] assms(5) by (simp add: inside_def)
  moreover have "guidancePolicyPath \<noteq> []" by code_simp
  ultimately show ?thesis using policy_reads_back [OF assms(4)] by (simp add: loadSelfPolicy_def Let_def)
qed

text \<open>
  C5. The self-description tells the truth about its own run: inside a jail started with guidance,
  \<open>azkaban why --self\<close> reads back exactly the policy the outer stage computed for that launch, through
  the text of the file, the mount on top of its path and the environment the target was given, and
  the question about a path is answered from that policy.  It is so for a policy whose strings are all
  valid UTF-8 (\<open>policy_ok\<close>: \<open>encoding/json\<close> replaces other bytes, so such a path is read back changed),
  for temp files with distinct names, and for a host that the target sees as bwrap and the inner
  stage set it up (\<open>inside\<close>).
\<close>

theorem self_description_reads_back:
  assumes "build_plan w home cwd uc o1 cmd = Inr l" and "\<not> noGuidance (l_opts l)"
    and "distinct_temps (w_mktemp w)" and "policy_ok (own_policy w home cwd l)" and "inside l env (ww_host ww)"
    and "p \<noteq> []"
  shows "loadSelfPolicy ww = Inr (own_policy w home cwd l) \<and>
    whyCommand ww [''--self'', ''--path'', p] = Inr (False, [decideSelf (ww_cwd ww) p Read (own_policy w home cwd l)])"
proof -
  have load: "loadSelfPolicy ww = Inr (own_policy w home cwd l)" by (rule self_policy_loads [OF assms(1-5)])
  have "parse_args why_table [''--self'', ''--path'', p] = Inr ([(''self'', ''true''), (''path'', p)], [])"
    by (simp add: parse_one_def dash_name_def split_flag_def cut_at_def why_table_def flag_value_def value_item_def)
  with load assms(6) show ?thesis
    by (simp add: whyCommand_def Let_def self_verdicts_def string_flag_def bool_flag_def flag_values_def int_flag_def
      op_flag_def parseBool_def path_answer_def net_answer_def)
qed

section \<open>A launch it applies to\<close>

definition described_opts :: jailOpts where
  "described_opts = sample_opts\<lparr>noGuidance := False\<rparr>"

lemma described_runs:
  "\<exists>l. build_plan sample_world ''/h'' ''/p'' empty_conf described_opts [''sh''] = Inr l \<and> \<not> noGuidance (l_opts l) \<and>
     l_conf l = empty_conf \<and> netPorts (l_opts l) = [] \<and> egressHosts (l_opts l) = []"
proof -
  have same: "base_plan sample_world ''/h'' ''/p'' empty_conf described_opts =
      base_plan sample_world ''/h'' ''/p'' empty_conf sample_opts" "overlay described_opts = overlay sample_opts"
    by (simp_all add: base_plan_def described_opts_def container_phase_def sample_opts_def)
  obtain pb where b: "base_plan sample_world ''/h'' ''/p'' empty_conf sample_opts = Inr pb"
    using sample_base by blast
  obtain h ov ph where hb: "home_binds (w_host sample_world) (w_mktemp sample_world) (w_help sample_world)
     (w_mkdir_ok sample_world) ''/h'' empty_conf (overlay sample_opts) pb = Inr (h, ov, ph)"
    and env: "lookup_env h = quiet_env" "eval_symlinks h = (\<lambda>p. None)" "read_file h = (\<lambda>p. None)"
    using sample_home by blast
  let ?w = "sample_world\<lparr>w_host := h\<rparr>" and ?o = "described_opts\<lparr>overlay := ov\<rparr>"
  have lists: "unixSocket ?o = []" "unixSocketDir ?o = []" "uc_unixSocket empty_conf = []"
    "uc_unixSocketDir empty_conf = []" "uc_credential empty_conf = []" "uc_net empty_conf = []"
    by (simp_all add: described_opts_def sample_opts_def empty_conf_def)
  have off: "\<not> sshAgent ?o" "\<not> landlockOn ?o" "\<not> noGuidance ?o" "\<not> rollback ?o" "brokerPorts ?o = []"
    "netPorts ?o = []" "egressHosts ?o = []"
    by (simp_all add: described_opts_def sample_opts_def)
  have t: "\<exists>pg. target_phase ?w ''/p'' [''sh''] ph = Inr ([''/usr/bin/sh''], pg)"
    by (simp add: target_phase_def Let_def env sample_world_def)
  then obtain pg where g: "grant_plan ?w ''/h'' ''/p'' empty_conf ?o [''sh''] ph = Inr ([''/usr/bin/sh''], pg)"
    by (auto simp: grant_plan_def lists agent_phase_def off)
  have mk: "w_mktemp ?w = w_mktemp sample_world" by simp
  have bt: "\<exists>q. bind_text (w_mktemp sample_world) pre c d pl = Inr q" for pre c d pl
    using sample_temp [of pre c pl] by (auto simp: bind_text_def)
  have gu: "\<exists>q. guidance_phase ?w ''/h'' ''/p'' empty_conf o1 pl = Inr q" for o1 pl
    using bt unfolding guidance_phase_def Let_def mk by (metis bindR.simps(2))
  show ?thesis
    unfolding build_plan_def same b hb bindR.simps Let_def prod.case g
    using gu by (fastforce simp: rollback_phase_def off lists egress_phase_def broker_ports_def inner_phase_def)
qed

lemma sample_distinct: "distinct_temps (w_mktemp sample_world)"
  unfolding distinct_temps_def
proof (intro allI impI)
  fix pre n pre' n' f
  have name: "w_mktemp sample_world pre n = Some (''/tmp/'' @ replicate n (CHR ''i'') @ CHR ''.'' # pre)" for pre n
    by (simp add: sample_world_def)
  assume "w_mktemp sample_world pre n = Some f" and "w_mktemp sample_world pre' n' = Some f"
  then have "replicate n (CHR ''i'') @ CHR ''.'' # pre = replicate n' (CHR ''i'') @ CHR ''.'' # pre'"
    unfolding name option.inject by (metis same_append_eq)
  then have "takeWhile (\<lambda>c. c = CHR ''i'') (replicate n (CHR ''i'') @ CHR ''.'' # pre) =
      takeWhile (\<lambda>c. c = CHR ''i'') (replicate n' (CHR ''i'') @ CHR ''.'' # pre')"
    by (rule arg_cong)
  then have "length (replicate n (CHR ''i'')) = length (replicate n' (CHR ''i''))"
    by (simp add: takeWhile_append)
  then show "n = n'" by simp
qed

lemma sample_policy_ok:
  assumes "l_conf l = empty_conf" and "netPorts (l_opts l) = []" and "egressHosts (l_opts l) = []"
  shows "policy_ok (own_policy sample_world ''/h'' ''/p'' l)"
proof -
  let ?ascii = "list_all (\<lambda>c. byte_code c < 0x80)"
  have names: "list_all (\<lambda>e. ?ascii (resolve ''/h'' e)) (rwPaths @ roPaths @ roFreeze @ maskPaths)"
    "list_all ?ascii envKeep" "?ascii ''/h''" "?ascii ''/p''"
    by code_simp+
  have ends: "valid_utf8 s" if "?ascii s" for s using ascii_valid that by blast
  have present: "list_all valid_utf8 (presentUnder h ''/h'' es)"
    if "set es \<subseteq> set (rwPaths @ roPaths @ roFreeze @ maskPaths)" for h es
    using that names(1) ends unfolding presentUnder_def list_all_iff set_present_from by blast
  have "list_all valid_utf8 (presentUnder h ''/h'' rwPaths)" "list_all valid_utf8 (presentUnder h ''/h'' (roPaths @ roFreeze))"
    "list_all valid_utf8 (presentUnder h ''/h'' maskPaths)" "presentUnder h ''/h'' [] = []" for h
    by (rule present; auto)+ (simp add: presentUnder_def)
  moreover have "list_all valid_utf8 (envNames h envKeep)" for h
    using names(2) ends by (auto simp: envNames_def list_all_iff)
  ultimately show ?thesis
    using names(3,4) ends assms by (simp add: policy_ok_def own_policy_def policy_of_def jail_policy_def empty_conf_def)
qed

definition inside_host :: "launch \<Rightarrow> host" where
  "inside_host l = quiet_host\<lparr>lookup_env := (\<lambda>k. Some (env_get (inside_env l []) k)),
     read_file := (\<lambda>p. case top_op (ops (l_plan l)) p of
       Some (RoBind f d) \<Rightarrow> if d = p then map_of (rev (temps (l_plan l))) f else None | _ \<Rightarrow> None)\<rparr>"

lemma inside_host_inside: "inside l [] (inside_host l)"
  by (simp add: inside_def inside_host_def getenv_def)

theorem self_description_reads_back_witness:
  "\<exists>l. build_plan sample_world ''/h'' ''/p'' empty_conf described_opts [''sh''] = Inr l \<and>
     whyCommand \<lparr>ww_host = inside_host l, ww_home = None, ww_cwd = Some ''/p''\<rparr> [''--self'', ''--path'', ''/p/a''] =
       Inr (False, [decideSelf (Some ''/p'') ''/p/a'' Read (own_policy sample_world ''/h'' ''/p'' l)])"
proof -
  obtain l where l: "build_plan sample_world ''/h'' ''/p'' empty_conf described_opts [''sh''] = Inr l"
      "\<not> noGuidance (l_opts l)" and
    c: "l_conf l = empty_conf" "netPorts (l_opts l) = []" "egressHosts (l_opts l) = []"
    using described_runs by blast
  have "whyCommand \<lparr>ww_host = inside_host l, ww_home = None, ww_cwd = Some ''/p''\<rparr> [''--self'', ''--path'', ''/p/a''] =
       Inr (False, [decideSelf (Some ''/p'') ''/p/a'' Read (own_policy sample_world ''/h'' ''/p'' l)])"
    using self_description_reads_back [OF l sample_distinct sample_policy_ok [OF c],
        of "[]" "\<lparr>ww_host = inside_host l, ww_home = None, ww_cwd = Some ''/p''\<rparr>" "''/p/a''", THEN conjunct2]
      inside_host_inside
    by simp
  with l(1) show ?thesis by blast
qed

end
