(* ===== verification/Agent_Proxy.thy ===== *)
theory Agent_Proxy
  imports Ssh_Agent Paths
begin

text \<open>
  Starting and stopping the filtering ssh agent (\<open>newSSHAgentProxy\<close>, \<open>close\<close>, \<open>stats\<close> of
  \<open>sshagentproxy.go\<close>).  What the file system and the terminal answer is \<open>proxy_world\<close>; the sockets
  left listening and the modes set (448 is 0700, 384 is 0600) are part of the result.
\<close>

record proxy_world =
  pw_mkdir_ok :: bool
  pw_chmod_ok :: "string \<Rightarrow> bool"
  pw_listen_ok :: bool
  pw_tty_ok :: bool

record sshAgentProxy =
  sp_upstream :: string
  sp_path :: string
  sp_confirm :: bool
  sp_tty :: bool
  sp_listening :: bool
  sp_modes :: "(string \<times> nat) list"
  sp_signs :: nat
  sp_lists :: nat
  sp_refused :: nat

datatype proxy_error = MkdirFailed | ChmodFailed string | ListenFailed | NeedsTerminal

text \<open>The boolean of an error: whether the listener was left open.\<close>

definition newSSHAgentProxy :: "proxy_world \<Rightarrow> string \<Rightarrow> string \<Rightarrow> bool \<Rightarrow> (proxy_error \<times> bool) + sshAgentProxy" where
  "newSSHAgentProxy w upstream dir confirm =
     (let path = join_path [dir, ''agent.sock''] in
      if \<not> pw_mkdir_ok w then Inl (MkdirFailed, False)
      else if \<not> pw_chmod_ok w dir then Inl (ChmodFailed dir, False)
      else if \<not> pw_listen_ok w then Inl (ListenFailed, False)
      else if \<not> pw_chmod_ok w path then Inl (ChmodFailed path, False)
      else if confirm \<and> \<not> pw_tty_ok w then Inl (NeedsTerminal, False)
      else Inr \<lparr>sp_upstream = upstream, sp_path = path, sp_confirm = confirm, sp_tty = confirm, sp_listening = True,
                sp_modes = [(dir, 448), (path, 384)], sp_signs = 0, sp_lists = 0, sp_refused = 0\<rparr>)"

text \<open>\<open>close\<close>: the listener goes and the socket is removed; a second call changes nothing.\<close>

definition close_proxy :: "sshAgentProxy \<Rightarrow> sshAgentProxy" where
  "close_proxy p = p\<lparr>sp_listening := False\<rparr>"

definition proxy_stats :: "sshAgentProxy \<Rightarrow> nat \<times> nat \<times> nat" where
  "proxy_stats p = (sp_signs p, sp_lists p, sp_refused p)"

text \<open>One finished connection adds to the counters, as the atomics do.\<close>

definition count_conn :: "conn \<Rightarrow> sshAgentProxy \<Rightarrow> sshAgentProxy" where
  "count_conn c p = p\<lparr>sp_signs := sp_signs p + n_signs c, sp_lists := sp_lists p + n_lists c,
     sp_refused := sp_refused p + n_refused c\<rparr>"

lemma confirm_has_terminal: "newSSHAgentProxy w up dir confirm = Inr p \<Longrightarrow> sp_confirm p \<longrightarrow> sp_tty p"
  by (auto simp: newSSHAgentProxy_def Let_def split: if_splits)

lemma failed_start_leaves_nothing: "newSSHAgentProxy w up dir confirm = Inl (e, left_open) \<Longrightarrow> \<not> left_open"
  by (auto simp: newSSHAgentProxy_def Let_def split: if_splits)

lemma close_idempotent: "close_proxy (close_proxy p) = close_proxy p" "\<not> sp_listening (close_proxy p)"
  by (simp_all add: close_proxy_def)

end
