(* ===== verification/Usage_Text.thy ===== *)
theory Usage_Text
  imports Flags Why_Command Rollback
begin

text \<open>
  The help texts (\<open>usage.go\<close>, \<open>whyUsage\<close>, \<open>rollbackUsage\<close>), line by line, and what they document: they are
  written by hand beside the flag tables, so the entries are read off the text and compared with the tables.
\<close>

section \<open>The texts\<close>

text \<open>The long dash, in UTF-8.\<close>

definition dash :: string where "dash = [CHR 0xE2, CHR 0x80, CHR 0x94]"

definition usage :: "string list" where
  \<open>usage =
    [
     ''azkaban [flags] [--] <command> [args...]'',
     [],
     ''  --no-gpu       do not bind GPU devices (/dev/nvidia*, /dev/dri)'',
     ''  --persist      let writes to $HOME allowlist dirs really land on disk. Default'',
     ''                 is a throwaway overlay: the tool sees them writable, but writes'',
     ''                 and deletes evaporate on exit and cannot destroy real data.'',
     ''  --bind-docker  bind the docker socket behind the filtering proxy (OFF by'',
     ''                 default; containerd is not offered '' @ dash @ '' gRPC, which the proxy'',
     ''                 cannot inspect)'',
     ''  --bind-podman  same, for podman's Docker-compatible REST socket'',
     ''  --unfiltered-container-socket'',
     ''                 bind the socket with NO filtering at all. Says how to bind, not'',
     ''                 which '' @ dash @ '' pair it with --bind-docker or --bind-podman.'',
     ''  --display      pass through X11/wayland/XAUTHORITY + the wayland/pulse sockets'',
     ''                 from /run/user (OFF by default; ssh-agent, gpg-agent, dbus and'',
     ''                 any rootless container socket in there stay hidden)'',
     ''  --ssh-agent    forward the agent (+ known_hosts read-only) so git push over ssh'',
     ''                 works. The jail talks to a FILTERING PROXY in the outer process'',
     ''                 that forwards only "list keys" and "sign this" and refuses add,'',
     ''                 remove, lock and extensions '' @ dash @ '' so a tool inside can no longer'',
     ''                 delete the keys you loaded or lock your host agent. The keys'',
     ''                 stay on the host either way; the jail gets a signing oracle,'',
     ''                 and that oracle still authenticates as you to every host they'',
     ''                 open. OFF by default; ~/.ssh itself is never bound.'',
     ''  --ssh-agent-confirm'',
     ''                 ...and ask on the terminal before every signature. This is'',
     ''                 "ssh-add -c" for a jail that cannot reach the host's prompt.'',
     ''  --ssh-agent-raw'',
     ''                 ...bind the REAL agent socket with no filter, the pre-proxy'',
     ''                 behaviour. Anything in the jail can then add, remove or lock'',
     ''                 your keys as well as sign with them.'',
     ''  --unix-socket PATH'',
     ''                 bind ONE unix socket, and nothing around it. For "this tool may'',
     ''                 reach Postgres at /tmp/.s.PGSQL.5432" without granting /tmp.'',
     ''                 Repeatable; connect and bind are not distinguished. For every'',
     ''                 run, use "unix-socket" lines in the config.'',
     ''  --unix-socket-dir DIR'',
     ''                 same, for a directory whose socket names are generated at'',
     ''                 runtime (PID-suffixed paths). Wider by exactly one directory,'',
     ''                 which is why both exist. Repeatable.'',
     ''  --allow-userns permit nested user namespaces (needed by Chrome/Electron tools)'',
     ''  --no-net       isolate the network in a new namespace (breaks internet access)'',
     ''  --net-ports L  allow outbound TCP only to these ports (comma-separated), enforced'',
     ''                 by landlock. Blocks localhost services and LAN scanning. UDP and'',
     ''                 therefore DNS are unaffected. Needs the landlock stage.'',
     ''  --net-host H   allow outbound traffic only to this host, through a CONNECT'',
     ''                 proxy in the outer process. Repeatable; "*.example.com" covers'',
     ''                 subdomains but not the bare domain. TLS is NOT intercepted '' @ dash,
     ''                 the target is checked and raw bytes relayed. Sets HTTPS_PROXY'',
     ''                 in the jail and narrows --net-ports to the proxy, so a client'',
     ''                 that ignores the variable is refused by the kernel rather than'',
     ''                 connecting directly. Needs the landlock stage. For every run,'',
     ''                 use "net <host>" lines in the config.'',
     ''  --keep-env     inherit the whole host environment (default: clear it and pass'',
     ''                 only HOME/PATH/TERM/LANG/...; add more with "env NAME" in'',
     ''                 ~/.config/azkaban/config)'',
     ''  --mem-max SIZE cap total memory with a cgroup (e.g. 8G). The overlay writes to'',
     ''                 tmpfs, i.e. RAM, and this is the only thing that bounds it. Off'',
     ''                 by default: a cap also disables swap for the jail, so a workload'',
     ''                 that would have paged out is killed instead.'',
     ''  --no-rlimits   do not cap file size / process count (default caps them; the'',
     ''                 overlay writes to RAM, so a runaway write can OOM the host)'',
     ''  --no-landlock  skip the landlock stage'',
     ''  --ro PATH      bind one extra path read-only, this run only. Repeatable.'',
     ''  --rw PATH      same, writable (still overlaid unless --persist). Repeatable.'',
     ''                 $HOME-relative; / and $HOME are refused; un-masks any credential'',
     ''                 store named. For every run, use "ro"/"rw" lines in the config.'',
     ''  --persist-path PATH'',
     ''                 exempt ONE path from the throwaway overlay: writes to it land on'',
     ''                 the host, everything else still evaporates. For the file a tool'',
     ''                 must keep across runs (a login token) without --persist making'',
     ''                 the whole allowlist destroyable. Repeatable; name the file, not'',
     ''                 its directory. For every run, use "persist" lines in the config.'',
     ''  --credential P allow the jail to use a host credential WITHOUT giving it the'',
     ''                 secret: it talks plain HTTP to a loopback broker, which attaches'',
     ''                 the real token and makes the TLS connection itself. "github" is'',
     ''                 the only provider so far; add " write" to permit push, which the'',
     ''                 default read-only policy refuses. Repeatable. For every run, use'',
     ''                 "credential <provider>" lines in the config.'',
     ''  --rollback     snapshot the writable $HOME roots either side of the run and'',
     ''                 let writes land FOR REAL, so destruction becomes a diff to'',
     ''                 review rather than a loss. An alternative to the default'',
     ''                 throwaway overlay, not a layer on it. Review and undo with'',
     ''                 "azkaban rollback show|restore".'',
     ''  --elevate      let a denied READ be approved on the terminal instead of ending'',
     ''                 the run. A seccomp supervisor in the outer process traps opens,'',
     ''                 asks you about any path outside the allowlist, and hands back a'',
     ''                 read-only descriptor it opened itself '' @ dash @ '' so a grant is bounded by'',
     ''                 your own permissions and cannot exceed them. Landlock stays the'',
     ''                 floor: anything the supervisor does not answer is denied by the'',
     ''                 kernel as usual. Writes are never elevated. OFF by default, and'',
     ''                 rate-limited to 10 prompts/s so a tool in a loop cannot wear you'',
     ''                 down. Needs the landlock stage.'',
     ''  --dry-run      print the bwrap command instead of running it'',
     ''  --no-guidance  do not describe the jail to the tool inside it. By default'',
     ''                 /run/azkaban holds a read-only policy.json, a README, a Claude'',
     ''                 Code PostToolUse hook and this binary, so a confused agent can'',
     ''                 run "azkaban why --self" instead of guessing at an error.'',
     ''  --no-audit     do not record this run. Every run is otherwise written as JSONL'',
     ''                 to $XDG_STATE_HOME/azkaban/audit/ '' @ dash @ '' the resolved policy, the'',
     ''                 mode flags, every degradation, every docker-filter decision and'',
     ''                 the exit code. "audit off" in the config turns it off for good.'',
     ''  -h, --help     this help'',
     [],
     ''  azkaban why    explain what the jail would do with one path, host or port,'',
     ''                 without starting one. "azkaban why -h" for its flags.'',
     ''  azkaban rollback  list, review and undo what a --rollback run changed.''
    ]\<close>

definition whyUsage :: "string list" where
  \<open>whyUsage =
    [
     ''azkaban why [flags]'',
     [],
     ''  Explain what the jail would do with one path, host or port. Answers from the'',
     ''  resolved policy '' @ dash @ '' the built-in lists merged with ~/.config/azkaban/config and'',
     ''  whatever run flags you repeat here '' @ dash @ '' without starting a jail.'',
     [],
     ''  --path PATH    the path to ask about ($HOME-relative and ~ both work)'',
     ''  --op read|write   which access to ask about (default: read)'',
     ''  --host HOST    the host to ask about'',
     ''  --port N       the TCP port to ask about'',
     ''  --json         machine-readable, for tooling and for an agent'',
     ''  --self         answer from INSIDE a jail, off the policy it carries. This is'',
     ''                 the variant that helps a confused agent: it runs at the moment'',
     ''                 the error happened. Outside a jail it says so.'',
     [],
     ''  The run flags below change the answer, so you can ask "would this be allowed'',
     ''  if I ran it that way": --persist, --no-net, --net-ports, --no-landlock,'',
     ''  --ro, --rw, --persist-path.'',
     [],
     ''  Examples:'',
     ''    azkaban why --path ~/.claude --op write'',
     ''    azkaban why --path ~/.ssh/id_rsa --op read'',
     ''    azkaban why --port 443 --net-ports 443,80'',
     ''    azkaban why --path ~/.config/gh --json''
    ]\<close>

definition rollbackUsage :: "string list" where
  \<open>rollbackUsage =
    [
     ''azkaban rollback <list|show|restore|cleanup>'',
     [],
     ''  Runs started with --rollback write for real and are snapshotted either side,'',
     ''  so destruction is a diff to review rather than a loss.'',
     [],
     ''  list                       every recorded session, newest first'',
     ''  show ID [substring...]     what that run changed'',
     ''  restore ID [substring...]  put those files back'',
     ''  cleanup [N]                keep the newest N sessions (default 10) and drop'',
     ''                             any stored content nothing refers to'',
     [],
     ''  A path substring narrows show and restore, because "put back the one file it'',
     ''  ate" is the common case and restoring everything would also undo the work.''
    ]\<close>

section \<open>The entries\<close>

text \<open>
  An entry starts with two spaces and two hyphens; a metavariable in capitals after one space makes it a flag with an argument.
\<close>

definition capital :: "char \<Rightarrow> bool" where
  "capital c = (lower_char c \<noteq> c)"

definition name_end :: "char \<Rightarrow> bool" where
  "name_end c = (c = CHR '' '')"

definition entry :: "string \<Rightarrow> (string \<times> bool) option" where
  "entry line =
     (if take 4 line \<noteq> ''  --'' then None
      else let rest = drop 4 line; name = takeWhile (\<lambda>c. \<not> name_end c) rest; after = dropWhile (\<lambda>c. \<not> name_end c) rest in
        Some (name, (case after of
            _ # c # _ \<Rightarrow> capital c
          | _ \<Rightarrow> False)))"

definition entries :: "string list \<Rightarrow> (string \<times> bool) list" where
  "entries text = List.map_filter entry text"

text \<open>The entry a line of a table should have.\<close>

definition takes_argument :: "flag_kind \<Rightarrow> bool" where
  "takes_argument k = (k \<noteq> BoolFlag)"

text \<open>The words between angle brackets, and where a flag is named.\<close>

definition choices :: "string \<Rightarrow> string list" where
  "choices line = split_on (CHR ''|'') (takeWhile (\<lambda>c. c \<noteq> CHR ''>'') (drop 1 (dropWhile (\<lambda>c. c \<noteq> CHR ''<'') line)))"

definition names_flag :: "string list \<Rightarrow> string \<Rightarrow> bool" where
  "names_flag text name = list_ex (\<lambda>line. contains_sub line (''--'' @ name)) text"

section \<open>The texts and the tables agree\<close>

lemma usage_entries:
  "entries usage =
     [(''no-gpu'', False), (''persist'', False), (''bind-docker'', False), (''bind-podman'', False),
      (''unfiltered-container-socket'', False), (''display'', False), (''ssh-agent'', False),
      (''ssh-agent-confirm'', False), (''ssh-agent-raw'', False), (''unix-socket'', True), (''unix-socket-dir'', True),
      (''allow-userns'', False), (''no-net'', False), (''net-ports'', True), (''net-host'', True), (''keep-env'', False),
      (''mem-max'', True), (''no-rlimits'', False), (''no-landlock'', False), (''ro'', True), (''rw'', True),
      (''persist-path'', True), (''credential'', True), (''rollback'', False), (''elevate'', False), (''dry-run'', False),
      (''no-guidance'', False), (''no-audit'', False)]"
  by code_simp

text \<open>
  Every flag of a run is an entry of the help text and every entry is a flag; an entry shows an argument
  exactly when the flag takes one.
\<close>

lemma usage_documents_flags: "map_of (entries usage) name = map_option takes_argument (flag_table name)"
proof (cases "name \<in> fst ` set (entries usage)")
  case True
  then show ?thesis unfolding usage_entries by (auto simp: flag_table_def takes_argument_def)
next
  case False
  then show ?thesis unfolding usage_entries by (auto simp: flag_table_def)
qed

text \<open>The flags of \<open>azkaban why\<close> are all named in its help, and the subcommands of \<open>azkaban rollback\<close> are those it lists.\<close>

lemma why_usage_names_flags: "why_table name \<noteq> None \<Longrightarrow> names_flag whyUsage name"
proof -
  assume "why_table name \<noteq> None"
  then have "name \<in> set [''json'', ''self'', ''persist'', ''no-net'', ''no-landlock'', ''port'', ''path'', ''op'', ''host'',
      ''net-ports'', ''ro'', ''rw'', ''persist-path'']"
    by (auto simp: why_table_def split: if_splits)
  moreover have "list_all (names_flag whyUsage) [''json'', ''self'', ''persist'', ''no-net'', ''no-landlock'', ''port'', ''path'',
      ''op'', ''host'', ''net-ports'', ''ro'', ''rw'', ''persist-path'']"
    by code_simp
  ultimately show ?thesis by (simp only: list_all_iff)
qed

lemma rollback_usage_lists_commands:
  "(\<exists>r. rollbackCommand (c # rest) = Inr r) \<longleftrightarrow> c \<in> set (choices (hd rollbackUsage))"
proof -
  have "choices (hd rollbackUsage) = [''list'', ''show'', ''restore'', ''cleanup'']" by code_simp
  then show ?thesis by (auto simp: rollbackCommand_def)
qed

end
